(* ===== verification/Prelude.thy ===== *)
theory Prelude
  imports
    Main
    "HOL-Library.Word"
    "HOL-Library.Monad_Syntax"
    "HOL-Library.List_Lexorder"
    "HOL-Library.Char_ord"
    "HOL-Library.Code_Target_Nat"
begin

section \<open>Shared vocabulary of the development\<close>

text \<open>
  What every component theory uses: the Rust types the sources are written in, the
  standard-library collections they call, panics, and generic lemmas on lists.

  \<^item> A computation that can panic (\<open>assert!\<close>, \<open>expect\<close>, an out-of-range index) has
    type \<open>'a option\<close> and \<open>None\<close> is the panic. Assertions of the \<open>soft_assert\<close> and
    \<open>debug_assert\<close> families are compiled out of the release build and are not part of
    the definitions; several of them are lemmas instead.
  \<^item> \<open>u64\<close> is \<open>64 word\<close>: addition wraps as it does in a release build, and the
    saturating operations are written out below. \<open>usize\<close> counts (lengths, numbers of
    updates, indices) are \<open>nat\<close>; the places where the source itself guards their
    machine width (\<open>checked_shl\<close>, \<open>next_power_of_two\<close>) are written out.
    \<open>Code_Target_Nat\<close> makes evaluation use binary numbers.
  \<^item> \<open>BTreeMap\<close> and \<open>BTreeSet\<close> are strictly sorted association lists.
  \<^item> A frontier (timely's \<open>Antichain\<close>, code outside the repository) is a type variable of
    class \<open>bounded_lattice\<close>: \<open>\<le>\<close> and \<open><\<close> are \<open>PartialOrder::less_equal\<close> and
    \<open>less_than\<close>, \<open>bot\<close> is \<open>Antichain::from_elem(T::minimum())\<close>, \<open>top\<close> is the empty
    antichain, \<open>inf\<close> and \<open>sup\<close> are \<open>Lattice::meet\<close> and \<open>join\<close>. The class laws are
    the documented contract of those operations and the only facts used about them.
\<close>

named_theorems persist_inv \<open>the operations that keep the invariant of the trace\<close>

type_synonym u8 = "8 word"
type_synonym u64 = "64 word"
type_synonym bytes = "u8 list"

abbreviation (input) panic :: "'a option" where
  "panic \<equiv> None"

definition assert :: "bool \<Rightarrow> unit option" where
  "assert b = (if b then Some () else panic)"

lemma assert_simps [simp]: "assert True = Some ()" "assert False = None"
  by (simp_all add: assert_def)

lemma assert_eq_Some [simp]: "assert b = Some u \<longleftrightarrow> b"
  by (simp add: assert_def)

lemma bind_assert [simp]: "Option.bind (assert b) f = (if b then f () else None)"
  by (simp add: assert_def)

subsection \<open>Machine integers\<close>

text \<open>For evaluation: truncating a positive number looks at its own digits only.\<close>

lemma take_bit_int_code [code]:
  "take_bit n (0 :: int) = 0"
  "take_bit n (Int.Pos m) = (case take_bit_num n m of None \<Rightarrow> 0 | Some q \<Rightarrow> Int.Pos q)"
  "take_bit n (Int.Neg m) = Int.Neg m mod 2 ^ n"
  by (auto simp: take_bit_num_eq_None_imp take_bit_num_eq_Some_imp split: option.splits) (simp add: take_bit_eq_mod)

definition saturating_sub :: "u64 \<Rightarrow> u64 \<Rightarrow> u64" where
  "saturating_sub a b = (if a < b then 0 else a - b)"

definition saturating_add :: "u64 \<Rightarrow> u64 \<Rightarrow> u64" where
  "saturating_add a b = (if unat a + unat b < 2 ^ 64 then a + b else - 1)"

lemma unat_saturating_sub: "unat (saturating_sub a b) = unat a - unat b"
  by (auto simp: saturating_sub_def word_less_nat_alt unat_sub_if_size not_less)

lemma unat_saturating_add: "unat (saturating_add a b) = min (unat a + unat b) (2 ^ 64 - 1)"
proof (cases "unat a + unat b < 2 ^ 64")
  case True
  then show ?thesis by (simp add: saturating_add_def unat_word_ariths)
next
  case False
  then show ?thesis by (simp add: saturating_add_def unsigned_minus_1_eq_mask mask_eq_exp_minus_1)
qed

lemma u64_less_succ: "w \<noteq> - 1 \<Longrightarrow> w < w + (1 :: u64)"
proof -
  assume w: "w \<noteq> - 1"
  have "w + 1 \<noteq> 0" using w by (metis add_eq_0_iff2)
  then have "unat (w + 1) = Suc (unat w)" by (simp add: unatSuc add.commute)
  then show ?thesis by (simp add: word_less_nat_alt)
qed

definition usize_bits :: nat where
  "usize_bits = 64"

definition isize_max :: int where
  "isize_max = 2 ^ 63 - 1"

text \<open>\<open>usize::next_power_of_two\<close>: in a release build the result wraps to 0 above \<open>2 ^ 63\<close>.\<close>

function pow2_at_least :: "nat \<Rightarrow> nat \<Rightarrow> nat" where
  "pow2_at_least p n = (if p = 0 \<or> n \<le> p then p else pow2_at_least (2 * p) n)"
  by pat_completeness auto
termination
  by (relation "measure (\<lambda>(p, n). n - p)") auto

declare pow2_at_least.simps [simp del]

definition next_power_of_two :: "nat \<Rightarrow> nat" where
  "next_power_of_two n = (if n \<le> 2 ^ 63 then pow2_at_least 1 n else 0)"

text \<open>\<open>usize::trailing_zeros\<close>, 64 for 0.\<close>

function trailing_zeros :: "nat \<Rightarrow> nat" where
  "trailing_zeros n =
     (if n = 0 then 64 else if even n then Suc (trailing_zeros (n div 2)) else 0)"
  by pat_completeness auto
termination
  by (relation "measure id") auto

declare trailing_zeros.simps [simp del]

lemma trailing_zeros_pow2: "trailing_zeros (2 ^ k) = k"
proof (induction k)
  case 0
  then show ?case by (subst trailing_zeros.simps) simp
next
  case (Suc k)
  then show ?case by (subst trailing_zeros.simps) simp
qed

lemma pow2_at_least_spec:
  assumes "0 < j \<longrightarrow> 2 ^ (j - 1) < n"
  shows "\<exists>k. pow2_at_least (2 ^ j) n = 2 ^ k \<and> n \<le> 2 ^ k \<and> (0 < k \<longrightarrow> 2 ^ (k - 1) < n)"
  using assms
proof (induction "2 ^ j :: nat" n arbitrary: j rule: pow2_at_least.induct)
  case (1 n)
  show ?case
  proof (cases "n \<le> 2 ^ j")
    case True
    then show ?thesis
      using "1.prems" by (intro exI [of _ j]) (simp add: pow2_at_least.simps [of "2 ^ j"])
  next
    case False
    have "2 * 2 ^ j = (2 ^ Suc j :: nat)" by simp
    then show ?thesis
      using False "1.hyps" [of "Suc j"] by (simp add: pow2_at_least.simps [of "2 ^ j"])
  qed
qed

text \<open>The level computed from a length: the least \<open>k\<close> with \<open>n \<le> 2 ^ k\<close>.\<close>

lemma level_of_len:
  assumes "n \<le> 2 ^ 63"
  shows "n \<le> 2 ^ trailing_zeros (next_power_of_two n)"
    and "0 < trailing_zeros (next_power_of_two n)
           \<longrightarrow> 2 ^ (trailing_zeros (next_power_of_two n) - 1) < n"
proof -
  obtain k where k: "pow2_at_least 1 n = 2 ^ k" "n \<le> 2 ^ k" "0 < k \<longrightarrow> 2 ^ (k - 1) < n"
    using pow2_at_least_spec [of 0 n] by auto
  then have "trailing_zeros (next_power_of_two n) = k"
    using assms by (simp add: next_power_of_two_def trailing_zeros_pow2)
  with k show "n \<le> 2 ^ trailing_zeros (next_power_of_two n)"
    and "0 < trailing_zeros (next_power_of_two n)
           \<longrightarrow> 2 ^ (trailing_zeros (next_power_of_two n) - 1) < n"
    by simp_all
qed

lemma level_le:
  assumes "n \<le> 2 ^ k" and "k \<le> 63"
  shows "trailing_zeros (next_power_of_two n) \<le> k"
proof (rule ccontr)
  let ?l = "trailing_zeros (next_power_of_two n)"
  assume "\<not> ?l \<le> k"
  then have "k \<le> ?l - 1" and "0 < ?l" by auto
  moreover have "n \<le> 2 ^ 63"
    using assms by (meson le_trans one_le_numeral power_increasing)
  ultimately have "2 ^ (?l - 1) < n"
    using level_of_len(2) by blast
  moreover have "(2 :: nat) ^ k \<le> 2 ^ (?l - 1)"
    using \<open>k \<le> ?l - 1\<close> by (simp add: power_increasing)
  ultimately show False using assms(1) by linarith
qed

text \<open>
  \<open>usize::checked_shl\<close>: \<open>None\<close> only for a shift of at least the width; bits shifted out
  at the top are lost silently.
\<close>

definition checked_shl :: "nat \<Rightarrow> nat \<Rightarrow> nat option" where
  "checked_shl x s = (if s < usize_bits then Some ((x * 2 ^ s) mod 2 ^ usize_bits) else None)"

definition checked_mul :: "nat \<Rightarrow> nat \<Rightarrow> nat option" where
  "checked_mul x y = (if x * y < 2 ^ usize_bits then Some (x * y) else None)"

definition isize_try_from :: "nat \<Rightarrow> int option" where
  "isize_try_from x = (if int x \<le> isize_max then Some (int x) else None)"

subsection \<open>\<open>BTreeMap\<close>: strictly sorted association lists\<close>

type_synonym ('k, 'v) btree_map = "('k \<times> 'v) list"
type_synonym 'k btree_set = "'k list"

abbreviation btree_keys :: "('k, 'v) btree_map \<Rightarrow> 'k list" where
  "btree_keys m \<equiv> map fst m"

abbreviation btree_values :: "('k, 'v) btree_map \<Rightarrow> 'v list" where
  "btree_values m \<equiv> map snd m"

abbreviation btree_get :: "('k, 'v) btree_map \<Rightarrow> 'k \<Rightarrow> 'v option" where
  "btree_get m k \<equiv> map_of m k"

fun btree_insert :: "'k :: linorder \<Rightarrow> 'v \<Rightarrow> ('k, 'v) btree_map \<Rightarrow> ('k, 'v) btree_map" where
  "btree_insert k v [] = [(k, v)]"
| "btree_insert k v (e # m) =
     (if fst e < k then e # btree_insert k v m
      else if fst e = k then (k, v) # m
      else (k, v) # e # m)"

definition btree_remove :: "'k \<Rightarrow> ('k, 'v) btree_map \<Rightarrow> ('k, 'v) btree_map" where
  "btree_remove k m = filter (\<lambda>e. fst e \<noteq> k) m"

definition btree_wf :: "('k :: linorder, 'v) btree_map \<Rightarrow> bool" where
  "btree_wf m \<longleftrightarrow> sorted_wrt (<) (btree_keys m)"

definition btree_of_list :: "('k :: linorder \<times> 'v) list \<Rightarrow> ('k, 'v) btree_map" where
  "btree_of_list es = foldl (\<lambda>m e. btree_insert (fst e) (snd e) m) [] es"

definition btree_set_of_list :: "'k :: linorder list \<Rightarrow> 'k btree_set" where
  "btree_set_of_list ks = btree_keys (btree_of_list (map (\<lambda>k. (k, ())) ks))"

lemma btree_wf_Nil [simp]: "btree_wf []"
  by (simp add: btree_wf_def)

lemma btree_wf_Cons: "btree_wf (e # m) \<longleftrightarrow> (\<forall>k \<in> set (btree_keys m). fst e < k) \<and> btree_wf m"
  by (simp add: btree_wf_def)

lemma btree_get_insert [simp]: "btree_get (btree_insert k v m) = (btree_get m)(k \<mapsto> v)"
  by (induction k v m rule: btree_insert.induct) (auto simp: fun_eq_iff)

lemma btree_keys_insert: "set (btree_keys (btree_insert k v m)) = insert k (set (btree_keys m))"
  by (induction k v m rule: btree_insert.induct) auto

lemma btree_wf_insert [intro]: "btree_wf m \<Longrightarrow> btree_wf (btree_insert k v m)"
proof (induction k v m rule: btree_insert.induct)
  case (1 k v)
  then show ?case by (simp add: btree_wf_def)
next
  case (2 k v e m)
  then show ?case
    using btree_keys_insert [of k v m] by (auto simp: btree_wf_Cons)
qed

lemma btree_get_remove [simp]: "btree_get (btree_remove k m) = (btree_get m)(k := None)"
  by (induction m) (auto simp: btree_remove_def fun_eq_iff)

lemma btree_wf_filter [intro]: "btree_wf m \<Longrightarrow> btree_wf (filter P m)"
  by (induction m) (auto simp: btree_wf_Cons)

lemma btree_wf_remove [intro]: "btree_wf m \<Longrightarrow> btree_wf (btree_remove k m)"
  by (simp add: btree_remove_def btree_wf_filter)

lemma btree_wf_of_list: "btree_wf (btree_of_list es)"
proof -
  have "btree_wf (foldl (\<lambda>m e. btree_insert (fst e) (snd e) m) m es)" if "btree_wf m" for m
    using that by (induction es arbitrary: m) (auto intro: btree_wf_insert)
  then show ?thesis by (simp add: btree_of_list_def)
qed

lemma set_btree_set_of_list [simp]: "set (btree_set_of_list ks) = set ks"
proof -
  have "set (btree_keys (foldl (\<lambda>m e. btree_insert (fst e) (snd e) m) m es))
          = set (btree_keys m) \<union> fst ` set es" for m :: "('k :: linorder, unit) btree_map" and es
    by (induction es arbitrary: m) (auto simp: btree_keys_insert simp del: set_map)
  then show ?thesis
    by (force simp: btree_set_of_list_def btree_of_list_def image_iff)
qed

lemma sorted_btree_set_of_list: "sorted_wrt (<) (btree_set_of_list ks)"
  using btree_wf_of_list [of "map (\<lambda>k. (k, ())) ks"]
  by (simp add: btree_set_of_list_def btree_wf_def)

text \<open>Two well-formed maps with the same lookups are the same map.\<close>

lemma btree_wf_distinct: "btree_wf m \<Longrightarrow> distinct (btree_keys m)"
  by (auto simp: btree_wf_def strict_sorted_iff)

lemma btree_get_filter:
  assumes "btree_wf m"
  shows "btree_get (filter (\<lambda>e. P (snd e)) m) k = (case btree_get m k of Some v \<Rightarrow> if P v then Some v else None | None \<Rightarrow> None)"
  using assms
proof (induction m)
  case Nil
  then show ?case by simp
next
  case (Cons e m)
  then have "fst e \<notin> set (btree_keys m)" by (auto simp: btree_wf_Cons)
  then have "btree_get m (fst e) = None" by (simp add: map_of_eq_None_iff)
  with Cons show ?case by (cases e) (auto simp: btree_wf_Cons)
qed

lemma btree_get_filter_keys: "btree_get (filter (\<lambda>e. P (fst e)) m) k = (if P k then btree_get m k else None)"
  by (induction m) auto

lemma btree_ext:
  assumes "btree_wf m" and "btree_wf m'" and "btree_get m = btree_get m'"
  shows "m = m'"
proof -
  have d: "distinct (btree_keys m)" "distinct (btree_keys m')"
    using assms btree_wf_distinct by auto
  then have "set m = set m'"
    using assms(3) by (metis map_of_inject_set)
  moreover have "sorted (btree_keys m)" "sorted (btree_keys m')"
    using assms by (auto simp: btree_wf_def strict_sorted_iff)
  ultimately show ?thesis
    using d by (metis map_sorted_distinct_set_unique distinct_map inj_on_Un sup.idem)
qed

subsection \<open>Chains: sequences whose ends meet\<close>

text \<open>
  \<open>chained l u x bs y\<close>: the elements of \<open>bs\<close>, read as intervals from \<open>l b\<close> to \<open>u b\<close>,
  follow one another without gap or overlap from \<open>x\<close> to \<open>y\<close>.
\<close>

fun chained :: "('b \<Rightarrow> 'a) \<Rightarrow> ('b \<Rightarrow> 'a) \<Rightarrow> 'a \<Rightarrow> 'b list \<Rightarrow> 'a \<Rightarrow> bool" where
  "chained l u x [] y \<longleftrightarrow> x = y"
| "chained l u x (b # bs) y \<longleftrightarrow> l b = x \<and> chained l u (u b) bs y"

lemma chained_append:
  "chained l u x (as @ bs) z \<longleftrightarrow> (\<exists>y. chained l u x as y \<and> chained l u y bs z)"
  by (induction as arbitrary: x) auto

lemma chained_ends:
  "chained l u x bs y \<Longrightarrow> bs \<noteq> [] \<Longrightarrow> l (hd bs) = x \<and> u (last bs) = y"
  by (induction bs arbitrary: x) (auto split: if_splits)

lemma chained_unique: "chained l u x bs y \<Longrightarrow> chained l u x bs y' \<Longrightarrow> y = y'"
  by (induction bs arbitrary: x) auto

lemma chained_replace:
  "\<lbrakk>chained l u x (as @ bs @ cs) z; bs \<noteq> []; l b = l (hd bs); u b = u (last bs)\<rbrakk>
    \<Longrightarrow> chained l u x (as @ b # cs) z"
  by (auto simp: chained_append dest: chained_ends)

lemma chained_le:
  fixes x :: "'a :: order"
  assumes "chained l u x bs y" and "\<forall>b \<in> set bs. l b \<le> u b"
  shows "x \<le> y"
  using assms by (induction bs arbitrary: x) (auto intro: order_trans)

lemma chained_less:
  fixes x :: "'a :: order"
  assumes "chained l u x bs y" and "\<forall>b \<in> set bs. l b < u b" and "bs \<noteq> []"
  shows "x < y"
proof (cases bs)
  case Nil
  with assms show ?thesis by simp
next
  case (Cons b bs')
  then have "u b \<le> y"
    using assms by (intro chained_le [of l u _ bs']) (auto intro: less_imp_le)
  with Cons assms show ?thesis by (auto intro: less_le_trans)
qed

subsection \<open>Lists updated by index\<close>

definition remove_at :: "nat \<Rightarrow> 'a list \<Rightarrow> 'a list" where
  "remove_at i xs = take i xs @ drop (Suc i) xs"

lemma length_remove_at [simp]: "i < length xs \<Longrightarrow> length (remove_at i xs) = length xs - 1"
  by (simp add: remove_at_def)

lemma list_split_at: "i < length xs \<Longrightarrow> xs = take i xs @ xs ! i # drop (Suc i) xs"
  by (simp add: id_take_nth_drop)

subsection \<open>Frontiers over \<open>u64\<close>\<close>

text \<open>
  An antichain over the totally ordered \<open>u64\<close>, the timestamp type Materialize instantiates
  persist with, is one time or empty. The theorems hold for every frontier type; this
  instance is the one the examples evaluate.
\<close>

datatype ts_frontier = At u64 | Closed

instantiation ts_frontier :: bounded_lattice
begin

fun less_eq_ts_frontier :: "ts_frontier \<Rightarrow> ts_frontier \<Rightarrow> bool" where
  "less_eq_ts_frontier (At a) (At b) \<longleftrightarrow> a \<le> b"
| "less_eq_ts_frontier (At a) Closed \<longleftrightarrow> True"
| "less_eq_ts_frontier Closed (At b) \<longleftrightarrow> False"
| "less_eq_ts_frontier Closed Closed \<longleftrightarrow> True"

definition less_ts_frontier :: "ts_frontier \<Rightarrow> ts_frontier \<Rightarrow> bool" where
  "less_ts_frontier a b \<longleftrightarrow> a \<le> b \<and> \<not> b \<le> a"

definition inf_ts_frontier :: "ts_frontier \<Rightarrow> ts_frontier \<Rightarrow> ts_frontier" where
  "inf_ts_frontier a b = (if a \<le> b then a else b)"

definition sup_ts_frontier :: "ts_frontier \<Rightarrow> ts_frontier \<Rightarrow> ts_frontier" where
  "sup_ts_frontier a b = (if a \<le> b then b else a)"

definition bot_ts_frontier :: ts_frontier where
  "bot_ts_frontier = At 0"

definition top_ts_frontier :: ts_frontier where
  "top_ts_frontier = Closed"

instance
proof
  fix x y z :: ts_frontier
  show "x < y \<longleftrightarrow> x \<le> y \<and> \<not> y \<le> x" by (simp add: less_ts_frontier_def)
  show "x \<le> x" by (cases x) auto
  show "x \<le> y \<Longrightarrow> y \<le> z \<Longrightarrow> x \<le> z" by (cases x; cases y; cases z) auto
  show "x \<le> y \<Longrightarrow> y \<le> x \<Longrightarrow> x = y" by (cases x; cases y) auto
  show "inf x y \<le> x" "inf x y \<le> y" "x \<le> y \<Longrightarrow> x \<le> z \<Longrightarrow> x \<le> inf y z"
    by (cases x; cases y; cases z; auto simp: inf_ts_frontier_def)+
  show "x \<le> sup x y" "y \<le> sup x y" "y \<le> x \<Longrightarrow> z \<le> x \<Longrightarrow> sup y z \<le> x"
    by (cases x; cases y; cases z; auto simp: sup_ts_frontier_def)+
  show "bot \<le> x" by (cases x) (auto simp: bot_ts_frontier_def)
  show "x \<le> top" by (cases x) (auto simp: top_ts_frontier_def)
qed

end

lemmas ts_frontier_simps = less_ts_frontier_def inf_ts_frontier_def sup_ts_frontier_def
  bot_ts_frontier_def top_ts_frontier_def

end
