(* ===== verification/Paths.thy ===== *)
theory Paths
  imports Prelude
begin

section \<open>Blob keys (\<open>src/src/persist-client/src/internal/paths.rs\<close>)\<close>

text \<open>
  The keys under which batches and rollups are stored: identifiers printed as a one-letter
  prefix and a UUID, the writer component of a batch key and its order, partial keys and
  the full \<open>shard/...\<close> key with its parser.

  Strings are their UTF-8 bytes (\<open>char\<close> is a byte), so slicing can hit the middle of a
  character, where Rust panics. The UUID text format belongs to the \<open>uuid\<close> crate: it is the
  parameter \<open>uuid_ops\<close>, and \<open>uuid_ok\<close> states what its documentation promises.
\<close>

subsection \<open>Identifiers\<close>

record uuid_ops =
  uuid_fmt :: "bytes \<Rightarrow> string"
  uuid_parse :: "string \<Rightarrow> bytes option"

text \<open>
  The documented behaviour of the crate that the key formats rely on: parsing the printed
  form of 16 bytes gives them back, and the printed form is ASCII without a slash.
\<close>

definition uuid_ok :: "uuid_ops \<Rightarrow> bool" where
  "uuid_ok u \<longleftrightarrow>
     (\<forall>b. length b = 16 \<longrightarrow>
        uuid_parse u (uuid_fmt u b) = Some b \<and>
        (\<forall>c \<in> set (uuid_fmt u b). c \<noteq> CHR ''/'' \<and> of_char c < (128 :: nat)))"

datatype parse_error =
  IncorrectPrefix | InvalidUuid | EmptyVersion | UnknownPrefix string | NoSlash | InvalidKey
  | InvalidSeqNo

definition strip_prefix :: "string \<Rightarrow> string \<Rightarrow> string option" where
  "strip_prefix p s = (if take (length p) s = p then Some (drop (length p) s) else None)"

definition parse_id :: "uuid_ops \<Rightarrow> string \<Rightarrow> string \<Rightarrow> parse_error + bytes" where
  "parse_id u id_prefix encoded =
     (case strip_prefix id_prefix encoded of
        None \<Rightarrow> Inl IncorrectPrefix
      | Some uuid_encoded \<Rightarrow>
          (case uuid_parse u uuid_encoded of None \<Rightarrow> Inl InvalidUuid | Some b \<Rightarrow> Inr b))"

definition fmt_PartId :: "uuid_ops \<Rightarrow> bytes \<Rightarrow> string" where
  "fmt_PartId u b = ''p'' @ uuid_fmt u b"

definition fmt_WriterId :: "uuid_ops \<Rightarrow> bytes \<Rightarrow> string" where
  "fmt_WriterId u b = ''w'' @ uuid_fmt u b"

definition fmt_RollupId :: "uuid_ops \<Rightarrow> bytes \<Rightarrow> string" where
  "fmt_RollupId u b = ''r'' @ uuid_fmt u b"

definition fmt_ShardId :: "uuid_ops \<Rightarrow> bytes \<Rightarrow> string" where
  "fmt_ShardId u b = ''s'' @ uuid_fmt u b"

definition ShardId_from_str :: "uuid_ops \<Rightarrow> string \<Rightarrow> parse_error + bytes" where
  "ShardId_from_str u s =
     (case strip_prefix ''s'' s of
        None \<Rightarrow> Inl IncorrectPrefix
      | Some uuid_encoded \<Rightarrow>
          (case uuid_parse u uuid_encoded of None \<Rightarrow> Inl InvalidUuid | Some b \<Rightarrow> Inr b))"

subsection \<open>Writer keys\<close>

datatype WriterKey = WriterKey_Id bytes | WriterKey_Version string

text \<open>The derived order: every id is smaller than every version.\<close>

instantiation WriterKey :: linorder
begin

fun less_eq_WriterKey :: "WriterKey \<Rightarrow> WriterKey \<Rightarrow> bool" where
  "less_eq_WriterKey (WriterKey_Id a) (WriterKey_Id b) = (a \<le> b)"
| "less_eq_WriterKey (WriterKey_Id a) (WriterKey_Version b) = True"
| "less_eq_WriterKey (WriterKey_Version a) (WriterKey_Id b) = False"
| "less_eq_WriterKey (WriterKey_Version a) (WriterKey_Version b) = (a \<le> b)"

definition less_WriterKey :: "WriterKey \<Rightarrow> WriterKey \<Rightarrow> bool" where
  "less_WriterKey a b = (a \<le> b \<and> \<not> b \<le> a)"

instance
proof
  fix x y z :: WriterKey
  show "(x < y) = (x \<le> y \<and> \<not> y \<le> x)" by (simp add: less_WriterKey_def)
  show "x \<le> x" by (cases x) auto
  show "x \<le> y \<Longrightarrow> y \<le> z \<Longrightarrow> x \<le> z" by (cases x; cases y; cases z) auto
  show "x \<le> y \<Longrightarrow> y \<le> x \<Longrightarrow> x = y" by (cases x; cases y) auto
  show "x \<le> y \<or> y \<le> x" by (cases x; cases y) auto
qed

end

record semver =
  major :: nat
  minor :: nat
  patch :: nat

definition digit_char :: "nat \<Rightarrow> char" where
  "digit_char d = char_of (48 + d)"

fun fmt_nat :: "nat \<Rightarrow> string" where
  "fmt_nat n = (if n < 10 then [digit_char n] else fmt_nat (n div 10) @ [digit_char (n mod 10)])"

declare fmt_nat.simps [simp del]

text \<open>\<open>format!("{:0w$}")\<close>.\<close>

definition fmt_nat_padded :: "nat \<Rightarrow> nat \<Rightarrow> string" where
  "fmt_nat_padded w n = replicate (w - length (fmt_nat n)) (CHR ''0'') @ fmt_nat n"

definition WriterKey_for_version :: "semver \<Rightarrow> WriterKey option" where
  "WriterKey_for_version v = do {
     assert (major v \<le> 99);
     assert (minor v \<le> 999);
     assert (patch v \<le> 99);
     Some (WriterKey_Version
       (fmt_nat_padded 2 (major v) @ fmt_nat_padded 3 (minor v) @ fmt_nat_padded 2 (patch v)))
   }"

text \<open>
  \<open>&s[..1]\<close> panics when byte 1 is inside a character, that is when it is a UTF-8
  continuation byte.
\<close>

definition is_char_boundary1 :: "string \<Rightarrow> bool" where
  "is_char_boundary1 s \<longleftrightarrow>
     length s = 1 \<or> (1 < length s \<and> \<not> (128 \<le> (of_char (s ! 1) :: nat) \<and> of_char (s ! 1) < (192 :: nat)))"

definition WriterKey_from_str :: "uuid_ops \<Rightarrow> string \<Rightarrow> (parse_error + WriterKey) option" where
  "WriterKey_from_str u s =
     (if s = [] then Some (Inl EmptyVersion)
      else do {
        assert (is_char_boundary1 s);
        Some (if take 1 s = ''w'' then
                (case parse_id u ''w'' s of Inl e \<Rightarrow> Inl e | Inr b \<Rightarrow> Inr (WriterKey_Id b))
              else if take 1 s = ''n'' then Inr (WriterKey_Version (drop 1 s))
              else Inl (UnknownPrefix (take 1 s)))
      })"

fun fmt_WriterKey :: "uuid_ops \<Rightarrow> WriterKey \<Rightarrow> string" where
  "fmt_WriterKey u (WriterKey_Id b) = fmt_WriterId u b"
| "fmt_WriterKey u (WriterKey_Version s) = CHR ''n'' # s"

subsection \<open>Partial keys\<close>

text \<open>\<open>str::split_once\<close>: split at the first occurrence, which is dropped.\<close>

fun split_once :: "char \<Rightarrow> string \<Rightarrow> (string \<times> string) option" where
  "split_once c [] = None"
| "split_once c (x # xs) =
     (if x = c then Some ([], xs)
      else map_option (\<lambda>(a, b). (x # a, b)) (split_once c xs))"

definition split_batch_key ::
  "uuid_ops \<Rightarrow> string \<Rightarrow> (parse_error + WriterKey \<times> bytes) option" where
  "split_batch_key u key =
     (case split_once (CHR ''/'') key of
        None \<Rightarrow> Some (Inl NoSlash)
      | Some (writer_key, part_id) \<Rightarrow> do {
          w \<leftarrow> WriterKey_from_str u writer_key;
          Some (case w of
                  Inl e \<Rightarrow> Inl e
                | Inr wk \<Rightarrow>
                    (case parse_id u ''p'' part_id of Inl e \<Rightarrow> Inl e | Inr p \<Rightarrow> Inr (wk, p)))
        })"

definition PartialBatchKey_new :: "uuid_ops \<Rightarrow> WriterKey \<Rightarrow> bytes \<Rightarrow> string" where
  "PartialBatchKey_new u version part_id = fmt_WriterKey u version @ ''/'' @ fmt_PartId u part_id"

definition PartialBatchKey_split ::
  "uuid_ops \<Rightarrow> string \<Rightarrow> (WriterKey \<times> bytes) option option" where
  "PartialBatchKey_split u key = do {
     r \<leftarrow> split_batch_key u key;
     Some (case r of Inl _ \<Rightarrow> None | Inr x \<Rightarrow> Some x)
   }"

definition PartialBatchKey_complete :: "uuid_ops \<Rightarrow> string \<Rightarrow> bytes \<Rightarrow> string" where
  "PartialBatchKey_complete u key shard_id = fmt_ShardId u shard_id @ ''/'' @ key"

definition fmt_SeqNo :: "u64 \<Rightarrow> string" where
  "fmt_SeqNo s = ''v'' @ fmt_nat (unat s)"

definition PartialRollupKey_new :: "uuid_ops \<Rightarrow> u64 \<Rightarrow> bytes \<Rightarrow> string" where
  "PartialRollupKey_new u seqno rollup_id = fmt_SeqNo seqno @ ''/'' @ fmt_RollupId u rollup_id"

definition PartialRollupKey_complete :: "uuid_ops \<Rightarrow> string \<Rightarrow> bytes \<Rightarrow> string" where
  "PartialRollupKey_complete u key shard_id = fmt_ShardId u shard_id @ ''/'' @ key"

subsection \<open>The full key and its parser\<close>

definition digit_val :: "char \<Rightarrow> nat option" where
  "digit_val c = (let n = of_char c :: nat in if 48 \<le> n \<and> n \<le> 57 then Some (n - 48) else None)"

fun parse_digits :: "nat \<Rightarrow> string \<Rightarrow> nat option" where
  "parse_digits acc [] = Some acc"
| "parse_digits acc (c # cs) =
     (case digit_val c of
        None \<Rightarrow> None
      | Some d \<Rightarrow> if acc * 10 + d < 2 ^ 64 then parse_digits (acc * 10 + d) cs else None)"

text \<open>\<open>u64::from_str\<close>: an optional plus sign and at least one digit.\<close>

definition u64_from_str :: "string \<Rightarrow> u64 option" where
  "u64_from_str s =
     (let ds = (if take 1 s = ''+'' then drop 1 s else s)
      in if ds = [] then None else map_option of_nat (parse_digits 0 ds))"

definition SeqNo_from_str :: "string \<Rightarrow> parse_error + u64" where
  "SeqNo_from_str encoded =
     (case strip_prefix ''v'' encoded of
        None \<Rightarrow> Inl IncorrectPrefix
      | Some e \<Rightarrow> (case u64_from_str e of None \<Rightarrow> Inl InvalidSeqNo | Some n \<Rightarrow> Inr n))"

datatype PartialBlobKey = Blob_Batch WriterKey bytes | Blob_Rollup u64 bytes

definition BlobKey_parse_ids ::
  "uuid_ops \<Rightarrow> string \<Rightarrow> (parse_error + bytes \<times> PartialBlobKey) option" where
  "BlobKey_parse_ids u key =
     (case split_once (CHR ''/'') key of
        None \<Rightarrow> Some (Inl InvalidKey)
      | Some (shard, blob) \<Rightarrow>
          (case ShardId_from_str u shard of
             Inl e \<Rightarrow> Some (Inl e)
           | Inr shard_id \<Rightarrow>
               if take 1 blob = ''w'' \<or> take 1 blob = ''n'' then do {
                 r \<leftarrow> split_batch_key u blob;
                 Some (case r of
                         Inl e \<Rightarrow> Inl e
                       | Inr (writer, part) \<Rightarrow> Inr (shard_id, Blob_Batch writer part))
               }
               else
                 (case split_once (CHR ''/'') blob of
                    None \<Rightarrow> Some (Inl InvalidKey)
                  | Some (seqno, rollup) \<Rightarrow>
                      Some (case SeqNo_from_str seqno of
                              Inl e \<Rightarrow> Inl e
                            | Inr n \<Rightarrow>
                                (case parse_id u ''r'' rollup of
                                   Inl e \<Rightarrow> Inl e
                                 | Inr r \<Rightarrow> Inr (shard_id, Blob_Rollup n r))))))"

subsection \<open>Round trips\<close>

lemma strip_prefix_append [simp]: "strip_prefix p (p @ s) = Some s"
  by (simp add: strip_prefix_def)

lemma strip_prefix_Cons [simp]: "strip_prefix [c] (c # s) = Some s"
  by (simp add: strip_prefix_def)

lemma split_once_append: "c \<notin> set a \<Longrightarrow> split_once c (a @ c # b) = Some (a, b)"
  by (induction a) auto

lemma uuid_okD:
  assumes "uuid_ok u" and "length b = 16"
  shows "uuid_parse u (uuid_fmt u b) = Some b"
    and "CHR ''/'' \<notin> set (uuid_fmt u b)"
    and "\<forall>c \<in> set (uuid_fmt u b). of_char c < (128 :: nat)"
  using assms by (auto simp: uuid_ok_def)

lemma parse_id_Cons [simp]:
  "uuid_ok u \<Longrightarrow> length b = 16 \<Longrightarrow> parse_id u [c] (c # uuid_fmt u b) = Inr b"
  by (simp add: parse_id_def uuid_okD)

text \<open>
  The writer keys that round-trip: an id of 16 bytes, or a version without a slash that is
  a UTF-8 string (its first byte starts a character).
\<close>

fun WriterKey_wf :: "WriterKey \<Rightarrow> bool" where
  "WriterKey_wf (WriterKey_Id b) \<longleftrightarrow> length b = 16"
| "WriterKey_wf (WriterKey_Version s) \<longleftrightarrow>
     CHR ''/'' \<notin> set s \<and> is_char_boundary1 (CHR ''n'' # s)"

lemma char_boundary_after_ascii:
  assumes "\<forall>c \<in> set s. of_char c < (128 :: nat)"
  shows "is_char_boundary1 (c # s)"
  using assms by (cases s) (auto simp: is_char_boundary1_def)

lemma WriterKey_roundtrip:
  assumes "uuid_ok u" and "WriterKey_wf wk"
  shows "WriterKey_from_str u (fmt_WriterKey u wk) = Some (Inr wk)"
  using assms
  by (cases wk)
    (auto simp: WriterKey_from_str_def fmt_WriterId_def uuid_okD char_boundary_after_ascii)

lemma fmt_WriterKey_no_slash:
  assumes "uuid_ok u" and "WriterKey_wf wk"
  shows "CHR ''/'' \<notin> set (fmt_WriterKey u wk)"
  using assms by (cases wk) (auto simp: fmt_WriterId_def uuid_okD)

lemma split_batch_key_new:
  assumes "uuid_ok u" and "WriterKey_wf wk" and "length p = 16"
  shows "split_batch_key u (PartialBatchKey_new u wk p) = Some (Inr (wk, p))"
  using assms
  by (simp add: split_batch_key_def PartialBatchKey_new_def fmt_PartId_def split_once_append
      fmt_WriterKey_no_slash WriterKey_roundtrip)

lemma digit_val_digit_char [simp]: "d < 10 \<Longrightarrow> digit_val (digit_char d) = Some d"
  by (simp add: digit_val_def digit_char_def of_char_of take_bit_eq_mod)

lemma parse_digits_append:
  "parse_digits acc (xs @ ys) = Option.bind (parse_digits acc xs) (\<lambda>a. parse_digits a ys)"
  by (induction acc xs rule: parse_digits.induct) (auto split: option.splits)

lemma parse_digits_fmt_nat: "n < 2 ^ 64 \<Longrightarrow> parse_digits 0 (fmt_nat n) = Some n"
proof (induction n rule: fmt_nat.induct)
  case (1 n)
  show ?case
  proof (cases "n < 10")
    case True
    then show ?thesis by (simp add: fmt_nat.simps [of n])
  next
    case False
    with 1 have "parse_digits 0 (fmt_nat (n div 10)) = Some (n div 10)" by simp
    with False "1.prems" show ?thesis
      by (simp add: fmt_nat.simps [of n] parse_digits_append)
  qed
qed

lemma fmt_nat_digits: "c \<in> set (fmt_nat n) \<Longrightarrow> \<exists>d < 10. c = digit_char d"
proof (induction n rule: fmt_nat.induct)
  case (1 n)
  show ?case
  proof (cases "n < 10")
    case True
    with 1 show ?thesis by (auto simp: fmt_nat.simps [of n])
  next
    case False
    then have "c \<in> set (fmt_nat (n div 10)) \<or> c = digit_char (n mod 10)"
      using "1.prems" by (auto simp: fmt_nat.simps [of n])
    moreover have "n mod 10 < 10" by simp
    ultimately show ?thesis using "1.IH" [OF False] by blast
  qed
qed

lemma digit_char_code: "d < 10 \<Longrightarrow> of_char (digit_char d) = (48 + d :: nat)"
  by (simp add: digit_char_def of_char_of take_bit_eq_mod)

lemma fmt_nat_no_slash: "CHR ''/'' \<notin> set (fmt_nat n)"
proof
  assume "CHR ''/'' \<in> set (fmt_nat n)"
  then obtain d where "d < 10" "CHR ''/'' = digit_char d" using fmt_nat_digits by blast
  then have "(of_char CHR ''/'' :: nat) = 48 + d" using digit_char_code by simp
  then show False by simp
qed

lemma fmt_nat_hd: "fmt_nat n \<noteq> []" "take 1 (fmt_nat n) \<noteq> ''+''"
proof -
  show ne: "fmt_nat n \<noteq> []" by (simp add: fmt_nat.simps [of n])
  then obtain d where "d < 10" "hd (fmt_nat n) = digit_char d"
    using fmt_nat_digits by (meson hd_in_set)
  then have "(of_char (hd (fmt_nat n)) :: nat) \<noteq> of_char CHR ''+''"
    using digit_char_code by simp
  with ne show "take 1 (fmt_nat n) \<noteq> ''+''" by (cases "fmt_nat n") auto
qed

lemma SeqNo_roundtrip: "SeqNo_from_str (fmt_SeqNo n) = Inr n"
proof -
  have "unat n < 2 ^ 64" using unsigned_less [of n] by simp
  then show ?thesis
    using fmt_nat_hd [of "unat n"]
    by (simp add: SeqNo_from_str_def fmt_SeqNo_def u64_from_str_def Let_def parse_digits_fmt_nat)
qed

subsection \<open>The order of version keys\<close>

lemma append_less_append:
  fixes a b x y :: "'a :: linorder list"
  assumes "length a = length b"
  shows "a @ x < b @ y \<longleftrightarrow> a < b \<or> a = b \<and> x < y"
  using assms by (induction a b rule: list_induct2) auto

fun fixed_digits :: "nat \<Rightarrow> nat \<Rightarrow> string" where
  "fixed_digits 0 n = []"
| "fixed_digits (Suc w) n = fixed_digits w (n div 10) @ [digit_char (n mod 10)]"

lemma length_fixed_digits [simp]: "length (fixed_digits w n) = w"
  by (induction w arbitrary: n) auto

lemma fixed_digits_0: "fixed_digits w 0 = replicate w (CHR ''0'')"
proof (induction w)
  case 0
  then show ?case by simp
next
  case (Suc w)
  have "digit_char 0 = CHR ''0''" by code_simp
  with Suc show ?case by (simp add: replicate_append_same)
qed

lemma fmt_nat_padded_fixed:
  "n < 10 ^ w \<Longrightarrow> 0 < w \<Longrightarrow> length (fmt_nat n) \<le> w \<and> fmt_nat_padded w n = fixed_digits w n"
proof (induction w arbitrary: n)
  case 0
  then show ?case by simp
next
  case (Suc w)
  show ?case
  proof (cases "n < 10")
    case True
    then show ?thesis
      by (simp add: fmt_nat_padded_def fmt_nat.simps [of n] fixed_digits_0)
  next
    case False
    then have "n div 10 < 10 ^ w" "0 < w" using Suc.prems by (auto intro!: Nat.gr0I)
    then show ?thesis
      using Suc.IH [of "n div 10"] False by (simp add: fmt_nat_padded_def fmt_nat.simps [of n])
  qed
qed

lemma digit_char_less: "a < 10 \<Longrightarrow> b < 10 \<Longrightarrow> digit_char a < digit_char b \<longleftrightarrow> a < b"
  by (simp add: less_char_def digit_char_code)

lemma digit_char_inj: "a < 10 \<Longrightarrow> b < 10 \<Longrightarrow> digit_char a = digit_char b \<longleftrightarrow> a = b"
  by (metis add_left_cancel digit_char_code)

lemma fixed_digits_order:
  "a < 10 ^ w \<Longrightarrow> b < 10 ^ w \<Longrightarrow>
     (fixed_digits w a < fixed_digits w b \<longleftrightarrow> a < b) \<and> (fixed_digits w a = fixed_digits w b \<longleftrightarrow> a = b)"
proof (induction w arbitrary: a b)
  case 0
  then show ?case by simp
next
  case (Suc w)
  have "a div 10 < 10 ^ w" "b div 10 < 10 ^ w" using Suc.prems by auto
  note IH = Suc.IH [OF this]
  have "a = a div 10 * 10 + a mod 10" "b = b div 10 * 10 + b mod 10" "a mod 10 < 10" "b mod 10 < 10"
    by simp_all
  then have "a < b \<longleftrightarrow> a div 10 < b div 10 \<or> a div 10 = b div 10 \<and> a mod 10 < b mod 10"
    by linarith
  moreover have "a = b \<longleftrightarrow> a div 10 = b div 10 \<and> a mod 10 = b mod 10"
    by (metis div_mult_mod_eq)
  ultimately show ?case
    using IH by (simp add: append_less_append digit_char_less digit_char_inj)
qed

definition semver_less :: "semver \<Rightarrow> semver \<Rightarrow> bool" where
  "semver_less v w \<longleftrightarrow>
     major v < major w \<or>
     major v = major w \<and> (minor v < minor w \<or> minor v = minor w \<and> patch v < patch w)"



subsection \<open>A concrete text format for identifiers\<close>

text \<open>Two letters from \<open>a\<close> to \<open>p\<close> for each byte: an instance of \<open>uuid_ok\<close> for the examples.\<close>

definition nibble_char :: "nat \<Rightarrow> char" where
  "nibble_char n = char_of (97 + n)"

definition char_nibble :: "char \<Rightarrow> nat" where
  "char_nibble c = of_char c - 97"

fun letters_parse :: "string \<Rightarrow> bytes option" where
  "letters_parse [] = Some []"
| "letters_parse [c] = None"
| "letters_parse (c # d # s) = map_option ((#) (of_nat (char_nibble c * 16 + char_nibble d))) (letters_parse s)"

definition letters_fmt :: "bytes \<Rightarrow> string" where
  "letters_fmt b = concat (map (\<lambda>w. [nibble_char (unat w div 16), nibble_char (unat w mod 16)]) b)"

definition letters_uuid :: uuid_ops where
  "letters_uuid = \<lparr>uuid_fmt = letters_fmt, uuid_parse = letters_parse\<rparr>"

lemma char_nibble_char: "n < 16 \<Longrightarrow> char_nibble (nibble_char n) = n"
  by (simp add: char_nibble_def nibble_char_def)

lemma byte_nibbles: "unat (w :: u8) div 16 < 16" "unat w mod 16 < 16"
  using unsigned_less [of w, where 'a = nat] by simp_all

lemma letters_roundtrip: "letters_parse (letters_fmt b) = Some b"
proof (induction b)
  case Nil
  then show ?case by (simp add: letters_fmt_def)
next
  case (Cons w b)
  then show ?case by (simp add: letters_fmt_def char_nibble_char byte_nibbles)
qed

lemma uuid_ok_letters: "uuid_ok letters_uuid"
proof -
  have "c \<noteq> CHR ''/'' \<and> of_char c < (128 :: nat)" if "c \<in> set (letters_fmt b)" for c b
  proof -
    from that have "\<exists>n < 16. c = nibble_char n"
      unfolding letters_fmt_def using byte_nibbles by (auto simp del: mod_less_divisor)
    then obtain n where n: "n < 16" "c = nibble_char n" by blast
    have "of_char (CHR ''/'') = (47 :: nat)" by code_simp
    with n show ?thesis by (auto simp: nibble_char_def dest: arg_cong [where f = "of_char :: char \<Rightarrow> nat"])
  qed
  then show ?thesis by (simp add: uuid_ok_def letters_uuid_def letters_roundtrip)
qed

subsection \<open>Properties\<close>

text \<open>
  C25: The full key of a batch part and the full key of a rollup are parsed back to the ids
  they were made of, for every identifier format that satisfies the documented contract.
\<close>

theorem blob_key_roundtrip:
  assumes "uuid_ok u" and "length shard = 16" and "length part = 16" and "WriterKey_wf wk"
  shows "BlobKey_parse_ids u (PartialBatchKey_complete u (PartialBatchKey_new u wk part) shard) =
      Some (Inr (shard, Blob_Batch wk part)) \<and>
    BlobKey_parse_ids u (PartialRollupKey_complete u (PartialRollupKey_new u seqno part) shard) =
      Some (Inr (shard, Blob_Rollup seqno part))"
proof -
  have shard: "CHR ''/'' \<notin> set (fmt_ShardId u shard)"
    and parse: "ShardId_from_str u (fmt_ShardId u shard) = Inr shard"
    using assms by (simp_all add: fmt_ShardId_def ShardId_from_str_def uuid_okD)
  have first: "take 1 (PartialBatchKey_new u wk part) \<in> {''w'', ''n''}"
    by (cases wk) (simp_all add: PartialBatchKey_new_def fmt_WriterId_def)
  have "CHR ''/'' \<notin> set (fmt_SeqNo seqno)"
    by (simp add: fmt_SeqNo_def fmt_nat_no_slash)
  then have "split_once (CHR ''/'') (PartialRollupKey_new u seqno part) = Some (fmt_SeqNo seqno, fmt_RollupId u part)"
    by (simp add: PartialRollupKey_new_def split_once_append)
  moreover have "take 1 (PartialRollupKey_new u seqno part) = ''v''"
    by (simp add: PartialRollupKey_new_def fmt_SeqNo_def)
  ultimately show ?thesis
    using first assms shard parse split_batch_key_new [OF assms(1,4,3)]
    by (auto simp: BlobKey_parse_ids_def PartialBatchKey_complete_def PartialRollupKey_complete_def
        split_once_append SeqNo_roundtrip fmt_RollupId_def)
qed

theorem blob_key_roundtrip_witness:
  "let u = letters_uuid; b = replicate 16 7; wk = WriterKey_Version ''0001000''
   in BlobKey_parse_ids u (PartialBatchKey_complete u (PartialBatchKey_new u wk b) b) =
        Some (Inr (b, Blob_Batch wk b)) \<and>
      BlobKey_parse_ids u (PartialRollupKey_complete u (PartialRollupKey_new u 9 b) b) =
        Some (Inr (b, Blob_Rollup 9 b))"
proof -
  have "WriterKey_wf (WriterKey_Version ''0001000'')" by code_simp
  then show ?thesis
    unfolding Let_def by (intro blob_key_roundtrip uuid_ok_letters) simp_all
qed


end
