(* ===== verification/Batch.thy ===== *)
theory Batch
  imports Paths
begin

section \<open>Hollow batches (\<open>src/src/persist-client/src/internal/state.rs\<close>)\<close>

text \<open>
  The metadata of a batch of updates whose contents live in blob storage: parts, runs of
  parts and their metadata, and the batch with its description.

  \<open>Description\<close> (differential-dataflow) is used by the sources as the triple of its three
  frontiers and modelled as that record. Protobuf decoding, hashing and the diff type are code
  the model is generic in: they are the fields of \<open>ext\<close>, a parameter of the definitions that
  use them.
\<close>

record 'd ext =
  ext_uuid :: uuid_ops
  ext_decode_diff :: "bytes \<Rightarrow> 'd"
  ext_inline_diffs :: "bytes \<Rightarrow> 'd option"
  ext_encode_bool :: "bool \<Rightarrow> bytes"
  ext_decode_bool :: "bytes \<Rightarrow> bool option"
  ext_hashed :: "bytes \<Rightarrow> u64"

record 'f Description =
  d_lower :: 'f
  d_upper :: 'f
  d_since :: 'f

abbreviation Description_new :: "'f \<Rightarrow> 'f \<Rightarrow> 'f \<Rightarrow> 'f Description" where
  "Description_new l u s \<equiv> \<lparr>d_lower = l, d_upper = u, d_since = s\<rparr>"

subsection \<open>Parts\<close>

datatype BatchColumnarFormat = Row | Both nat | Structured

type_synonym MetadataMap = "(string, bytes) btree_map"

record 'f HollowBatchPart =
  hbp_key :: string
  hbp_meta :: MetadataMap
  hbp_encoded_size_bytes :: nat
  hbp_key_lower :: bytes
  hbp_structured_key_lower :: "bytes option"
  hbp_stats :: "bytes option"
  hbp_ts_rewrite :: "'f option"
  hbp_diffs_sum :: "bytes option"
  hbp_format :: "BatchColumnarFormat option"
  hbp_schema_id :: "nat option"
  hbp_deprecated_schema_id :: "nat option"

datatype 'f BatchPart =
  Hollow "'f HollowBatchPart"
| Inline (inline_updates: bytes) (inline_ts_rewrite: "'f option") (inline_schema_id: "nat option")
    (inline_deprecated_schema_id: "nat option")

fun BatchPart_hollow_bytes :: "'f BatchPart \<Rightarrow> nat" where
  "BatchPart_hollow_bytes (Hollow x) = hbp_encoded_size_bytes x"
| "BatchPart_hollow_bytes (Inline _ _ _ _) = 0"

fun BatchPart_is_inline :: "'f BatchPart \<Rightarrow> bool" where
  "BatchPart_is_inline (Hollow _) = False"
| "BatchPart_is_inline (Inline _ _ _ _) = True"

fun BatchPart_inline_bytes :: "'f BatchPart \<Rightarrow> nat" where
  "BatchPart_inline_bytes (Hollow _) = 0"
| "BatchPart_inline_bytes (Inline updates _ _ _) = length updates"

fun BatchPart_writer_key :: "'d ext \<Rightarrow> 'f BatchPart \<Rightarrow> WriterKey option option" where
  "BatchPart_writer_key e (Hollow x) = do {
     s \<leftarrow> PartialBatchKey_split (ext_uuid e) (hbp_key x);
     Some (map_option fst s)
   }"
| "BatchPart_writer_key e (Inline _ _ _ _) = Some None"

fun BatchPart_encoded_size_bytes :: "'f BatchPart \<Rightarrow> nat" where
  "BatchPart_encoded_size_bytes (Hollow x) = hbp_encoded_size_bytes x"
| "BatchPart_encoded_size_bytes (Inline updates _ _ _) = length updates"

fun BatchPart_printable_name :: "'f BatchPart \<Rightarrow> string" where
  "BatchPart_printable_name (Hollow x) = hbp_key x"
| "BatchPart_printable_name (Inline _ _ _ _) = ''<inline>''"

fun BatchPart_stats :: "'f BatchPart \<Rightarrow> bytes option" where
  "BatchPart_stats (Hollow x) = hbp_stats x"
| "BatchPart_stats (Inline _ _ _ _) = None"

fun BatchPart_key_lower :: "'f BatchPart \<Rightarrow> bytes" where
  "BatchPart_key_lower (Hollow x) = hbp_key_lower x"
| "BatchPart_key_lower (Inline _ _ _ _) = []"

fun BatchPart_ts_rewrite :: "'f BatchPart \<Rightarrow> 'f option" where
  "BatchPart_ts_rewrite (Hollow x) = hbp_ts_rewrite x"
| "BatchPart_ts_rewrite (Inline _ ts_rewrite _ _) = ts_rewrite"

fun BatchPart_schema_id :: "'f BatchPart \<Rightarrow> nat option" where
  "BatchPart_schema_id (Hollow x) = hbp_schema_id x"
| "BatchPart_schema_id (Inline _ _ schema_id _) = schema_id"

fun BatchPart_deprecated_schema_id :: "'f BatchPart \<Rightarrow> nat option" where
  "BatchPart_deprecated_schema_id (Hollow x) = hbp_deprecated_schema_id x"
| "BatchPart_deprecated_schema_id (Inline _ _ _ d) = d"

text \<open>\<open>diffs_sum\<close> panics when an inline part does not decode.\<close>

fun BatchPart_diffs_sum :: "'d ext \<Rightarrow> 'f BatchPart \<Rightarrow> 'd option option" where
  "BatchPart_diffs_sum e (Hollow x) = Some (map_option (ext_decode_diff e) (hbp_diffs_sum x))"
| "BatchPart_diffs_sum e (Inline updates _ _ _) = do {
     d \<leftarrow> ext_inline_diffs e updates;
     Some (Some d)
   }"

record HollowRunRef =
  hrr_key :: string
  hrr_hollow_bytes :: nat
  hrr_max_part_bytes :: nat
  hrr_key_lower :: bytes
  hrr_structured_key_lower :: "bytes option"
  hrr_diffs_sum :: "bytes option"

definition HollowRunRef_writer_key :: "'d ext \<Rightarrow> HollowRunRef \<Rightarrow> WriterKey option option" where
  "HollowRunRef_writer_key e r = do {
     s \<leftarrow> PartialBatchKey_split (ext_uuid e) (hrr_key r);
     Some (map_option fst s)
   }"

datatype 'f RunPart = Single "'f BatchPart" | Many HollowRunRef

fun RunPart_hollow_bytes :: "'f RunPart \<Rightarrow> nat" where
  "RunPart_hollow_bytes (Single p) = BatchPart_hollow_bytes p"
| "RunPart_hollow_bytes (Many r) = hrr_hollow_bytes r"

fun RunPart_is_inline :: "'f RunPart \<Rightarrow> bool" where
  "RunPart_is_inline (Single p) = BatchPart_is_inline p"
| "RunPart_is_inline (Many _) = False"

fun RunPart_inline_bytes :: "'f RunPart \<Rightarrow> nat" where
  "RunPart_inline_bytes (Single p) = BatchPart_inline_bytes p"
| "RunPart_inline_bytes (Many _) = 0"

fun RunPart_max_part_bytes :: "'f RunPart \<Rightarrow> nat" where
  "RunPart_max_part_bytes (Single p) = BatchPart_encoded_size_bytes p"
| "RunPart_max_part_bytes (Many r) = hrr_max_part_bytes r"

fun RunPart_writer_key :: "'d ext \<Rightarrow> 'f RunPart \<Rightarrow> WriterKey option option" where
  "RunPart_writer_key e (Single p) = BatchPart_writer_key e p"
| "RunPart_writer_key e (Many r) = HollowRunRef_writer_key e r"

fun RunPart_encoded_size_bytes :: "'f RunPart \<Rightarrow> nat" where
  "RunPart_encoded_size_bytes (Single p) = BatchPart_encoded_size_bytes p"
| "RunPart_encoded_size_bytes (Many r) = hrr_hollow_bytes r"

fun RunPart_schema_id :: "'f RunPart \<Rightarrow> nat option" where
  "RunPart_schema_id (Single p) = BatchPart_schema_id p"
| "RunPart_schema_id (Many _) = None"

fun RunPart_printable_name :: "'f RunPart \<Rightarrow> string" where
  "RunPart_printable_name (Single p) = BatchPart_printable_name p"
| "RunPart_printable_name (Many r) = hrr_key r"

fun RunPart_stats :: "'f RunPart \<Rightarrow> bytes option" where
  "RunPart_stats (Single p) = BatchPart_stats p"
| "RunPart_stats (Many _) = None"

fun RunPart_key_lower :: "'f RunPart \<Rightarrow> bytes" where
  "RunPart_key_lower (Single p) = BatchPart_key_lower p"
| "RunPart_key_lower (Many r) = hrr_key_lower r"

fun RunPart_ts_rewrite :: "'f RunPart \<Rightarrow> 'f option" where
  "RunPart_ts_rewrite (Single p) = BatchPart_ts_rewrite p"
| "RunPart_ts_rewrite (Many _) = None"

fun RunPart_diffs_sum :: "'d ext \<Rightarrow> 'f RunPart \<Rightarrow> 'd option option" where
  "RunPart_diffs_sum e (Single p) = BatchPart_diffs_sum e p"
| "RunPart_diffs_sum e (Many r) = Some (map_option (ext_decode_diff e) (hrr_diffs_sum r))"

subsection \<open>Runs and batches\<close>

datatype RunOrder = Unordered | Codec | StructuredOrder

type_synonym RunId = bytes

record RunMeta =
  rm_order :: "RunOrder option"
  rm_schema :: "nat option"
  rm_deprecated_schema :: "nat option"
  rm_id :: "RunId option"
  rm_len :: "nat option"
  rm_meta :: MetadataMap

definition RunMeta_default :: RunMeta where
  "RunMeta_default =
     \<lparr>rm_order = None, rm_schema = None, rm_deprecated_schema = None, rm_id = None, rm_len = None,
      rm_meta = []\<rparr>"

definition RUN_META_BOUNDS_TRUNCATED :: string where
  "RUN_META_BOUNDS_TRUNCATED = ''truncated''"

text \<open>\<open>MetadataMap::get\<close> gives nothing for a value that does not decode.\<close>

definition bounds_truncated :: "'d ext \<Rightarrow> RunMeta \<Rightarrow> bool" where
  "bounds_truncated e m =
     (case btree_get (rm_meta m) RUN_META_BOUNDS_TRUNCATED of
        None \<Rightarrow> False
      | Some b \<Rightarrow> (case ext_decode_bool e b of None \<Rightarrow> False | Some v \<Rightarrow> v))"

definition set_bounds_truncated :: "'d ext \<Rightarrow> RunMeta \<Rightarrow> RunMeta" where
  "set_bounds_truncated e m =
     m\<lparr>rm_meta := btree_insert RUN_META_BOUNDS_TRUNCATED (ext_encode_bool e True) (rm_meta m)\<rparr>"

record 'f HollowBatch =
  hb_desc :: "'f Description"
  hb_len :: nat
  hb_parts :: "'f RunPart list"
  hb_run_splits :: "nat list"
  hb_run_meta :: "RunMeta list"

definition HollowBatch_new ::
  "'f Description \<Rightarrow> 'f RunPart list \<Rightarrow> nat \<Rightarrow> RunMeta list \<Rightarrow> nat list \<Rightarrow> 'f HollowBatch" where
  "HollowBatch_new desc parts len run_meta run_splits =
     \<lparr>hb_desc = desc, hb_len = len, hb_parts = parts, hb_run_splits = run_splits,
      hb_run_meta = run_meta\<rparr>"

definition HollowBatch_new_run ::
  "'f Description \<Rightarrow> 'f RunPart list \<Rightarrow> nat \<Rightarrow> 'f HollowBatch" where
  "HollowBatch_new_run desc parts len =
     \<lparr>hb_desc = desc, hb_len = len, hb_parts = parts, hb_run_splits = [],
      hb_run_meta = (if parts = [] then [] else [RunMeta_default])\<rparr>"

definition HollowBatch_empty :: "'f Description \<Rightarrow> 'f HollowBatch" where
  "HollowBatch_empty desc =
     \<lparr>hb_desc = desc, hb_len = 0, hb_parts = [], hb_run_splits = [], hb_run_meta = []\<rparr>"

text \<open>
  \<open>runs\<close>: the run ends cut \<open>parts\<close> into consecutive ranges, empty ranges are dropped, the
  others are slices of \<open>parts\<close> (slicing past the end panics) zipped with the run metadata
  (\<open>zip_eq\<close> panics when the lengths differ).
\<close>

fun run_ranges :: "nat \<Rightarrow> nat list \<Rightarrow> (nat \<times> nat) list" where
  "run_ranges start [] = []"
| "run_ranges start (end # ends) = (start, end) # run_ranges end ends"

definition HollowBatch_runs :: "'f HollowBatch \<Rightarrow> (RunMeta \<times> 'f RunPart list) list option" where
  "HollowBatch_runs b =
     (let run_ends = hb_run_splits b @ [length (hb_parts b)];
          ranges = filter (\<lambda>(s, e). s < e) (run_ranges 0 run_ends)
      in do {
        assert (\<forall>(s, e) \<in> set ranges. e \<le> length (hb_parts b));
        assert (length (hb_run_meta b) = length ranges);
        Some (zip (hb_run_meta b) (map (\<lambda>(s, e). take (e - s) (drop s (hb_parts b))) ranges))
      })"

definition HollowBatch_inline_bytes :: "'f HollowBatch \<Rightarrow> nat" where
  "HollowBatch_inline_bytes b = sum_list (map RunPart_inline_bytes (hb_parts b))"

definition HollowBatch_is_empty :: "'f HollowBatch \<Rightarrow> bool" where
  "HollowBatch_is_empty b \<longleftrightarrow> hb_parts b = []"

definition HollowBatch_part_count :: "'f HollowBatch \<Rightarrow> nat" where
  "HollowBatch_part_count b = length (hb_parts b)"

definition HollowBatch_encoded_size_bytes :: "'f HollowBatch \<Rightarrow> nat" where
  "HollowBatch_encoded_size_bytes b = sum_list (map RunPart_encoded_size_bytes (hb_parts b))"

subsection \<open>Rewriting the timestamps of a batch\<close>

datatype 'f rewrite_error =
  FrontierNotBeforeUpper 'f 'f
| UpperBeforeBatchUpper 'f 'f
| FrontierBeforeBatchLower 'f 'f
| SinceNotMinimum 'f
| FrontierBeforeBatchRewrite 'f 'f

fun part_rewrite_error :: "'f :: bounded_lattice \<Rightarrow> 'f RunPart list \<Rightarrow> 'f rewrite_error option" where
  "part_rewrite_error frontier [] = None"
| "part_rewrite_error frontier (part # parts) =
     (case RunPart_ts_rewrite part of
        None \<Rightarrow> part_rewrite_error frontier parts
      | Some ts_rewrite \<Rightarrow>
          if frontier < ts_rewrite then Some (FrontierBeforeBatchRewrite frontier ts_rewrite)
          else part_rewrite_error frontier parts)"

fun part_set_ts_rewrite :: "'f \<Rightarrow> 'f RunPart \<Rightarrow> 'f RunPart option" where
  "part_set_ts_rewrite frontier (Single (Hollow part)) =
     Some (Single (Hollow (part\<lparr>hbp_ts_rewrite := Some frontier\<rparr>)))"
| "part_set_ts_rewrite frontier (Single (Inline updates ts_rewrite s d)) =
     Some (Single (Inline updates (Some frontier) s d))"
| "part_set_ts_rewrite frontier (Many runs) = panic"

fun parts_set_ts_rewrite :: "'f \<Rightarrow> 'f RunPart list \<Rightarrow> 'f RunPart list option" where
  "parts_set_ts_rewrite frontier [] = Some []"
| "parts_set_ts_rewrite frontier (p # ps) = do {
     p' \<leftarrow> part_set_ts_rewrite frontier p;
     ps' \<leftarrow> parts_set_ts_rewrite frontier ps;
     Some (p' # ps')
   }"

definition rewrite_ts ::
  "'f :: bounded_lattice HollowBatch \<Rightarrow> 'f \<Rightarrow> 'f \<Rightarrow> ('f rewrite_error + 'f HollowBatch) option" where
  "rewrite_ts b frontier new_upper =
     (if \<not> frontier < new_upper then Some (Inl (FrontierNotBeforeUpper frontier new_upper))
      else if new_upper < d_upper (hb_desc b) then
        Some (Inl (UpperBeforeBatchUpper new_upper (d_upper (hb_desc b))))
      else if frontier < d_lower (hb_desc b) then
        Some (Inl (FrontierBeforeBatchLower frontier (d_lower (hb_desc b))))
      else if d_since (hb_desc b) \<noteq> bot then Some (Inl (SinceNotMinimum (d_since (hb_desc b))))
      else
        (case part_rewrite_error frontier (hb_parts b) of
           Some err \<Rightarrow> Some (Inl err)
         | None \<Rightarrow> do {
             parts' \<leftarrow> parts_set_ts_rewrite frontier (hb_parts b);
             Some (Inr (b\<lparr>hb_desc := Description_new (d_lower (hb_desc b)) new_upper (d_since (hb_desc b)),
                          hb_parts := parts'\<rparr>))
           }))"

subsection \<open>Properties of hollow batches\<close>

text \<open>
  A batch is well formed when its run splits ascend within the parts and there is one
  metadata entry for each non-empty run.
\<close>

definition HollowBatch_wf :: "'f HollowBatch \<Rightarrow> bool" where
  "HollowBatch_wf b \<longleftrightarrow>
     sorted (hb_run_splits b @ [length (hb_parts b)]) \<and>
     length (hb_run_meta b) =
       length (filter (\<lambda>(s, e). s < e) (run_ranges 0 (hb_run_splits b @ [length (hb_parts b)])))"

lemma run_ranges_concat:
  assumes "sorted (s # ends)"
  shows "concat (map (\<lambda>(s, e). take (e - s) (drop s xs)) (filter (\<lambda>(s, e). s < e) (run_ranges s ends))) =
    take (last (s # ends) - s) (drop s xs)"
  using assms
proof (induction ends arbitrary: s)
  case Nil
  then show ?case by simp
next
  case (Cons e ends)
  then have "s \<le> e" and "sorted (e # ends)" by auto
  then have le: "e \<le> last (e # ends)" by (cases ends) (auto simp: last_in_set)
  have "take (last (e # ends) - s) (drop s xs) =
      take (e - s) (drop s xs) @ take (last (e # ends) - e) (drop e xs)"
    using \<open>s \<le> e\<close> le take_add [of "e - s" "last (e # ends) - e" "drop s xs"] by simp
  with Cons.IH [OF \<open>sorted (e # ends)\<close>] \<open>s \<le> e\<close> show ?case by auto
qed

lemma run_ranges_bounds:
  "sorted ends \<Longrightarrow> (a, b) \<in> set (run_ranges s ends) \<Longrightarrow> b \<le> last ends"
  by (induction ends arbitrary: s) (auto simp: last_in_set)

text \<open>
  C26: The runs of a well-formed batch are a partition of its parts: \<open>runs()\<close> does not panic,
  the runs in order are exactly the parts, each run comes with its own metadata entry, and no
  run is empty.
\<close>

theorem runs_partition:
  assumes "HollowBatch_wf b"
  shows "\<exists>rs. HollowBatch_runs b = Some rs \<and> concat (map snd rs) = hb_parts b \<and>
    map fst rs = hb_run_meta b \<and> (\<forall>r \<in> set rs. snd r \<noteq> [])"
proof -
  let ?n = "length (hb_parts b)" and ?ends = "hb_run_splits b @ [length (hb_parts b)]"
  let ?ranges = "filter (\<lambda>(s, e). s < e) (run_ranges 0 ?ends)"
  let ?slices = "map (\<lambda>(s, e). take (e - s) (drop s (hb_parts b))) ?ranges"
  have sorted: "sorted ?ends" and meta: "length (hb_run_meta b) = length ?ranges"
    using assms by (auto simp: HollowBatch_wf_def)
  have bound: "e \<le> ?n" if "(s, e) \<in> set ?ranges" for s e
    using run_ranges_bounds [OF sorted, of s e 0] that by simp
  let ?rs = "zip (hb_run_meta b) ?slices"
  have runs: "HollowBatch_runs b = Some ?rs"
    using meta bound by (auto simp: HollowBatch_runs_def Let_def)
  have fsts: "map fst ?rs = hb_run_meta b" and snds: "map snd ?rs = ?slices"
    using meta by simp_all
  have cat: "concat ?slices = hb_parts b"
    using run_ranges_concat [of 0 ?ends "hb_parts b"] sorted by simp
  have "snd r \<noteq> []" if "r \<in> set ?rs" for r
  proof -
    have "snd r \<in> set ?slices" using that set_zip_rightD [of "fst r" "snd r" "hb_run_meta b" ?slices] by simp
    then obtain s e where "(s, e) \<in> set ?ranges" "snd r = take (e - s) (drop s (hb_parts b))" by auto
    with bound [of s e] show ?thesis by auto
  qed
  then have "\<forall>r \<in> set ?rs. snd r \<noteq> []" ..
  with runs show ?thesis
    by (intro exI [of _ ?rs] conjI) (simp_all only: fsts snds cat)
qed

definition sample_part :: "u8 \<Rightarrow> 'f RunPart" where
  "sample_part w = Single (Inline [w] None None None)"

theorem runs_partition_witness:
  "\<exists>rs. HollowBatch_runs (HollowBatch_new (Description_new (At 0) (At 3) (At 0))
      [sample_part 1, sample_part 2, sample_part 3] 3 [RunMeta_default, RunMeta_default] [1]) = Some rs \<and>
    concat (map snd rs) = [sample_part 1, sample_part 2, sample_part 3] \<and> length rs = 2"
proof -
  let ?b = "HollowBatch_new (Description_new (At 0) (At 3) (At 0))
      [sample_part 1, sample_part 2, sample_part 3] 3 [RunMeta_default, RunMeta_default] [1]"
  have "HollowBatch_wf ?b" by (simp add: HollowBatch_wf_def HollowBatch_new_def)
  from runs_partition [OF this] obtain rs where "HollowBatch_runs ?b = Some rs"
    "concat (map snd rs) = hb_parts ?b" "map fst rs = hb_run_meta ?b" by blast
  then show ?thesis by (auto simp: HollowBatch_new_def dest: arg_cong [where f = length])
qed

text \<open>The rewrite of one part, and of all of them.\<close>

lemma parts_set_ts_rewrite_ok:
  assumes "\<forall>p \<in> set ps. \<exists>q. p = Single q"
  shows "\<exists>ps'. parts_set_ts_rewrite frontier ps = Some ps' \<and> length ps' = length ps \<and>
    (\<forall>p \<in> set ps'. RunPart_ts_rewrite p = Some frontier)"
  using assms
proof (induction ps)
  case Nil
  then show ?case by simp
next
  case (Cons p ps)
  then obtain q where "p = Single q" by auto
  with Cons show ?case by (cases q) auto
qed

lemma part_rewrite_error_None:
  "part_rewrite_error frontier ps = None \<longleftrightarrow> (\<forall>p \<in> set ps. \<forall>r. RunPart_ts_rewrite p = Some r \<longrightarrow> \<not> frontier < r)"
  by (induction ps) (auto split: option.splits if_splits)



end
