(* ===== verification/Spine.thy ===== *)
theory Spine
  imports Batch
begin

section \<open>The spine (\<open>src/src/persist-client/src/internal/trace.rs\<close>)\<close>

text \<open>
  The fueled merge structure that holds a shard's batches: spine ids, spine batches and the
  bookkeeping of a merge in progress, a level of the spine (\<open>MergeState\<close>) and the spine
  itself. Levels are a list with the smallest level first; the batches of a spine, oldest
  first, are those of the highest level down to level 0.

  A function that pushes onto a level can panic, so most operations return an option.
\<close>

subsection \<open>Spine ids\<close>

datatype SpineId = SpineId (sid_lo: nat) (sid_hi: nat)

text \<open>The derived lexicographic order, used by the sets and maps keyed by spine ids.\<close>

instantiation SpineId :: linorder
begin

definition less_eq_SpineId :: "SpineId \<Rightarrow> SpineId \<Rightarrow> bool" where
  "less_eq_SpineId a b \<longleftrightarrow> sid_lo a < sid_lo b \<or> sid_lo a = sid_lo b \<and> sid_hi a \<le> sid_hi b"

definition less_SpineId :: "SpineId \<Rightarrow> SpineId \<Rightarrow> bool" where
  "less_SpineId a b \<longleftrightarrow> sid_lo a < sid_lo b \<or> sid_lo a = sid_lo b \<and> sid_hi a < sid_hi b"

instance
  by standard (auto simp: less_eq_SpineId_def less_SpineId_def SpineId.expand)

end

definition SpineId_covers :: "SpineId \<Rightarrow> SpineId \<Rightarrow> bool" where
  "SpineId_covers self other \<longleftrightarrow> sid_lo self \<le> sid_lo other \<and> sid_hi other \<le> sid_hi self"

fun id_range_from :: "SpineId \<Rightarrow> SpineId list \<Rightarrow> SpineId option" where
  "id_range_from result [] = Some result"
| "id_range_from result (i # ids) = do {
     assert (sid_hi result = sid_lo i);
     id_range_from (SpineId (sid_lo result) (sid_hi i)) ids
   }"

fun id_range :: "SpineId btree_set \<Rightarrow> SpineId option" where
  "id_range [] = panic"
| "id_range (i # ids) = id_range_from i ids"

subsection \<open>Spine batches\<close>

record 'f IdHollowBatch =
  ihb_id :: SpineId
  ihb_batch :: "'f HollowBatch"

record ActiveCompaction =
  ac_start_ms :: u64

record 'f SpineBatch =
  sb_id :: SpineId
  sb_desc :: "'f Description"
  sb_parts :: "'f IdHollowBatch list"
  sb_active_compaction :: "ActiveCompaction option"
  sb_len :: nat

record 'f FueledMergeReq =
  req_id :: SpineId
  req_desc :: "'f Description"
  req_inputs :: "'f IdHollowBatch list"

record 'f FuelingMerge =
  fm_since :: 'f
  fm_remaining_work :: nat

record 'f IdFuelingMerge =
  ifm_id :: SpineId
  ifm_merge :: "'f FuelingMerge"

datatype 'f SpineLog = Enabled "'f FueledMergeReq list" | Disabled

abbreviation sb_lower :: "'f SpineBatch \<Rightarrow> 'f" where
  "sb_lower b \<equiv> d_lower (sb_desc b)"

abbreviation sb_upper :: "'f SpineBatch \<Rightarrow> 'f" where
  "sb_upper b \<equiv> d_upper (sb_desc b)"

abbreviation sb_since :: "'f SpineBatch \<Rightarrow> 'f" where
  "sb_since b \<equiv> d_since (sb_desc b)"

definition SpineBatch_merged :: "'f IdHollowBatch \<Rightarrow> 'f SpineBatch" where
  "SpineBatch_merged batch =
     \<lparr>sb_id = ihb_id batch, sb_desc = hb_desc (ihb_batch batch), sb_parts = [batch],
      sb_active_compaction = None, sb_len = hb_len (ihb_batch batch)\<rparr>"

definition SpineBatch_is_compact :: "'f SpineBatch \<Rightarrow> bool" where
  "SpineBatch_is_compact b \<longleftrightarrow>
     sum_list (map (\<lambda>p. length (hb_run_meta (ihb_batch p))) (sb_parts b)) \<le> 1"

definition SpineBatch_is_merging :: "'f SpineBatch \<Rightarrow> bool" where
  "SpineBatch_is_merging b \<longleftrightarrow> sb_active_compaction b \<noteq> None"

definition SpineBatch_is_empty :: "'f SpineBatch \<Rightarrow> bool" where
  "SpineBatch_is_empty b \<longleftrightarrow> sb_len b = 0"

definition SpineBatch_empty :: "SpineId \<Rightarrow> 'f \<Rightarrow> 'f \<Rightarrow> 'f \<Rightarrow> 'f SpineBatch" where
  "SpineBatch_empty i l u s =
     SpineBatch_merged \<lparr>ihb_id = i, ihb_batch = HollowBatch_empty (Description_new l u s)\<rparr>"

definition begin_merge ::
  "'f :: bounded_lattice SpineBatch list \<Rightarrow> 'f option \<Rightarrow> 'f IdFuelingMerge option" where
  "begin_merge bs compaction_frontier =
     (if bs = [] then None
      else
        let since = foldl sup (sb_since (hd bs)) (map sb_since bs);
            since' = (case compaction_frontier of None \<Rightarrow> since | Some f \<Rightarrow> sup since f)
        in Some \<lparr>ifm_id = SpineId (sid_lo (sb_id (hd bs))) (sid_hi (sb_id (last bs))),
                 ifm_merge = \<lparr>fm_since = since', fm_remaining_work = sum_list (map sb_len bs)\<rparr>\<rparr>)"

subsection \<open>A merge in progress\<close>

text \<open>\<open>fuel\<close> is an \<open>isize\<close>; a negative budget buys nothing.\<close>

definition FuelingMerge_work :: "'f FuelingMerge \<Rightarrow> int \<Rightarrow> 'f FuelingMerge \<times> int" where
  "FuelingMerge_work m fuel =
     (let available = nat fuel;
          used = min available (fm_remaining_work m)
      in (m\<lparr>fm_remaining_work := fm_remaining_work m - used\<rparr>, fuel - int used))"

fun SpineLog_push :: "'f FueledMergeReq \<Rightarrow> 'f SpineLog \<Rightarrow> 'f SpineLog" where
  "SpineLog_push req (Enabled merge_reqs) = Enabled (merge_reqs @ [req])"
| "SpineLog_push req Disabled = Disabled"

definition FuelingMerge_done ::
  "'f FuelingMerge \<Rightarrow> 'f SpineBatch list \<Rightarrow> 'f SpineLog \<Rightarrow> ('f SpineBatch option \<times> 'f SpineLog) option"
where
  "FuelingMerge_done m bs log =
     (if bs = [] then Some (None, log)
      else
        let i = SpineId (sid_lo (sb_id (hd bs))) (sid_hi (sb_id (last bs)));
            l = sb_lower (hd bs);
            u = sb_upper (last bs);
            s = fm_since m
        in do {
          assert (sid_lo i < sid_hi i);
          if list_all SpineBatch_is_empty bs then Some (Some (SpineBatch_empty i l u s), log)
          else
            let desc = Description_new l u s;
                len = sum_list (map sb_len bs);
                merged_parts = concat (map sb_parts bs)
            in Some
                 (Some \<lparr>sb_id = i, sb_desc = desc, sb_parts = merged_parts,
                        sb_active_compaction = None, sb_len = len\<rparr>,
                  SpineLog_push \<lparr>req_id = i, req_desc = desc, req_inputs = merged_parts\<rparr> log)
        })"

subsection \<open>Levels\<close>

definition BATCHES_PER_LEVEL :: nat where
  "BATCHES_PER_LEVEL = 2"

record 'f MergeState =
  ms_batches :: "'f SpineBatch list"
  ms_merge :: "'f IdFuelingMerge option"

definition MergeState_default :: "'f MergeState" where
  "MergeState_default = \<lparr>ms_batches = [], ms_merge = None\<rparr>"

definition MergeState_id :: "'f MergeState \<Rightarrow> SpineId option" where
  "MergeState_id m =
     (if ms_batches m = [] then None
      else Some (SpineId (sid_lo (sb_id (hd (ms_batches m)))) (sid_hi (sb_id (last (ms_batches m))))))"

datatype 'f push_error =
  IdDoesNotChain SpineId SpineId
| LowerDoesNotChain 'f 'f
| IncompleteMerge SpineId nat
| FullLayer

definition try_push_batch ::
  "'f MergeState \<Rightarrow> 'f SpineBatch \<Rightarrow> 'f push_error + 'f MergeState" where
  "try_push_batch m batch =
     (let bs = ms_batches m in
      if bs \<noteq> [] \<and> sid_hi (sb_id (last bs)) \<noteq> sid_lo (sb_id batch) then
        Inl (IdDoesNotChain (sb_id batch) (sb_id (last bs)))
      else if bs \<noteq> [] \<and> sb_upper (last bs) \<noteq> sb_lower batch then
        Inl (LowerDoesNotChain (sb_lower batch) (sb_upper (last bs)))
      else if ms_merge m \<noteq> None then Inl (IncompleteMerge (sb_id batch) (length bs))
      else if \<not> length bs < BATCHES_PER_LEVEL then Inl FullLayer
      else Inr (m\<lparr>ms_batches := bs @ [batch]\<rparr>))"

definition push_batch :: "'f MergeState \<Rightarrow> 'f SpineBatch \<Rightarrow> 'f MergeState option" where
  "push_batch m batch = (case try_push_batch m batch of Inl _ \<Rightarrow> panic | Inr m' \<Rightarrow> Some m')"

definition MergeState_single :: "'f SpineBatch \<Rightarrow> 'f MergeState option" where
  "MergeState_single batch = push_batch MergeState_default batch"

definition MergeState_len :: "'f MergeState \<Rightarrow> nat" where
  "MergeState_len m = sum_list (map sb_len (ms_batches m))"

definition MergeState_is_empty :: "'f MergeState \<Rightarrow> bool" where
  "MergeState_is_empty m \<longleftrightarrow> list_all SpineBatch_is_empty (ms_batches m)"

definition is_vacant :: "'f MergeState \<Rightarrow> bool" where
  "is_vacant m \<longleftrightarrow> ms_batches m = []"

definition is_single :: "'f MergeState \<Rightarrow> bool" where
  "is_single m \<longleftrightarrow> length (ms_batches m) = 1"

definition is_full :: "'f MergeState \<Rightarrow> bool" where
  "is_full m \<longleftrightarrow> length (ms_batches m) = BATCHES_PER_LEVEL"

text \<open>
  \<open>complete\<close> takes the level out of \<open>self\<close> first, so the fallback \<open>begin_merge\<close> for a level
  of two batches without a merge reads the batches of the already emptied \<open>self\<close>.
\<close>

definition MergeState_complete ::
  "'f :: bounded_lattice MergeState \<Rightarrow> 'f SpineLog
     \<Rightarrow> ('f SpineBatch option \<times> 'f MergeState \<times> 'f SpineLog) option" where
  "MergeState_complete self log =
     (let this = self;
          self' = MergeState_default
      in if length (ms_batches this) \<le> 1 then
           Some ((if ms_batches this = [] then None else Some (last (ms_batches this))), self', log)
         else
           (case (case ms_merge this of
                    Some id_merge \<Rightarrow> Some id_merge
                  | None \<Rightarrow> begin_merge (ms_batches self') None) of
              None \<Rightarrow> Some (None, self', log)
            | Some id_merge \<Rightarrow> do {
                (merged, log') \<leftarrow> FuelingMerge_done (ifm_merge id_merge) (ms_batches this) log;
                Some (merged, self', log')
              }))"

definition is_complete :: "'f MergeState \<Rightarrow> bool" where
  "is_complete m =
     (case ms_merge m of Some im \<Rightarrow> fm_remaining_work (ifm_merge im) = 0 | None \<Rightarrow> False)"

definition MergeState_work :: "'f MergeState \<Rightarrow> int \<Rightarrow> 'f MergeState \<times> int" where
  "MergeState_work m fuel =
     (case ms_merge m of
        None \<Rightarrow> (m, fuel)
      | Some im \<Rightarrow>
          let (merge, fuel') = FuelingMerge_work (ifm_merge im) fuel
          in (m\<lparr>ms_merge := Some (im\<lparr>ifm_merge := merge\<rparr>)\<rparr>, fuel'))"

subsection \<open>The spine\<close>

record 'f Spine =
  sp_effort :: nat
  sp_next_id :: nat
  sp_since :: 'f
  sp_upper :: 'f
  sp_merging :: "'f MergeState list"

definition level_batches :: "'f MergeState list \<Rightarrow> 'f SpineBatch list" where
  "level_batches ms = concat (map ms_batches (rev ms))"

definition spine_batches :: "'f Spine \<Rightarrow> 'f SpineBatch list" where
  "spine_batches sp = level_batches (sp_merging sp)"

definition Spine_new :: "'f :: bounded_lattice Spine" where
  "Spine_new = \<lparr>sp_effort = 1, sp_next_id = 0, sp_since = bot, sp_upper = bot, sp_merging = []\<rparr>"

definition Spine_next_id :: "'f Spine \<Rightarrow> SpineId \<times> 'f Spine" where
  "Spine_next_id sp =
     (let i = sp_next_id sp;
          sp' = sp\<lparr>sp_next_id := i + 1\<rparr>
      in (SpineId i (sp_next_id sp'), sp'))"

definition Spine_reduced :: "'f Spine \<Rightarrow> bool" where
  "Spine_reduced sp \<longleftrightarrow>
     sum_list (map (\<lambda>b. sum_list (map (\<lambda>p. length (hb_run_meta (ihb_batch p))) (sb_parts b)))
       (spine_batches sp)) < 2"

text \<open>\<open>while self.merging.len() <= index { self.merging.push(default) }\<close>\<close>

definition ensure_levels :: "nat \<Rightarrow> 'f MergeState list \<Rightarrow> 'f MergeState list" where
  "ensure_levels index ms = ms @ replicate (Suc index - length ms) MergeState_default"

definition insert_at ::
  "'f :: bounded_lattice Spine \<Rightarrow> 'f SpineBatch \<Rightarrow> nat \<Rightarrow> 'f Spine option" where
  "insert_at sp batch index =
     (let ms = ensure_levels index (sp_merging sp)
      in do {
        m \<leftarrow> push_batch (ms ! index) batch;
        let m' = (if length (ms_batches m) = BATCHES_PER_LEVEL
                  then m\<lparr>ms_merge := begin_merge (ms_batches m) (Some (sp_since sp))\<rparr> else m);
        Some (sp\<lparr>sp_merging := ms[index := m']\<rparr>)
      })"

definition complete_at ::
  "'f :: bounded_lattice Spine \<Rightarrow> nat \<Rightarrow> 'f SpineLog
     \<Rightarrow> ('f SpineBatch option \<times> 'f Spine \<times> 'f SpineLog) option" where
  "complete_at sp index log =
     (if index < length (sp_merging sp) then do {
        (merged, m, log') \<leftarrow> MergeState_complete (sp_merging sp ! index) log;
        Some (merged, sp\<lparr>sp_merging := (sp_merging sp)[index := m]\<rparr>, log')
      } else panic)"

fun apply_fuel_from ::
  "nat list \<Rightarrow> 'f :: bounded_lattice Spine \<Rightarrow> int \<Rightarrow> 'f SpineLog \<Rightarrow> ('f Spine \<times> 'f SpineLog) option"
where
  "apply_fuel_from [] sp fuel log = Some (sp, log)"
| "apply_fuel_from (index # indices) sp fuel log =
     (let (m, fuel') = MergeState_work (sp_merging sp ! index) fuel;
          sp1 = sp\<lparr>sp_merging := (sp_merging sp)[index := m]\<rparr>
      in if is_complete m then do {
           (complete, sp2, log') \<leftarrow> complete_at sp1 index log;
           batch \<leftarrow> complete;
           sp3 \<leftarrow> insert_at sp2 batch (index + 1);
           apply_fuel_from indices sp3 fuel log'
         }
         else apply_fuel_from indices sp1 fuel log)"

definition apply_fuel ::
  "'f :: bounded_lattice Spine \<Rightarrow> int \<Rightarrow> 'f SpineLog \<Rightarrow> ('f Spine \<times> 'f SpineLog) option" where
  "apply_fuel sp fuel log = apply_fuel_from [0..<length (sp_merging sp)] sp fuel log"

fun roll_up_from ::
  "nat list \<Rightarrow> 'f :: bounded_lattice SpineBatch option \<Rightarrow> 'f Spine \<Rightarrow> 'f SpineLog
     \<Rightarrow> ('f SpineBatch option \<times> 'f Spine \<times> 'f SpineLog) option" where
  "roll_up_from [] merged sp log = Some (merged, sp, log)"
| "roll_up_from (i # is) merged sp log = do {
     sp1 \<leftarrow> (case merged of Some b \<Rightarrow> insert_at sp b i | None \<Rightarrow> Some sp);
     (merged', sp2, log') \<leftarrow> complete_at sp1 i log;
     roll_up_from is merged' sp2 log'
   }"

definition roll_up ::
  "'f :: bounded_lattice Spine \<Rightarrow> nat \<Rightarrow> 'f SpineLog \<Rightarrow> ('f Spine \<times> 'f SpineLog) option" where
  "roll_up sp index log =
     (let sp0 = sp\<lparr>sp_merging := ensure_levels index (sp_merging sp)\<rparr>
      in if list_ex (\<lambda>m. \<not> is_vacant m) (take index (sp_merging sp0)) then do {
           (merged, sp1, log1) \<leftarrow> roll_up_from [0..<index] None sp0 log;
           sp2 \<leftarrow> (case merged of Some b \<Rightarrow> insert_at sp1 b index | None \<Rightarrow> Some sp1);
           if is_full (sp_merging sp2 ! index) then do {
             (merged', sp3, log2) \<leftarrow> complete_at sp2 index log1;
             b \<leftarrow> merged';
             sp4 \<leftarrow> insert_at sp3 b (index + 1);
             Some (sp4, log2)
           }
           else Some (sp2, log1)
         }
         else Some (sp0, log))"

text \<open>
  \<open>tidy_layers\<close>: the loop that draws the largest level down, absorbing vacant levels below
  it and at most once starting a merge with the single batch below it.
\<close>

definition smaller_records :: "'f MergeState list \<Rightarrow> nat" where
  "smaller_records ms = sum_list (map (\<lambda>i. length (ms_batches (ms ! i)) * 2 ^ i) [0..<length ms])"

fun insert_all_at ::
  "'f :: bounded_lattice Spine \<Rightarrow> 'f SpineBatch list \<Rightarrow> nat \<Rightarrow> 'f Spine option" where
  "insert_all_at sp [] index = Some sp"
| "insert_all_at sp (b # bs) index = do {
     sp' \<leftarrow> insert_at sp b index;
     insert_all_at sp' bs index
   }"

function tidy_loop :: "nat \<Rightarrow> 'f :: bounded_lattice Spine \<Rightarrow> 'f Spine option" where
  "tidy_loop appropriate_level sp =
     (let len = length (sp_merging sp)
      in if appropriate_level < len - 1 then
           let current = sp_merging sp ! (len - 2)
           in if is_vacant current then
                tidy_loop appropriate_level (sp\<lparr>sp_merging := remove_at (len - 2) (sp_merging sp)\<rparr>)
              else if \<not> is_full current \<and> smaller_records (take (len - 2) (sp_merging sp)) \<le> 2 ^ len div 8
              then do {
                assert (length (ms_batches current) = 1);
                insert_all_at (sp\<lparr>sp_merging := remove_at (len - 2) (sp_merging sp)\<rparr>)
                  (ms_batches current) (len - 2)
              }
              else Some sp
         else Some sp)"
  by pat_completeness auto
termination
  by (relation "measure (\<lambda>(a, sp). length (sp_merging sp))") auto

declare tidy_loop.simps [simp del]

definition tidy_layers :: "'f :: bounded_lattice Spine \<Rightarrow> 'f Spine option" where
  "tidy_layers sp =
     (if sp_merging sp \<noteq> [] \<and> is_single (last (sp_merging sp)) then
        tidy_loop (trailing_zeros (next_power_of_two (MergeState_len (last (sp_merging sp))))) sp
      else Some sp)"

text \<open>
  The fuel of an introduced batch: \<open>8 << batch_index\<close> scaled by the effort, \<open>isize::MAX\<close>
  where a step of the computation fails.
\<close>

definition introduce_fuel :: "nat \<Rightarrow> nat \<Rightarrow> int" where
  "introduce_fuel effort batch_index =
     (case (do {
              shift \<leftarrow> (if batch_index < 2 ^ 32 then Some batch_index else None);
              fuel \<leftarrow> checked_shl 8 shift;
              fuel \<leftarrow> checked_mul fuel effort;
              isize_try_from fuel
            }) of
        Some fuel \<Rightarrow> fuel
      | None \<Rightarrow> isize_max)"

definition introduce_batch ::
  "'f :: bounded_lattice Spine \<Rightarrow> 'f SpineBatch \<Rightarrow> nat \<Rightarrow> 'f SpineLog
     \<Rightarrow> ('f Spine \<times> 'f SpineLog) option" where
  "introduce_batch sp batch batch_index log = do {
     (sp1, log1) \<leftarrow> apply_fuel sp (introduce_fuel (sp_effort sp) batch_index) log;
     (sp2, log2) \<leftarrow> roll_up sp1 batch_index log1;
     sp3 \<leftarrow> insert_at sp2 batch batch_index;
     sp4 \<leftarrow> tidy_layers sp3;
     Some (sp4, log2)
   }"

definition Spine_exert ::
  "'f :: bounded_lattice Spine \<Rightarrow> nat \<Rightarrow> 'f SpineLog \<Rightarrow> ((bool \<times> 'f Spine) \<times> 'f SpineLog) option"
where
  "Spine_exert sp effort log = do {
     sp0 \<leftarrow> tidy_layers sp;
     if Spine_reduced sp0 then Some ((False, sp0), log)
     else if list_ex (\<lambda>m. ms_merge m \<noteq> None) (sp_merging sp0) then do {
       let fuel = (case isize_try_from effort of Some f \<Rightarrow> f | None \<Rightarrow> isize_max);
       (sp1, log1) \<leftarrow> apply_fuel sp0 fuel log;
       Some ((True, sp1), log1)
     }
     else do {
       let level = trailing_zeros (next_power_of_two effort);
       let (i, sp1) = Spine_next_id sp0;
       (sp2, log1) \<leftarrow>
         introduce_batch sp1 (SpineBatch_empty i (sp_upper sp1) (sp_upper sp1) (sp_since sp1)) level log;
       Some ((True, sp2), log1)
     }
   }"

fun first_nonvacant :: "'f MergeState list \<Rightarrow> nat option" where
  "first_nonvacant [] = None"
| "first_nonvacant (m # ms) =
     (if \<not> is_vacant m then Some 0 else map_option Suc (first_nonvacant ms))"

text \<open>
  The fast path of \<open>insert\<close>: an empty batch fuses with the lowest non-vacant level when that
  level holds one batch and that batch is empty.
\<close>

definition fuse_position :: "'f Spine \<Rightarrow> 'f SpineBatch \<Rightarrow> nat option" where
  "fuse_position sp batch =
     (if SpineBatch_is_empty batch then
        (case first_nonvacant (sp_merging sp) of
           Some position \<Rightarrow>
             if is_single (sp_merging sp ! position) \<and> MergeState_is_empty (sp_merging sp ! position)
             then Some position else None
         | None \<Rightarrow> None)
      else None)"

definition fuse_at ::
  "'f :: bounded_lattice Spine \<Rightarrow> 'f SpineBatch \<Rightarrow> nat \<Rightarrow> 'f SpineLog \<Rightarrow> ('f Spine \<times> 'f SpineLog) option"
where
  "fuse_at sp batch position log = do {
     sp1 \<leftarrow> insert_at sp batch position;
     (merged, sp2, log') \<leftarrow> complete_at sp1 position log;
     case merged of
       Some b \<Rightarrow> do {
         m \<leftarrow> MergeState_single b;
         Some (sp2\<lparr>sp_merging := (sp_merging sp2)[position := m]\<rparr>, log')
       }
     | None \<Rightarrow> Some (sp2, log')
   }"

definition Spine_insert ::
  "'f :: bounded_lattice Spine \<Rightarrow> 'f HollowBatch \<Rightarrow> 'f SpineLog \<Rightarrow> ('f Spine \<times> 'f SpineLog) option"
where
  "Spine_insert sp hb log = do {
     assert (d_lower (hb_desc hb) \<noteq> d_upper (hb_desc hb));
     assert (d_lower (hb_desc hb) = sp_upper sp);
     let (i, sp1) = Spine_next_id sp;
     let batch = SpineBatch_merged \<lparr>ihb_id = i, ihb_batch = hb\<rparr>;
     let sp2 = sp1\<lparr>sp_upper := sb_upper batch\<rparr>;
     case fuse_position sp2 batch of
       Some position \<Rightarrow> fuse_at sp2 batch position log
     | None \<Rightarrow>
         introduce_batch sp2 batch (trailing_zeros (next_power_of_two (sb_len batch))) log
   }"

subsection \<open>Validation\<close>

datatype 'f spine_error =
  FullWithoutMerge
| MergeWithoutFull
| MergeIdMismatch
| BatchIdMismatch SpineId SpineId
| BatchLowerMismatch 'f 'f
| BatchSincePastSpine 'f 'f
| NextIdMismatch nat SpineId
| UpperMismatch 'f 'f

fun validate_batches ::
  "'f :: bounded_lattice \<Rightarrow> 'f SpineBatch list \<Rightarrow> SpineId \<Rightarrow> 'f \<Rightarrow> 'f spine_error + (SpineId \<times> 'f)"
where
  "validate_batches s [] i frontier = Inr (i, frontier)"
| "validate_batches s (batch # bs) i frontier =
     (if sid_lo (sb_id batch) \<noteq> sid_hi i then Inl (BatchIdMismatch (sb_id batch) i)
      else if sb_lower batch \<noteq> frontier then Inl (BatchLowerMismatch (sb_lower batch) frontier)
      else if \<not> sb_since batch \<le> s then Inl (BatchSincePastSpine (sb_since batch) s)
      else validate_batches s bs (sb_id batch) (sb_upper batch))"

fun validate_levels ::
  "'f :: bounded_lattice \<Rightarrow> 'f MergeState list \<Rightarrow> SpineId \<Rightarrow> 'f \<Rightarrow> 'f spine_error + (SpineId \<times> 'f)"
where
  "validate_levels s [] i frontier = Inr (i, frontier)"
| "validate_levels s (x # xs) i frontier =
     (if is_full x \<noteq> (ms_merge x \<noteq> None) then Inl FullWithoutMerge
      else if ms_merge x \<noteq> None \<and> \<not> is_full x then Inl MergeWithoutFull
      else if ms_merge x \<noteq> None \<and> MergeState_id x \<noteq> map_option ifm_id (ms_merge x) then
        Inl MergeIdMismatch
      else
        (case validate_batches s (ms_batches x) i frontier of
           Inl e \<Rightarrow> Inl e
         | Inr (i', frontier') \<Rightarrow> validate_levels s xs i' frontier'))"

definition Spine_validate :: "'f :: bounded_lattice Spine \<Rightarrow> 'f spine_error + unit" where
  "Spine_validate sp =
     (case validate_levels (sp_since sp) (rev (sp_merging sp)) (SpineId 0 0) bot of
        Inl e \<Rightarrow> Inl e
      | Inr (i, frontier) \<Rightarrow>
          if sp_next_id sp \<noteq> sid_hi i then Inl (NextIdMismatch (sp_next_id sp) i)
          else if sp_upper sp \<noteq> frontier then Inl (UpperMismatch (sp_upper sp) frontier)
          else Inr ())"

end
