(* ===== verification/Merge_Res.thy ===== *)
theory Merge_Res
  imports Spine
begin

section \<open>Applying a compaction result to a spine batch (\<open>src/src/persist-client/src/internal/trace.rs\<close>)\<close>

text \<open>
  The functions of \<open>SpineBatch\<close> that swap the output of a compaction into a spine batch. A
  function of the source that assigns to \<open>self\<close> returns the new batch beside its result.

  Two nested options: the outer one is a panic, the inner one the source's \<open>Option\<close>. For a
  batch whose run metadata does not match its parts, \<open>runs()\<close> panics when the iteration
  reaches the mismatch; \<open>HollowBatch_runs\<close> panics at the start of the iteration.
\<close>

datatype CompactionInput = Legacy | IdRange SpineId | PartialBatch SpineId "RunId btree_set"

record 'f FueledMergeRes =
  res_output :: "'f HollowBatch"
  res_input :: CompactionInput
  res_new_active_compaction :: "ActiveCompaction option"

datatype ApplyMergeResult =
  AppliedExact | AppliedSubset | NotAppliedNoMatch | NotAppliedInvalidSince | NotAppliedTooManyUpdates

fun ApplyMergeResult_applied :: "ApplyMergeResult \<Rightarrow> bool" where
  "ApplyMergeResult_applied AppliedExact = True"
| "ApplyMergeResult_applied AppliedSubset = True"
| "ApplyMergeResult_applied _ = False"

fun ApplyMergeResult_matched :: "ApplyMergeResult \<Rightarrow> bool" where
  "ApplyMergeResult_matched AppliedExact = True"
| "ApplyMergeResult_matched AppliedSubset = True"
| "ApplyMergeResult_matched NotAppliedTooManyUpdates = True"
| "ApplyMergeResult_matched _ = False"

subsection \<open>Sums of diffs\<close>

fun diffs_sum_from :: "'d :: monoid_add ext \<Rightarrow> 'd \<Rightarrow> 'f RunPart list \<Rightarrow> 'd option option" where
  "diffs_sum_from e tally [] = Some (Some tally)"
| "diffs_sum_from e tally (part # parts) = do {
     d \<leftarrow> RunPart_diffs_sum e part;
     case d of
       None \<Rightarrow> Some None
     | Some x \<Rightarrow> diffs_sum_from e (tally + x) parts
   }"

definition diffs_sum :: "'d :: monoid_add ext \<Rightarrow> 'f RunPart list \<Rightarrow> 'd option option" where
  "diffs_sum e parts = diffs_sum_from e 0 parts"

fun runs_diffs_sum_from ::
  "'d :: monoid_add ext \<Rightarrow> 'd \<Rightarrow> (RunMeta \<times> 'f RunPart list) list \<Rightarrow> 'd option option" where
  "runs_diffs_sum_from e tally [] = Some (Some tally)"
| "runs_diffs_sum_from e tally ((meta, run) # runs) =
     (if bounds_truncated e meta then Some None
      else do {
        d \<leftarrow> diffs_sum e run;
        case d of
          None \<Rightarrow> Some None
        | Some x \<Rightarrow> runs_diffs_sum_from e (tally + x) runs
      })"

definition batch_diffs_sum :: "'d :: monoid_add ext \<Rightarrow> 'f HollowBatch \<Rightarrow> 'd option option" where
  "batch_diffs_sum e batch = do {
     runs \<leftarrow> HollowBatch_runs batch;
     runs_diffs_sum_from e 0 runs
   }"

text \<open>The loop of \<open>diffs_sum_for_runs\<close>, with the ids still to be found.\<close>

fun diffs_sum_for_runs_from ::
  "'d :: monoid_add ext \<Rightarrow> RunId btree_set \<Rightarrow> 'd \<Rightarrow> (RunMeta \<times> 'f RunPart list) list \<Rightarrow> 'd option option"
where
  "diffs_sum_for_runs_from e run_ids tally [] = Some (if run_ids = [] then Some tally else None)"
| "diffs_sum_for_runs_from e run_ids tally ((meta, run) # runs) =
     (case rm_id meta of
        None \<Rightarrow> Some None
      | Some i \<Rightarrow>
          if i \<in> set run_ids then
            if bounds_truncated e meta then Some None
            else do {
              d \<leftarrow> diffs_sum e run;
              case d of
                None \<Rightarrow> Some None
              | Some x \<Rightarrow> diffs_sum_for_runs_from e (filter (\<lambda>j. j \<noteq> i) run_ids) (tally + x) runs
            }
          else diffs_sum_for_runs_from e run_ids tally runs)"

definition diffs_sum_for_runs ::
  "'d :: monoid_add ext \<Rightarrow> 'f HollowBatch \<Rightarrow> RunId list \<Rightarrow> 'd option option" where
  "diffs_sum_for_runs e batch run_ids = do {
     runs \<leftarrow> HollowBatch_runs batch;
     diffs_sum_for_runs_from e (btree_set_of_list run_ids) 0 runs
   }"

text \<open>\<open>parts.iter().try_fold(D::zero(), ..)\<close>\<close>

fun parts_diffs_sum_from :: "'d :: monoid_add ext \<Rightarrow> 'd \<Rightarrow> 'f IdHollowBatch list \<Rightarrow> 'd option option" where
  "parts_diffs_sum_from e tally [] = Some (Some tally)"
| "parts_diffs_sum_from e tally (p # ps) = do {
     d \<leftarrow> batch_diffs_sum e (ihb_batch p);
     case d of
       None \<Rightarrow> Some None
     | Some x \<Rightarrow> parts_diffs_sum_from e (tally + x) ps
   }"

definition validate_diffs_sum_match :: "'d :: monoid_add option \<Rightarrow> 'd option \<Rightarrow> unit option" where
  "validate_diffs_sum_match old_diffs_sum new_diffs_sum =
     (let new = (case new_diffs_sum of Some d \<Rightarrow> d | None \<Rightarrow> 0)
      in case old_diffs_sum of
           Some old \<Rightarrow> assert (old = new)
         | None \<Rightarrow> Some ())"

text \<open>The weaker check of the legacy path: compare only when both sums are known.\<close>

definition legacy_diffs_sum_match :: "'d option \<Rightarrow> 'd option \<Rightarrow> unit option" where
  "legacy_diffs_sum_match old_diffs_sum new_diffs_sum =
     (case (old_diffs_sum, new_diffs_sum) of
        (Some old, Some new) \<Rightarrow> assert (old = new)
      | _ \<Rightarrow> Some ())"

subsection \<open>Replacing some runs of a batch\<close>

fun run_splits_from :: "nat \<Rightarrow> nat \<Rightarrow> nat \<Rightarrow> (RunMeta \<times> 'f RunPart list) list \<Rightarrow> nat list" where
  "run_splits_from n i pointer [] = []"
| "run_splits_from n i pointer ((meta, parts) # runs) =
     (if parts = [] then run_splits_from n (i + 1) pointer runs
      else (if i < n - 1 then [pointer + length parts] else []) @
           run_splits_from n (i + 1) (pointer + length parts) runs)"

fun retain_runs ::
  "RunId btree_set \<Rightarrow> (RunMeta \<times> 'f RunPart list) list \<Rightarrow> (RunMeta \<times> 'f RunPart list) list option" where
  "retain_runs run_ids [] = Some []"
| "retain_runs run_ids (r # runs) = do {
     i \<leftarrow> rm_id (fst r);
     rest \<leftarrow> retain_runs run_ids runs;
     Some (if i \<in> set run_ids then rest else r # rest)
   }"

definition construct_batch_with_runs_replaced ::
  "'f HollowBatch \<Rightarrow> RunId list \<Rightarrow> 'f HollowBatch \<Rightarrow> (ApplyMergeResult + 'f HollowBatch) option" where
  "construct_batch_with_runs_replaced original run_ids replacement =
     (if run_ids = [] then Some (Inl NotAppliedNoMatch)
      else do {
        orig_runs \<leftarrow> HollowBatch_runs original;
        let orig_run_ids = btree_set_of_list (List.map_filter (rm_id \<circ> fst) orig_runs);
        let run_ids' = btree_set_of_list run_ids;
        if \<not> set run_ids' \<subseteq> set orig_run_ids then Some (Inl NotAppliedNoMatch)
        else do {
          kept \<leftarrow> retain_runs run_ids' orig_runs;
          new_runs \<leftarrow> HollowBatch_runs replacement;
          let runs = kept @ new_runs;
          let len = sum_list (List.map_filter (rm_len \<circ> fst) runs);
          let run_meta = map fst runs;
          let parts = concat (map snd runs);
          let run_splits = run_splits_from (length run_meta) 0 0 runs;
          Some (Inr (HollowBatch_new (hb_desc replacement) parts len run_meta run_splits))
        }
      })"

subsection \<open>Replacing parts of a spine batch\<close>

text \<open>A range of indices is the pair of its start and its (exclusive) end.\<close>

type_synonym index_range = "nat \<times> nat"

text \<open>The scan of \<open>find_replacement_range\<close>, with the bounds found so far.\<close>

fun find_range_from ::
  "'f Description \<Rightarrow> nat \<Rightarrow> (nat \<times> nat) option \<Rightarrow> (nat \<times> nat) option \<Rightarrow> 'f IdHollowBatch list
     \<Rightarrow> (nat \<times> nat) option \<times> (nat \<times> nat) option" where
  "find_range_from desc i l u [] = (l, u)"
| "find_range_from desc i l u (p # ps) =
     (let l' = (if d_lower (hb_desc (ihb_batch p)) = d_lower desc then Some (i, sid_lo (ihb_id p)) else l);
          u' = (if d_upper (hb_desc (ihb_batch p)) = d_upper desc then Some (i, sid_hi (ihb_id p)) else u)
      in if l' \<noteq> None \<and> u' \<noteq> None then (l', u') else find_range_from desc (i + 1) l' u' ps)"

definition find_replacement_range ::
  "'f SpineBatch \<Rightarrow> 'f Description \<Rightarrow> (SpineId \<times> index_range) option" where
  "find_replacement_range self desc =
     (case find_range_from desc 0 None None (sb_parts self) of
        (Some (lower_idx, id_lower), Some (upper_idx, id_upper)) \<Rightarrow>
          Some (SpineId id_lower id_upper, (lower_idx, upper_idx + 1))
      | _ \<Rightarrow> None)"

definition perform_subset_replacement ::
  "'f SpineBatch \<Rightarrow> 'f HollowBatch \<Rightarrow> SpineId \<Rightarrow> index_range \<Rightarrow> ActiveCompaction option
     \<Rightarrow> (ApplyMergeResult \<times> 'f SpineBatch) option" where
  "perform_subset_replacement self res spine_id rng new_active_compaction =
     (let (from, upto) = rng; parts = sb_parts self
      in do {
        assert (from \<le> length parts \<and> upto \<le> length parts);
        let new_parts = take from parts @ [\<lparr>ihb_id = spine_id, ihb_batch = res\<rparr>] @ drop upto parts;
        let r = (if upto - from = length parts then AppliedExact else AppliedSubset);
        let new_spine_batch =
          \<lparr>sb_id = sb_id self, sb_desc = sb_desc self, sb_parts = new_parts,
           sb_active_compaction = new_active_compaction,
           sb_len = sum_list (map (\<lambda>x. hb_len (ihb_batch x)) new_parts)\<rparr>;
        if sb_len new_spine_batch > sb_len self then Some (NotAppliedTooManyUpdates, self)
        else Some (r, new_spine_batch)
      })"

definition slice :: "'a list \<Rightarrow> index_range \<Rightarrow> 'a list option" where
  "slice xs rng =
     (let (from, upto) = rng
      in do {
        assert (from \<le> upto \<and> upto \<le> length xs);
        Some (take (upto - from) (drop from xs))
      })"

definition handle_id_range_replacement ::
  "'d :: monoid_add ext \<Rightarrow> 'f SpineBatch \<Rightarrow> 'f FueledMergeRes \<Rightarrow> SpineId \<Rightarrow> 'd option
     \<Rightarrow> (ApplyMergeResult \<times> 'f SpineBatch) option" where
  "handle_id_range_replacement e self res i new_diffs_sum =
     (let rng = filter (\<lambda>(j, p). SpineId_covers i (ihb_id p))
                    (enumerate 0 (sb_parts self));
          ids = btree_set_of_list (map (\<lambda>(j, p). ihb_id p) rng)
      in if ids = [] then Some (NotAppliedNoMatch, self)
         else do {
           covered \<leftarrow> id_range ids;
           if i \<noteq> covered then Some (NotAppliedNoMatch, self)
           else do {
             let replacement_range = (Min (set (map fst rng)), Max (set (map fst rng)) + 1);
             replaced \<leftarrow> slice (sb_parts self) replacement_range;
             old_diffs_sum \<leftarrow> parts_diffs_sum_from e 0 replaced;
             validate_diffs_sum_match old_diffs_sum new_diffs_sum;
             perform_subset_replacement self (res_output res) i replacement_range
               (res_new_active_compaction res)
           }
         })"

fun position_of_id :: "SpineId \<Rightarrow> 'f IdHollowBatch list \<Rightarrow> nat option" where
  "position_of_id i [] = None"
| "position_of_id i (p # ps) = (if ihb_id p = i then Some 0 else map_option Suc (position_of_id i ps))"

definition handle_partial_batch_replacement ::
  "'d :: monoid_add ext \<Rightarrow> 'f :: bounded_lattice SpineBatch \<Rightarrow> 'f FueledMergeRes \<Rightarrow> SpineId
     \<Rightarrow> RunId btree_set \<Rightarrow> 'd option \<Rightarrow> (ApplyMergeResult \<times> 'f SpineBatch) option" where
  "handle_partial_batch_replacement e self res i runs new_diffs_sum =
     (if runs = [] then Some (NotAppliedNoMatch, self)
      else case position_of_id i (sb_parts self) of
        None \<Rightarrow> Some (NotAppliedNoMatch, self)
      | Some j \<Rightarrow>
          let batch = ihb_batch (sb_parts self ! j);
              replacement_desc = hb_desc (res_output res);
              existing_desc = hb_desc batch
          in do {
            assert (d_lower replacement_desc = d_lower existing_desc);
            assert (d_upper replacement_desc = d_upper existing_desc);
            if \<not> d_since existing_desc \<le> d_since replacement_desc then
              Some (NotAppliedInvalidSince, self)
            else do {
              constructed \<leftarrow> construct_batch_with_runs_replaced batch runs (res_output res);
              case constructed of
                Inl err \<Rightarrow> Some (err, self)
              | Inr new_batch \<Rightarrow> do {
                  old_diffs_sum \<leftarrow> diffs_sum_for_runs e batch runs;
                  validate_diffs_sum_match old_diffs_sum new_diffs_sum;
                  old_batch_diff_sum \<leftarrow> batch_diffs_sum e batch;
                  new_batch_diff_sum \<leftarrow> batch_diffs_sum e new_batch;
                  validate_diffs_sum_match old_batch_diff_sum new_batch_diff_sum;
                  perform_subset_replacement self new_batch i (j, j + 1)
                    (res_new_active_compaction res)
                }
            }
          })"

definition exact_match :: "'f Description \<Rightarrow> 'f SpineBatch \<Rightarrow> bool" where
  "exact_match desc self \<longleftrightarrow> d_lower desc = sb_lower self \<and> d_upper desc = sb_upper self"

definition maybe_replace_checked_classic ::
  "'d :: monoid_add ext \<Rightarrow> 'f :: bounded_lattice SpineBatch \<Rightarrow> 'f FueledMergeRes
     \<Rightarrow> (ApplyMergeResult \<times> 'f SpineBatch) option" where
  "maybe_replace_checked_classic e self res =
     (if \<not> d_since (hb_desc (res_output res)) \<le> sb_since self then Some (NotAppliedInvalidSince, self)
      else do {
        new_diffs_sum \<leftarrow> diffs_sum e (hb_parts (res_output res));
        if exact_match (hb_desc (res_output res)) self then do {
          old_diffs_sum \<leftarrow> parts_diffs_sum_from e 0 (sb_parts self);
          legacy_diffs_sum_match old_diffs_sum new_diffs_sum;
          if hb_len (res_output res) > sb_len self then Some (NotAppliedTooManyUpdates, self)
          else Some (AppliedExact,
                 SpineBatch_merged \<lparr>ihb_id = sb_id self, ihb_batch = res_output res\<rparr>)
        }
        else (case find_replacement_range self (hb_desc (res_output res)) of
          Some (i, rng) \<Rightarrow> do {
            replaced \<leftarrow> slice (sb_parts self) rng;
            old_diffs_sum \<leftarrow> parts_diffs_sum_from e 0 replaced;
            legacy_diffs_sum_match old_diffs_sum new_diffs_sum;
            perform_subset_replacement self (res_output res) i rng (res_new_active_compaction res)
          }
        | None \<Rightarrow> Some (NotAppliedNoMatch, self))
      })"

definition maybe_replace_checked ::
  "'d :: monoid_add ext \<Rightarrow> 'f :: bounded_lattice SpineBatch \<Rightarrow> 'f FueledMergeRes
     \<Rightarrow> (ApplyMergeResult \<times> 'f SpineBatch) option" where
  "maybe_replace_checked e self res =
     (if \<not> d_since (hb_desc (res_output res)) \<le> sb_since self then Some (NotAppliedInvalidSince, self)
      else do {
        new_diffs_sum \<leftarrow> diffs_sum e (hb_parts (res_output res));
        (result, self') \<leftarrow>
          (case res_input res of
             IdRange i \<Rightarrow> handle_id_range_replacement e self res i new_diffs_sum
           | PartialBatch i runs \<Rightarrow> handle_partial_batch_replacement e self res i runs new_diffs_sum
           | Legacy \<Rightarrow> maybe_replace_checked_classic e self res);
        assert (length (sb_parts self') \<le> length (sb_parts self));
        Some (result, self')
      })"

definition maybe_replace_unchecked ::
  "'f :: bounded_lattice SpineBatch \<Rightarrow> 'f FueledMergeRes \<Rightarrow> (ApplyMergeResult \<times> 'f SpineBatch) option"
where
  "maybe_replace_unchecked self res =
     (if \<not> d_since (hb_desc (res_output res)) \<le> sb_since self then Some (NotAppliedInvalidSince, self)
      else if exact_match (hb_desc (res_output res)) self then
        if hb_len (res_output res) > sb_len self then Some (NotAppliedTooManyUpdates, self)
        else Some (AppliedExact,
               SpineBatch_merged \<lparr>ihb_id = sb_id self, ihb_batch = res_output res\<rparr>)
      else (case find_replacement_range self (hb_desc (res_output res)) of
        Some (i, rng) \<Rightarrow>
          perform_subset_replacement self (res_output res) i rng (res_new_active_compaction res)
      | None \<Rightarrow> Some (NotAppliedNoMatch, self)))"

definition maybe_replace_with_tombstone ::
  "'f SpineBatch \<Rightarrow> 'f Description \<Rightarrow> (ApplyMergeResult \<times> 'f SpineBatch) option" where
  "maybe_replace_with_tombstone self desc =
     (let empty_batch = HollowBatch_empty desc
      in if exact_match desc self then
           Some (AppliedExact, SpineBatch_merged \<lparr>ihb_id = sb_id self, ihb_batch = empty_batch\<rparr>)
         else (case find_replacement_range self desc of
           Some (i, rng) \<Rightarrow> perform_subset_replacement self empty_batch i rng None
         | None \<Rightarrow> Some (NotAppliedNoMatch, self)))"

end
