(* ===== verification/Spine_Inv.thy ===== *)
theory Spine_Inv
  imports Spine
begin

section \<open>The invariant of the spine\<close>

text \<open>
  What the spine keeps true and why none of its operations panics. The structural part says
  that the batches, oldest first, form one chain of ids from 0 to \<open>next_id\<close> and of
  frontiers from the minimum to \<open>upper\<close>; it implies \<open>Spine::validate\<close>. The quantitative
  part is the fueling argument of the comments of \<open>trace.rs\<close>: a batch at level \<open>k\<close> has at
  most \<open>2 ^ k\<close> updates, and below a merge in progress at level \<open>k\<close> the levels are filled so
  far that the merge is finished before they can produce another batch for level \<open>k\<close>.
\<close>

subsection \<open>Levels as a function of the index\<close>

text \<open>A level that does not exist yet is vacant, so growing the list changes nothing.\<close>

definition lvl :: "'f MergeState list \<Rightarrow> nat \<Rightarrow> 'f MergeState" where
  "lvl ms k = (if k < length ms then ms ! k else MergeState_default)"

lemma lvl_nth [simp]: "k < length ms \<Longrightarrow> lvl ms k = ms ! k"
  by (simp add: lvl_def)

lemma lvl_beyond [simp]: "length ms \<le> k \<Longrightarrow> lvl ms k = MergeState_default"
  by (simp add: lvl_def)

lemma lvl_update: "k < length ms \<Longrightarrow> lvl (ms[k := m]) = (lvl ms)(k := m)"
  by (auto simp: lvl_def fun_eq_iff)

lemma length_ensure_levels [simp]: "length (ensure_levels i ms) = max (length ms) (Suc i)"
  by (simp add: ensure_levels_def)

lemma lvl_ensure_levels [simp]: "lvl (ensure_levels i ms) = lvl ms"
  by (auto simp: lvl_def ensure_levels_def fun_eq_iff nth_append)

lemma ensure_levels_nth [simp]: "ensure_levels i ms ! i = lvl ms i"
proof -
  have "i < length (ensure_levels i ms)" by simp
  then show ?thesis by (metis lvl_nth lvl_ensure_levels)
qed

lemma MergeState_default_simps [simp]:
  "ms_batches MergeState_default = []" "ms_merge MergeState_default = None"
  by (simp_all add: MergeState_default_def)

lemma level_batches_Nil [simp]: "level_batches [] = []"
  by (simp add: level_batches_def)

lemma level_batches_append [simp]:
  "level_batches (xs @ ys) = level_batches ys @ level_batches xs"
  by (simp add: level_batches_def)

lemma level_batches_Cons [simp]:
  "level_batches (m # ms) = level_batches ms @ ms_batches m"
  by (simp add: level_batches_def)

lemma level_batches_replicate [simp]: "level_batches (replicate n MergeState_default) = []"
  by (induction n) auto

lemma level_batches_ensure [simp]: "level_batches (ensure_levels i ms) = level_batches ms"
  by (simp add: ensure_levels_def)

lemma level_batches_split:
  assumes "k < length ms"
  shows "level_batches ms =
    level_batches (drop (Suc k) ms) @ ms_batches (ms ! k) @ level_batches (take k ms)"
proof -
  have "level_batches ms = level_batches (take k ms @ ms ! k # drop (Suc k) ms)"
    using assms by (simp add: id_take_nth_drop [symmetric])
  then show ?thesis by simp
qed

lemma level_batches_update:
  assumes "k < length ms"
  shows "level_batches (ms[k := m]) =
    level_batches (drop (Suc k) ms) @ ms_batches m @ level_batches (take k ms)"
  using assms by (simp add: upd_conv_take_nth_drop)

lemma level_batches_vacant:
  "(\<And>k. k < length ms \<Longrightarrow> ms_batches (ms ! k) = []) \<Longrightarrow> level_batches ms = []"
  by (fastforce simp: level_batches_def in_set_conv_nth)

subsection \<open>Virtual records below a level\<close>

text \<open>A batch at level \<open>i\<close> is accounted as \<open>2 ^ i\<close> records, whatever its length.\<close>

definition vrec :: "(nat \<Rightarrow> 'f MergeState) \<Rightarrow> nat \<Rightarrow> nat" where
  "vrec f j = (\<Sum>i < j. length (ms_batches (f i)) * 2 ^ i)"

lemma vrec_Suc [simp]: "vrec f (Suc j) = vrec f j + length (ms_batches (f j)) * 2 ^ j"
  by (simp add: vrec_def)

lemma vrec_0 [simp]: "vrec f 0 = 0"
  by (simp add: vrec_def)

lemma vrec_upd_ge: "j \<le> k \<Longrightarrow> vrec (f(k := m)) j = vrec f j"
  unfolding vrec_def by (rule sum.cong) auto

lemma vrec_upd_lt:
  "k < j \<Longrightarrow>
     vrec (f(k := m)) j + length (ms_batches (f k)) * 2 ^ k = vrec f j + length (ms_batches m) * 2 ^ k"
proof (induction j)
  case 0
  then show ?case by simp
next
  case (Suc j)
  show ?case
  proof (cases "k = j")
    case True
    then show ?thesis using vrec_upd_ge [of j j f m] by (simp add: fun_upd_def)
  next
    case False
    with Suc show ?thesis by simp
  qed
qed

lemma vrec_cong: "(\<And>i. i < j \<Longrightarrow> length (ms_batches (f i)) = length (ms_batches (g i))) \<Longrightarrow> vrec f j = vrec g j"
  unfolding vrec_def by (rule sum.cong) auto

lemma vrec_zero: "(\<And>i. i < j \<Longrightarrow> ms_batches (f i) = []) \<Longrightarrow> vrec f j = 0"
  by (simp add: vrec_def)

lemma vrec_mono: "i \<le> j \<Longrightarrow> vrec f i \<le> vrec f j"
  unfolding vrec_def by (rule sum_mono2) auto

lemma smaller_records_vrec: "n \<le> length ms \<Longrightarrow> smaller_records (take n ms) = vrec (lvl ms) n"
proof -
  assume n: "n \<le> length ms"
  have "smaller_records (take n ms) = sum_list (map (\<lambda>i. length (ms_batches (lvl ms i)) * 2 ^ i) [0..<n])"
    unfolding smaller_records_def using n by (intro arg_cong [of _ _ sum_list] map_cong) auto
  then show ?thesis
    by (simp add: vrec_def interv_sum_list_conv_sum_set_nat atLeast0LessThan)
qed

subsection \<open>Batches\<close>

definition sb_lo :: "'f SpineBatch \<Rightarrow> nat \<times> 'f" where
  "sb_lo b = (sid_lo (sb_id b), sb_lower b)"

definition sb_hi :: "'f SpineBatch \<Rightarrow> nat \<times> 'f" where
  "sb_hi b = (sid_hi (sb_id b), sb_upper b)"

definition ihb_lo :: "'f IdHollowBatch \<Rightarrow> nat \<times> 'f" where
  "ihb_lo p = (sid_lo (ihb_id p), d_lower (hb_desc (ihb_batch p)))"

definition ihb_hi :: "'f IdHollowBatch \<Rightarrow> nat \<times> 'f" where
  "ihb_hi p = (sid_hi (ihb_id p), d_upper (hb_desc (ihb_batch p)))"

abbreviation ihb_len :: "'f IdHollowBatch \<Rightarrow> nat" where
  "ihb_len p \<equiv> hb_len (ihb_batch p)"

text \<open>
  A spine batch is well formed when its parts tile its id and time range and the cached
  length is the sum of the parts' lengths. A part covers at least one id; its time range may
  be empty (\<open>exert\<close> introduces such batches) if it holds nothing, but not inverted.
\<close>

definition hb_strict :: "'f :: bounded_lattice HollowBatch \<Rightarrow> bool" where
  "hb_strict hb \<longleftrightarrow> hb_parts hb = [] \<or> d_lower (hb_desc hb) < d_upper (hb_desc hb)"

definition ihb_proper :: "'f :: bounded_lattice IdHollowBatch \<Rightarrow> bool" where
  "ihb_proper p \<longleftrightarrow>
     sid_lo (ihb_id p) < sid_hi (ihb_id p) \<and> d_lower (hb_desc (ihb_batch p)) \<le> d_upper (hb_desc (ihb_batch p)) \<and>
     hb_strict (ihb_batch p)"

definition sb_ok :: "'f :: bounded_lattice SpineBatch \<Rightarrow> bool" where
  "sb_ok b \<longleftrightarrow>
     sb_parts b \<noteq> [] \<and>
     chained ihb_lo ihb_hi (sb_lo b) (sb_parts b) (sb_hi b) \<and>
     (\<forall>p \<in> set (sb_parts b). ihb_proper p) \<and>
     sb_len b = sum_list (map ihb_len (sb_parts b))"

text \<open>The contents of a batch: its hollow batches that hold updates.\<close>

definition batch_data :: "'f SpineBatch \<Rightarrow> 'f IdHollowBatch list" where
  "batch_data b = filter (\<lambda>p. ihb_len p \<noteq> 0) (sb_parts b)"

definition batches_data :: "'f SpineBatch list \<Rightarrow> 'f IdHollowBatch list" where
  "batches_data bs = concat (map batch_data bs)"

lemma batches_data_simps [simp]:
  "batches_data [] = []"
  "batches_data (b # bs) = batch_data b @ batches_data bs"
  "batches_data (xs @ ys) = batches_data xs @ batches_data ys"
  by (simp_all add: batches_data_def)

lemma chained_map:
  "chained l u x (map g bs) y \<longleftrightarrow> chained (l \<circ> g) (u \<circ> g) x bs y"
  by (induction bs arbitrary: x) auto

lemma chained_fst:
  "chained ihb_lo ihb_hi x ps y \<Longrightarrow>
     chained (\<lambda>p. sid_lo (ihb_id p)) (\<lambda>p. sid_hi (ihb_id p)) (fst x) ps (fst y)"
  by (induction ps arbitrary: x) (auto simp: ihb_lo_def ihb_hi_def)

lemma chained_snd:
  "chained ihb_lo ihb_hi x ps y \<Longrightarrow>
     chained (\<lambda>p. d_lower (hb_desc (ihb_batch p))) (\<lambda>p. d_upper (hb_desc (ihb_batch p))) (snd x) ps (snd y)"
  by (induction ps arbitrary: x) (auto simp: ihb_lo_def ihb_hi_def)

lemma chained_proper:
  assumes "chained ihb_lo ihb_hi x ps y" and "\<forall>p \<in> set ps. ihb_proper p"
  shows "snd x \<le> snd y" and "ps \<noteq> [] \<Longrightarrow> fst x < fst y"
  using assms chained_le [OF chained_snd [OF assms(1)]] chained_less [OF chained_fst [OF assms(1)]]
  by (auto simp: ihb_proper_def)

lemma sb_ok_less: "sb_ok b \<Longrightarrow> sid_lo (sb_id b) < sid_hi (sb_id b) \<and> sb_lower b \<le> sb_upper b"
  using chained_proper [of "sb_lo b" "sb_parts b" "sb_hi b"] by (simp add: sb_ok_def sb_lo_def sb_hi_def)

lemma sb_ok_merged:
  "\<lbrakk>sid_lo i < sid_hi i; d_lower (hb_desc hb) \<le> d_upper (hb_desc hb);
    hb_strict hb\<rbrakk> \<Longrightarrow>
     sb_ok (SpineBatch_merged \<lparr>ihb_id = i, ihb_batch = hb\<rparr>)"
  by (simp add: sb_ok_def SpineBatch_merged_def ihb_lo_def ihb_hi_def sb_lo_def sb_hi_def ihb_proper_def)

lemma sb_ok_empty: "sid_lo i < sid_hi i \<Longrightarrow> l \<le> u \<Longrightarrow> sb_ok (SpineBatch_empty i l u s)"
  by (simp add: SpineBatch_empty_def sb_ok_merged HollowBatch_empty_def hb_strict_def)

lemma SpineBatch_empty_simps [simp]:
  "sb_id (SpineBatch_empty i l u s) = i"
  "sb_len (SpineBatch_empty i l u s) = 0"
  "sb_desc (SpineBatch_empty i l u s) = Description_new l u s"
  "batch_data (SpineBatch_empty i l u s) = []"
  by (simp_all add: SpineBatch_empty_def SpineBatch_merged_def HollowBatch_empty_def batch_data_def)

lemma SpineBatch_merged_simps [simp]:
  "sb_id (SpineBatch_merged p) = ihb_id p"
  "sb_len (SpineBatch_merged p) = ihb_len p"
  "sb_desc (SpineBatch_merged p) = hb_desc (ihb_batch p)"
  "sb_parts (SpineBatch_merged p) = [p]"
  by (simp_all add: SpineBatch_merged_def)

lemma batch_data_empty: "sb_ok b \<Longrightarrow> sb_len b = 0 \<Longrightarrow> batch_data b = []"
  by (auto simp: sb_ok_def batch_data_def filter_empty_conv)

lemma chained_concat_parts:
  assumes "chained sb_lo sb_hi x bs y" and "\<forall>b \<in> set bs. sb_ok b"
  shows "chained ihb_lo ihb_hi x (concat (map sb_parts bs)) y"
  using assms
proof (induction bs arbitrary: x)
  case Nil
  then show ?case by simp
next
  case (Cons b bs)
  then have "chained ihb_lo ihb_hi x (sb_parts b) (sb_hi b)"
    by (auto simp: sb_ok_def)
  moreover have "chained ihb_lo ihb_hi (sb_hi b) (concat (map sb_parts bs)) y"
    using Cons by auto
  ultimately show ?case by (auto simp: chained_append simp del: split_paired_Ex)
qed

lemma sum_len_parts:
  "\<forall>b \<in> set bs. sb_ok b \<Longrightarrow>
     sum_list (map sb_len bs) = sum_list (map ihb_len (concat (map sb_parts bs)))"
  by (induction bs) (auto simp: sb_ok_def)

subsection \<open>The invariant of a level\<close>

text \<open>
  \<open>level_str s m\<close>: the structure of a level of a spine with since \<open>s\<close>. \<open>level_fuel k v m\<close>:
  its place in the fueling argument, at index \<open>k\<close> with \<open>v\<close> virtual records below it.
\<close>

definition level_str :: "'f :: bounded_lattice \<Rightarrow> 'f MergeState \<Rightarrow> bool" where
  "level_str s m \<longleftrightarrow>
     length (ms_batches m) \<le> 2 \<and>
     (length (ms_batches m) = 2 \<longleftrightarrow> ms_merge m \<noteq> None) \<and>
     (\<forall>b \<in> set (ms_batches m). sb_ok b \<and> sb_since b \<le> s) \<and>
     (\<forall>im. ms_merge m = Some im \<longrightarrow>
        MergeState_id m = Some (ifm_id im) \<and> fm_since (ifm_merge im) \<le> s)"

definition level_fuel :: "nat \<Rightarrow> nat \<Rightarrow> 'f MergeState \<Rightarrow> bool" where
  "level_fuel k v m \<longleftrightarrow>
     (\<forall>b \<in> set (ms_batches m). sb_len b \<le> 2 ^ k) \<and>
     (\<forall>im. ms_merge m = Some im \<longrightarrow>
        fm_remaining_work (ifm_merge im) \<le> 2 ^ Suc k \<and> v < 2 ^ k \<and>
        4 * v + fm_remaining_work (ifm_merge im) \<le> 4 * 2 ^ k)"

definition levels_ok :: "'f :: bounded_lattice \<Rightarrow> (nat \<Rightarrow> 'f MergeState) \<Rightarrow> bool" where
  "levels_ok s f \<longleftrightarrow> (\<forall>k. level_str s (f k) \<and> level_fuel k (vrec f k) (f k))"

lemma level_str_default [simp]: "level_str s MergeState_default"
  by (simp add: level_str_def)

lemma level_fuel_default [simp]: "level_fuel k v MergeState_default"
  by (simp add: level_fuel_def)

lemma level_str_merge: "level_str s m \<Longrightarrow> length (ms_batches m) \<le> 1 \<Longrightarrow> ms_merge m = None"
  by (auto simp: level_str_def)

lemma level_fuel_mono: "level_fuel k v m \<Longrightarrow> v' \<le> v \<Longrightarrow> level_fuel k v' m"
  unfolding level_fuel_def by (meson add_le_mono le_less_trans le_trans mult_le_mono2 order_refl)

text \<open>A level with one more batch, and the merge that starts when it becomes full.\<close>

definition pushed :: "'f :: bounded_lattice \<Rightarrow> 'f MergeState \<Rightarrow> 'f SpineBatch \<Rightarrow> 'f MergeState" where
  "pushed s m b =
     \<lparr>ms_batches = ms_batches m @ [b],
      ms_merge = (if ms_batches m = [] then None else begin_merge (ms_batches m @ [b]) (Some s))\<rparr>"

lemma pushed_batches [simp]: "ms_batches (pushed s m b) = ms_batches m @ [b]"
  by (simp add: pushed_def)

lemma foldl_sup_le:
  fixes a :: "'a :: lattice"
  shows "foldl sup a xs \<le> c \<longleftrightarrow> a \<le> c \<and> (\<forall>x \<in> set xs. x \<le> c)"
  by (induction xs arbitrary: a) auto

lemma level_str_pushed:
  assumes "level_str s m" and "length (ms_batches m) \<le> 1" and "sb_ok b" and "sb_since b \<le> s"
  shows "level_str s (pushed s m b)"
proof (cases "ms_batches m")
  case Nil
  with assms show ?thesis by (simp add: level_str_def pushed_def)
next
  case (Cons a as)
  with assms have "as = []" by simp
  with Cons assms show ?thesis
    by (auto simp: level_str_def pushed_def begin_merge_def MergeState_id_def)
qed

lemma level_fuel_pushed:
  assumes "level_fuel k v m" and "length (ms_batches m) \<le> 1" and "sb_len b \<le> 2 ^ k"
    and "ms_batches m \<noteq> [] \<Longrightarrow> 2 * v \<le> 2 ^ k"
  shows "level_fuel k v (pushed s m b)"
proof (cases "ms_batches m")
  case Nil
  with assms show ?thesis by (simp add: level_fuel_def pushed_def)
next
  case (Cons a as)
  with assms have "as = []" by simp
  moreover have "v < 2 ^ k"
  proof -
    have "2 * v \<le> 2 ^ k" using Cons assms(4) by simp
    moreover have "(0 :: nat) < 2 ^ k" by simp
    ultimately show ?thesis by linarith
  qed
  ultimately show ?thesis
    using Cons assms by (auto simp: level_fuel_def pushed_def begin_merge_def)
qed

subsection \<open>Operations on one level\<close>

lemma MergeState_complete_ok:
  assumes str: "level_str s m" and chain: "chained sb_lo sb_hi x (ms_batches m) y"
    and ne: "ms_batches m \<noteq> []"
  obtains b log' where "MergeState_complete m log = Some (Some b, MergeState_default, log')"
    and "sb_ok b" and "sb_lo b = x" and "sb_hi b = y" and "sb_since b \<le> s"
    and "sb_len b = sum_list (map sb_len (ms_batches m))"
    and "batch_data b = batches_data (ms_batches m)"
proof (cases "length (ms_batches m) \<le> 1")
  case True
  with ne obtain b where "ms_batches m = [b]"
    by (cases "ms_batches m") auto
  with str chain that [of b log] show ?thesis
    by (simp add: MergeState_complete_def level_str_def)
next
  case False
  let ?bs = "ms_batches m"
  from False str obtain im where im: "ms_merge m = Some im" "fm_since (ifm_merge im) \<le> s"
    by (auto simp: level_str_def)
  have ok: "\<forall>b \<in> set ?bs. sb_ok b" using str by (simp add: level_str_def)
  define i where "i = SpineId (sid_lo (sb_id (hd ?bs))) (sid_hi (sb_id (last ?bs)))"
  define d where "d = Description_new (sb_lower (hd ?bs)) (sb_upper (last ?bs)) (fm_since (ifm_merge im))"
  have ends: "x = sb_lo (hd ?bs)" "y = sb_hi (last ?bs)"
    using chained_ends [OF chain ne] by auto
  have parts: "chained ihb_lo ihb_hi x (concat (map sb_parts ?bs)) y"
    using chain ok by (rule chained_concat_parts)
  have pne: "concat (map sb_parts ?bs) \<noteq> []"
    using ne ok by (cases ?bs) (auto simp: sb_ok_def)
  have pid: "\<forall>p \<in> set (concat (map sb_parts ?bs)). ihb_proper p"
    using ok by (auto simp: sb_ok_def)
  have less: "sid_lo i < sid_hi i" and le: "sb_lower (hd ?bs) \<le> sb_upper (last ?bs)"
    using chained_proper [OF parts pid] pne by (simp_all add: i_def ends sb_lo_def sb_hi_def)
  have len: "sum_list (map sb_len ?bs) = sum_list (map ihb_len (concat (map sb_parts ?bs)))"
    using ok by (rule sum_len_parts)
  show ?thesis
  proof (cases "list_all SpineBatch_is_empty ?bs")
    case True
    have "batches_data ?bs = []"
      using True ok by (auto simp: batches_data_def list_all_iff SpineBatch_is_empty_def batch_data_empty)
    moreover have "sum_list (map sb_len ?bs) = 0"
      using True by (simp add: list_all_iff SpineBatch_is_empty_def)
    moreover have "MergeState_complete m log = Some (Some (SpineBatch_empty i (sb_lower (hd ?bs)) (sb_upper (last ?bs)) (fm_since (ifm_merge im))), MergeState_default, log)"
      using False im True ne less
      by (simp add: MergeState_complete_def FuelingMerge_done_def i_def [symmetric] Let_def)
    ultimately show ?thesis
      using that [OF _ sb_ok_empty [OF less le]] im(2)
      by (simp add: ends sb_lo_def sb_hi_def i_def)
  next
    case nonempty: False
    define b where "b = \<lparr>sb_id = i, sb_desc = d, sb_parts = concat (map sb_parts ?bs),
      sb_active_compaction = None, sb_len = sum_list (map sb_len ?bs)\<rparr>"
    have "MergeState_complete m log = Some (Some b, MergeState_default,
        SpineLog_push \<lparr>req_id = i, req_desc = d, req_inputs = concat (map sb_parts ?bs)\<rparr> log)"
      using False im nonempty ne less
      by (simp add: MergeState_complete_def FuelingMerge_done_def i_def [symmetric] d_def [symmetric] b_def Let_def)
    moreover have lo: "sb_lo b = x" and hi: "sb_hi b = y"
      by (simp_all add: b_def ends sb_lo_def sb_hi_def i_def d_def)
    moreover have "sb_ok b"
      using parts pne pid len lo hi by (simp add: sb_ok_def b_def)
    moreover have "batch_data b = batches_data ?bs"
      by (simp add: batch_data_def [abs_def] batches_data_def b_def filter_concat comp_def)
    ultimately show ?thesis
      using that im(2) by (auto simp: b_def d_def)
  qed
qed

subsection \<open>Contents of a list of batches\<close>

text \<open>
  \<open>tiles x y D n bs\<close>: the batches lead from \<open>x\<close> to \<open>y\<close>, contain exactly the hollow
  batches \<open>D\<close>, in this order, and \<open>n\<close> updates. Merging neighbours keeps it.
\<close>

definition tiles ::
  "nat \<times> 'f \<Rightarrow> nat \<times> 'f \<Rightarrow> 'f IdHollowBatch list \<Rightarrow> nat \<Rightarrow> 'f SpineBatch list \<Rightarrow> bool" where
  "tiles x y D n bs \<longleftrightarrow>
     chained sb_lo sb_hi x bs y \<and> batches_data bs = D \<and> sum_list (map sb_len bs) = n"

lemma tiles_merge:
  assumes "tiles x y D n (as @ bs @ cs)" and "bs \<noteq> []"
    and "sb_lo b = sb_lo (hd bs)" and "sb_hi b = sb_hi (last bs)"
    and "batch_data b = batches_data bs" and "sb_len b = sum_list (map sb_len bs)"
  shows "tiles x y D n (as @ b # cs)"
  using assms chained_replace [of sb_lo sb_hi x as bs cs y b] by (auto simp: tiles_def)

lemma tiles_mid: "tiles x y D n (as @ bs @ cs) \<Longrightarrow> \<exists>x' y'. chained sb_lo sb_hi x' bs y'"
  unfolding tiles_def chained_append by blast

lemma chained_adjacent:
  "chained l u x (as @ bs @ c # cs) y \<Longrightarrow> bs \<noteq> [] \<Longrightarrow> u (last bs) = l c"
  by (auto simp: chained_append dest: chained_ends)

lemma tiles_adjacent: "tiles x y D n (as @ bs @ b # cs) \<Longrightarrow> bs \<noteq> [] \<Longrightarrow> sb_hi (last bs) = sb_lo b"
  unfolding tiles_def by (blast dest: chained_adjacent)

subsection \<open>Operations on the list of levels\<close>

lemma insert_at_ok:
  assumes "level_str s (lvl (sp_merging sp) i)" and "length (ms_batches (lvl (sp_merging sp) i)) \<le> 1"
    and "ms_batches (lvl (sp_merging sp) i) \<noteq> [] \<Longrightarrow> sb_hi (last (ms_batches (lvl (sp_merging sp) i))) = sb_lo b"
  shows "insert_at sp b i =
    Some (sp\<lparr>sp_merging := (ensure_levels i (sp_merging sp))[i := pushed (sp_since sp) (lvl (sp_merging sp) i) b]\<rparr>)"
proof -
  let ?m = "lvl (sp_merging sp) i"
  have none: "ms_merge ?m = None" using assms(1,2) by (rule level_str_merge)
  then have "push_batch ?m b = Some (?m\<lparr>ms_batches := ms_batches ?m @ [b]\<rparr>)"
    using assms(2,3)
    by (cases "ms_batches ?m")
      (auto simp: push_batch_def try_push_batch_def Let_def sb_lo_def sb_hi_def BATCHES_PER_LEVEL_def)
  moreover have "(let m = ?m\<lparr>ms_batches := ms_batches ?m @ [b]\<rparr>
      in if length (ms_batches m) = BATCHES_PER_LEVEL
         then m\<lparr>ms_merge := begin_merge (ms_batches m) (Some (sp_since sp))\<rparr> else m)
      = pushed (sp_since sp) ?m b"
    using none assms(2)
    by (cases "ms_batches ?m") (auto simp: BATCHES_PER_LEVEL_def pushed_def)
  ultimately show ?thesis
    by (simp add: insert_at_def Let_def)
qed

text \<open>
  Inserting at a level with room: where the batch fits the chain at the end of that level,
  it is there afterwards and nothing else changes.
\<close>

lemma insert_at_tiles:
  fixes sp :: "'f :: bounded_lattice Spine"
  defines "E \<equiv> \<lambda>i. ensure_levels i (sp_merging sp)"
  assumes "level_str s (lvl (sp_merging sp) i)" and "length (ms_batches (lvl (sp_merging sp) i)) \<le> 1"
    and "tiles x y D n (level_batches (drop (Suc i) (E i)) @ ms_batches (lvl (sp_merging sp) i) @
           b # level_batches (take i (E i)))"
  obtains ms' where "insert_at sp b i = Some (sp\<lparr>sp_merging := ms'\<rparr>)"
    and "lvl ms' = (lvl (sp_merging sp))(i := pushed (sp_since sp) (lvl (sp_merging sp) i) b)"
    and "length ms' = max (length (sp_merging sp)) (Suc i)" and "tiles x y D n (level_batches ms')"
proof -
  let ?ms' = "(E i)[i := pushed (sp_since sp) (lvl (sp_merging sp) i) b]"
  have "insert_at sp b i = Some (sp\<lparr>sp_merging := ?ms'\<rparr>)"
    using insert_at_ok [OF assms(2,3), of b] tiles_adjacent [OF assms(4)] by (simp add: E_def)
  moreover have "tiles x y D n (level_batches ?ms')"
    using assms(4) by (simp add: level_batches_update E_def)
  ultimately show ?thesis
    using that [of ?ms'] by (simp add: E_def lvl_update)
qed

lemma ensure_levels_update:
  "i < length ms \<Longrightarrow> ensure_levels j (ms[i := m]) = (ensure_levels j ms)[i := m]"
  by (simp add: ensure_levels_def list_update_append)

lemma level_batches_split2:
  assumes "Suc i < length ms"
  shows "level_batches ms = level_batches (drop (i + 2) ms) @ ms_batches (ms ! Suc i) @
    ms_batches (ms ! i) @ level_batches (take i ms)"
proof -
  have "take (Suc i) ms = take i ms @ [ms ! i]"
    using assms by (simp add: take_Suc_conv_app_nth)
  then show ?thesis using level_batches_split [OF assms] by simp
qed

lemma level_batches_update2:
  assumes "Suc i < length ms"
  shows "level_batches (ms[i := a, Suc i := b]) = level_batches (drop (i + 2) ms) @ ms_batches b @
    ms_batches a @ level_batches (take i ms)"
  using level_batches_split2 [of i "ms[i := a, Suc i := b]"] assms by simp

lemma levels_ok_promote:
  assumes ok: "levels_ok s f" and im: "ms_merge (f k) = Some im"
    and b: "sb_ok b" "sb_since b \<le> s" "sb_len b \<le> 2 ^ Suc k"
  shows "length (ms_batches (f (Suc k))) \<le> 1"
    and "levels_ok s (f(k := MergeState_default, Suc k := pushed s (f (Suc k)) b))"
proof -
  let ?g = "f(k := MergeState_default)"
  let ?h = "?g(Suc k := pushed s (f (Suc k)) b)"
  have str: "level_str s (f j)" and fuel: "level_fuel j (vrec f j) (f j)" for j
    using ok by (auto simp: levels_ok_def)
  have two: "length (ms_batches (f k)) = 2"
    using str [of k] im by (auto simp: level_str_def)
  have "ms_merge (f (Suc k)) = None"
    using fuel [of "Suc k"] two by (auto simp: level_fuel_def)
  then show single: "length (ms_batches (f (Suc k))) \<le> 1"
    using str [of "Suc k"] by (auto simp: level_str_def)
  have low: "vrec ?h j = vrec f j" if "j \<le> k" for j
    using that by (simp add: vrec_upd_ge del: fun_upd_apply)
  have mid: "vrec ?h (Suc k) = vrec f k"
    using low [of k] by simp
  have high: "vrec ?h j = vrec f j" if "Suc k < j" for j
    using that vrec_upd_lt [of k j f MergeState_default]
      vrec_upd_lt [of "Suc k" j ?g "pushed s (f (Suc k)) b"] two by simp
  have v: "vrec f k < 2 ^ k"
    using fuel [of k] im by (auto simp: level_fuel_def)
  have new: "level_fuel (Suc k) (vrec f k) (pushed s (f (Suc k)) b)"
    using single b v by (intro level_fuel_pushed level_fuel_mono [OF fuel]) auto
  have "level_str s (?h j) \<and> level_fuel j (vrec ?h j) (?h j)" for j
  proof (cases "j = k \<or> j = Suc k")
    case True
    then show ?thesis
      using new mid level_str_pushed [OF str single b(1,2)] by auto
  next
    case False
    then have "vrec ?h j = vrec f j" using low [of j] high [of j] by linarith
    with False str fuel show ?thesis by simp
  qed
  then show "levels_ok s ?h" by (simp add: levels_ok_def del: fun_upd_apply)
qed

lemma sum_two_le:
  "length bs = 2 \<Longrightarrow> \<forall>b \<in> set bs. sb_len b \<le> 2 ^ i \<Longrightarrow> sum_list (map sb_len bs) \<le> 2 ^ Suc i"
  by (auto simp: numeral_2_eq_2 length_Suc_conv)

lemma complete_at_ok:
  assumes "i < length (sp_merging sp)" and "level_str s (sp_merging sp ! i)"
    and "chained sb_lo sb_hi x (ms_batches (sp_merging sp ! i)) y"
    and "ms_batches (sp_merging sp ! i) \<noteq> []"
  obtains b log' where
    "complete_at sp i log = Some (Some b, sp\<lparr>sp_merging := (sp_merging sp)[i := MergeState_default]\<rparr>, log')"
    and "sb_ok b" and "sb_lo b = x" and "sb_hi b = y" and "sb_since b \<le> s"
    and "sb_len b = sum_list (map sb_len (ms_batches (sp_merging sp ! i)))"
    and "batch_data b = batches_data (ms_batches (sp_merging sp ! i))"
proof -
  from MergeState_complete_ok [OF assms(2-4), of log] obtain b log'
    where b: "MergeState_complete (sp_merging sp ! i) log = Some (Some b, MergeState_default, log')"
      "sb_ok b" "sb_lo b = x" "sb_hi b = y" "sb_since b \<le> s"
      "sb_len b = sum_list (map sb_len (ms_batches (sp_merging sp ! i)))"
      "batch_data b = batches_data (ms_batches (sp_merging sp ! i))"
    by blast
  show ?thesis
    using b assms(1) by (intro that [of b log']) (simp_all add: complete_at_def)
qed

lemma promote_ok:
  assumes i: "i < length (sp_merging sp)" and ok: "levels_ok (sp_since sp) (lvl (sp_merging sp))"
    and im: "ms_merge (sp_merging sp ! i) = Some im"
    and tiles: "tiles x y D n (level_batches (sp_merging sp))"
  obtains b sp2 log' ms' where "complete_at sp i log = Some (Some b, sp2, log')"
    and "insert_at sp2 b (Suc i) = Some (sp\<lparr>sp_merging := ms'\<rparr>)"
    and "levels_ok (sp_since sp) (lvl ms')" and "tiles x y D n (level_batches ms')"
    and "length (sp_merging sp) \<le> length ms'"
    and "lvl ms' = (lvl (sp_merging sp))(i := MergeState_default,
           Suc i := pushed (sp_since sp) (lvl (sp_merging sp) (Suc i)) b)"
proof -
  let ?s = "sp_since sp" and ?ms = "sp_merging sp" and ?E = "ensure_levels (Suc i) (sp_merging sp)"
  let ?Q = "ms_batches (?ms ! i)" and ?Q' = "ms_batches (lvl ?ms (Suc i))"
  have str: "level_str ?s (lvl ?ms j)" and fuel: "level_fuel j (vrec (lvl ?ms) j) (lvl ?ms j)" for j
    using ok by (auto simp: levels_ok_def)
  have Ei: "?E ! i = ?ms ! i"
    using i by (simp add: ensure_levels_def nth_append)
  have two: "length ?Q = 2" using str [of i] i im by (auto simp: level_str_def)
  then have ne: "?Q \<noteq> []" by auto
  have split: "tiles x y D n ((level_batches (drop (i + 2) ?E) @ ?Q') @ ?Q @ level_batches (take i ?E))"
    using tiles level_batches_split2 [of i ?E] i Ei by (simp add: max_def)
  then obtain x' y' where chain: "chained sb_lo sb_hi x' ?Q y'"
    using tiles_mid by blast
  define sp2 where "sp2 = sp\<lparr>sp_merging := ?ms[i := MergeState_default]\<rparr>"
  have "level_str ?s (?ms ! i)" using str [of i] i by simp
  with complete_at_ok [OF i _ chain ne, of ?s log] obtain b log'
    where b: "complete_at sp i log = Some (Some b, sp2, log')" "sb_ok b" "sb_since b \<le> ?s"
      "sb_len b = sum_list (map sb_len ?Q)" "sb_lo b = x'" "sb_hi b = y'" "batch_data b = batches_data ?Q"
    unfolding sp2_def by blast
  have len: "sb_len b \<le> 2 ^ Suc i"
    using sum_two_le [OF two] fuel [of i] i b(4) by (simp add: level_fuel_def)
  note promote = levels_ok_promote [OF ok, of i im b, simplified i lvl_nth, OF im b(2,3) len]
  have same: "sp_since sp2 = ?s" "lvl (sp_merging sp2) = (lvl ?ms)(i := MergeState_default)"
    "length (sp_merging sp2) = length ?ms" "ensure_levels (Suc i) (sp_merging sp2) = ?E[i := MergeState_default]"
    using i by (simp_all add: sp2_def lvl_update ensure_levels_update)
  have "tiles x y D n ((level_batches (drop (i + 2) ?E) @ ?Q') @ b # level_batches (take i ?E))"
    using tiles_merge [OF split ne] chained_ends [OF chain ne] b by auto
  then have "tiles x y D n (level_batches (drop (Suc (Suc i)) (?E[i := MergeState_default])) @ ?Q' @
      b # level_batches (take (Suc i) (?E[i := MergeState_default])))"
    using i by (simp add: take_Suc_conv_app_nth)
  then have t: "tiles x y D n (level_batches (drop (Suc (Suc i)) (ensure_levels (Suc i) (sp_merging sp2))) @
      ms_batches (lvl (sp_merging sp2) (Suc i)) @ b # level_batches (take (Suc i) (ensure_levels (Suc i) (sp_merging sp2))))"
    by (simp add: same)
  obtain ms' where "insert_at sp2 b (Suc i) = Some (sp2\<lparr>sp_merging := ms'\<rparr>)"
    "lvl ms' = (lvl ?ms)(i := MergeState_default, Suc i := pushed ?s (lvl ?ms (Suc i)) b)"
    "length ?ms \<le> length ms'" "tiles x y D n (level_batches ms')"
    using same str promote(1) by (auto intro: insert_at_tiles [OF _ _ t, of ?s])
  with b(1) promote(2) show ?thesis
    by (intro that [of b sp2 log' ms']) (simp_all add: sp2_def)
qed

subsection \<open>Applying fuel\<close>

lemma work_batches [simp]: "ms_batches (fst (MergeState_work m fuel)) = ms_batches m"
  by (simp add: MergeState_work_def split: option.splits prod.splits)

lemma work_none: "ms_merge m = None \<Longrightarrow> MergeState_work m fuel = (m, fuel)"
  by (simp add: MergeState_work_def)

lemma work_some:
  "ms_merge m = Some im \<Longrightarrow>
     ms_merge (fst (MergeState_work m fuel)) =
       Some (im\<lparr>ifm_merge := (ifm_merge im)\<lparr>fm_remaining_work :=
         fm_remaining_work (ifm_merge im) - min (nat fuel) (fm_remaining_work (ifm_merge im))\<rparr>\<rparr>)"
  by (simp add: MergeState_work_def FuelingMerge_work_def Let_def)

lemma level_str_work: "level_str s m \<Longrightarrow> level_str s (fst (MergeState_work m fuel))"
  by (cases "ms_merge m") (auto simp: level_str_def work_none work_some MergeState_id_def)

lemma level_fuel_work: "level_fuel k v m \<Longrightarrow> level_fuel k v (fst (MergeState_work m fuel))"
  by (cases "ms_merge m") (auto simp: level_fuel_def work_none work_some)

lemma levels_ok_work:
  assumes "levels_ok s f"
  shows "levels_ok s (f(k := fst (MergeState_work (f k) fuel)))"
proof -
  have "vrec (f(k := fst (MergeState_work (f k) fuel))) j = vrec f j" for j
    by (rule vrec_cong) simp
  with assms show ?thesis
    by (auto simp: levels_ok_def level_str_work level_fuel_work)
qed

text \<open>
  \<open>slack F f j\<close>: a merge in progress at level \<open>j\<close> has just received \<open>F\<close> units of fuel and
  was not finished by them.
\<close>

definition slack :: "nat \<Rightarrow> (nat \<Rightarrow> 'f MergeState) \<Rightarrow> nat \<Rightarrow> bool" where
  "slack F f j \<longleftrightarrow>
     (\<forall>im. ms_merge (f j) = Some im \<longrightarrow>
        0 < fm_remaining_work (ifm_merge im) \<and>
        fm_remaining_work (ifm_merge im) + F \<le> 2 ^ Suc j \<and>
        4 * vrec f j + fm_remaining_work (ifm_merge im) + F \<le> 4 * 2 ^ j)"

lemma slack_cong: "f j = g j \<Longrightarrow> vrec f j = vrec g j \<Longrightarrow> slack F f j = slack F g j"
  by (simp add: slack_def)

lemma slack_work:
  assumes "level_fuel k (vrec f k) (f k)" and "\<not> is_complete (fst (MergeState_work (f k) fuel))"
  shows "slack (nat fuel) (f(k := fst (MergeState_work (f k) fuel))) k"
proof (cases "ms_merge (f k)")
  case None
  then show ?thesis by (simp add: slack_def work_none)
next
  case (Some im)
  let ?w = "fm_remaining_work (ifm_merge im)"
  have "nat fuel < ?w"
    using Some assms(2) by (simp add: is_complete_def work_some min_def split: if_splits)
  moreover have "vrec (f(k := fst (MergeState_work (f k) fuel))) k = vrec f k"
    by (rule vrec_upd_ge) simp
  ultimately show ?thesis
    using Some assms(1) by (auto simp: slack_def work_some level_fuel_def)
qed

definition applied ::
  "nat \<Rightarrow> nat \<Rightarrow> 'f :: bounded_lattice \<Rightarrow> nat \<times> 'f \<Rightarrow> nat \<times> 'f \<Rightarrow> 'f IdHollowBatch list \<Rightarrow> nat
     \<Rightarrow> 'f MergeState list \<Rightarrow> bool" where
  "applied F i s x y D n ms \<longleftrightarrow>
     levels_ok s (lvl ms) \<and> tiles x y D n (level_batches ms) \<and> (\<forall>j < i. slack F (lvl ms) j)"

lemma apply_fuel_from_ok:
  assumes "i \<le> N" and "N \<le> length (sp_merging sp)"
    and "applied (nat fuel) i (sp_since sp) x y D n (sp_merging sp)"
    and "\<forall>j \<ge> N. (i < N \<longrightarrow> ms_batches (lvl (sp_merging sp) j) = []) \<and> ms_merge (lvl (sp_merging sp) j) = None"
  shows "\<exists>ms' log'. apply_fuel_from [i..<N] sp fuel log = Some (sp\<lparr>sp_merging := ms'\<rparr>, log') \<and>
    applied (nat fuel) N (sp_since sp) x y D n ms' \<and> (\<forall>j \<ge> N. ms_merge (lvl ms' j) = None)"
  using assms
proof (induction "N - i" arbitrary: i sp log)
  case 0
  then show ?case by (intro exI [of _ "sp_merging sp"]) simp
next
  case (Suc k)
  then have i: "i < N" "i < length (sp_merging sp)" and upt: "[i..<N] = i # [Suc i..<N]"
    by (auto simp: upt_conv_Cons)
  let ?ms = "sp_merging sp" and ?s = "sp_since sp"
  define m where "m = fst (MergeState_work (?ms ! i) fuel)"
  define sp1 where "sp1 = sp\<lparr>sp_merging := ?ms[i := m]\<rparr>"
  have ok: "levels_ok ?s (lvl ?ms)" and tiles: "tiles x y D n (level_batches ?ms)"
    and slack: "\<forall>j < i. slack (nat fuel) (lvl ?ms) j"
    using Suc.prems(3) by (auto simp: applied_def)
  have lvl1: "lvl (sp_merging sp1) = (lvl ?ms)(i := m)"
    using i by (simp add: sp1_def lvl_update)
  have ok1: "levels_ok (sp_since sp1) (lvl (sp_merging sp1))"
    using levels_ok_work [OF ok, of i fuel] i lvl1 by (simp add: m_def sp1_def)
  have tiles1: "tiles x y D n (level_batches (sp_merging sp1))"
    using tiles level_batches_split [OF i(2)] i by (simp add: sp1_def level_batches_update m_def)
  have slack1: "slack (nat fuel) (lvl (sp_merging sp1)) j" if "j < i" for j
    using slack that slack_cong [of "(lvl ?ms)(i := m)" j "lvl ?ms"] by (simp add: lvl1 vrec_upd_ge)
  have step: "apply_fuel_from [i..<N] sp fuel log =
      (if is_complete m then do {
           (complete, sp2, log') \<leftarrow> complete_at sp1 i log;
           batch \<leftarrow> complete;
           sp3 \<leftarrow> insert_at sp2 batch (i + 1);
           apply_fuel_from [Suc i..<N] sp3 fuel log'
         }
         else apply_fuel_from [Suc i..<N] sp1 fuel log)"
    by (simp add: upt m_def sp1_def split_def Let_def)
  show ?case
  proof (cases "is_complete m")
    case False
    have "level_fuel i (vrec (lvl ?ms) i) (?ms ! i)"
      using ok i by (metis levels_ok_def lvl_nth)
    then have "slack (nat fuel) (lvl (sp_merging sp1)) i"
      using slack_work [of i "lvl ?ms" fuel] i False lvl1 by (simp add: m_def)
    then have "applied (nat fuel) (Suc i) (sp_since sp1) x y D n (sp_merging sp1)"
      using ok1 tiles1 slack1 by (auto simp: applied_def less_Suc_eq)
    moreover have "\<forall>j \<ge> N. ms_batches (lvl (sp_merging sp1) j) = [] \<and> ms_merge (lvl (sp_merging sp1) j) = None"
      using Suc.prems(4) i by (simp add: lvl1)
    ultimately show ?thesis
      using Suc.hyps(1) [of "Suc i" sp1 log] Suc.hyps(2) Suc.prems(2) i False step by (auto simp: sp1_def)
  next
    case True
    then obtain im where im: "ms_merge (sp_merging sp1 ! i) = Some im"
      using i by (auto simp: sp1_def is_complete_def split: option.splits)
    have i1: "i < length (sp_merging sp1)" using i by (simp add: sp1_def)
    obtain b sp2 log' ms' where p: "complete_at sp1 i log = Some (Some b, sp2, log')"
      "insert_at sp2 b (Suc i) = Some (sp1\<lparr>sp_merging := ms'\<rparr>)" "levels_ok ?s (lvl ms')"
      "tiles x y D n (level_batches ms')" "length ?ms \<le> length ms'"
      "lvl ms' = (lvl (sp_merging sp1))(i := MergeState_default, Suc i := pushed ?s (lvl (sp_merging sp1) (Suc i)) b)"
      by (rule promote_ok [OF i1 ok1 im tiles1, of log]) (auto simp: sp1_def)
    have "slack (nat fuel) (lvl ms') j" if "j < Suc i" for j
      using that slack1 [of j] slack_cong [of "lvl ms'" j "lvl (sp_merging sp1)"]
      by (cases "j = i") (auto simp: p(6) slack_def vrec_upd_ge)
    then have "applied (nat fuel) (Suc i) ?s x y D n ms'"
      using p(3,4) by (simp add: applied_def)
    moreover have "\<forall>j \<ge> N. (Suc i < N \<longrightarrow> ms_batches (lvl ms' j) = []) \<and> ms_merge (lvl ms' j) = None"
      using Suc.prems(4) i by (auto simp: p(6) lvl1 pushed_def)
    ultimately show ?thesis
      using Suc.hyps(1) [of "Suc i" "sp1\<lparr>sp_merging := ms'\<rparr>" log'] Suc.hyps(2) Suc.prems(2) i True step p(1,2,5)
      by (auto simp: sp1_def)
  qed
qed

lemma apply_fuel_ok:
  assumes "levels_ok (sp_since sp) (lvl (sp_merging sp))" and "tiles x y D n (level_batches (sp_merging sp))"
  obtains ms' log' where "apply_fuel sp fuel log = Some (sp\<lparr>sp_merging := ms'\<rparr>, log')"
    and "levels_ok (sp_since sp) (lvl ms')" and "tiles x y D n (level_batches ms')"
    and "\<forall>j. slack (nat fuel) (lvl ms') j"
proof -
  let ?N = "length (sp_merging sp)"
  obtain ms' log' where *: "apply_fuel_from [0..<?N] sp fuel log = Some (sp\<lparr>sp_merging := ms'\<rparr>, log')"
    "applied (nat fuel) ?N (sp_since sp) x y D n ms'" "\<forall>j \<ge> ?N. ms_merge (lvl ms' j) = None"
    using apply_fuel_from_ok [of 0 ?N sp fuel x y D n log] assms by (auto simp: applied_def)
  have "slack (nat fuel) (lvl ms') j" for j
    using * by (cases "j < ?N") (auto simp: applied_def slack_def)
  with * show ?thesis
    by (intro that [of ms' log']) (auto simp: apply_fuel_def applied_def)
qed

subsection \<open>Working at the lowest occupied level\<close>

definition opt_list :: "'a option \<Rightarrow> 'a list" where
  "opt_list x = (case x of None \<Rightarrow> [] | Some a \<Rightarrow> [a])"

lemma opt_list_simps [simp]: "opt_list None = []" "opt_list (Some a) = [a]"
  by (simp_all add: opt_list_def)

lemma level_batches_above:
  assumes "\<forall>j < i. ms_batches (lvl ms j) = []" and "i < length ms"
  shows "level_batches (take i ms) = []"
    and "level_batches ms = level_batches (drop (Suc i) ms) @ ms_batches (lvl ms i)"
proof -
  show "level_batches (take i ms) = []"
    using assms by (intro level_batches_vacant) auto
  then show "level_batches ms = level_batches (drop (Suc i) ms) @ ms_batches (lvl ms i)"
    using level_batches_split [OF assms(2)] assms(2) by simp
qed

lemma insert_bottom:
  assumes "\<forall>j < i. ms_batches (lvl (sp_merging sp) j) = []" and "level_str s (lvl (sp_merging sp) i)"
    and "length (ms_batches (lvl (sp_merging sp) i)) \<le> 1"
    and "tiles x y D n (level_batches (sp_merging sp) @ [b])"
  obtains ms' where "insert_at sp b i = Some (sp\<lparr>sp_merging := ms'\<rparr>)"
    and "lvl ms' = (lvl (sp_merging sp))(i := pushed (sp_since sp) (lvl (sp_merging sp) i) b)"
    and "length ms' = max (length (sp_merging sp)) (Suc i)" and "tiles x y D n (level_batches ms')"
proof -
  let ?E = "ensure_levels i (sp_merging sp)"
  have "i < length ?E" and "\<forall>j < i. ms_batches (lvl ?E j) = []" using assms(1) by simp_all
  then have "level_batches (take i ?E) = []"
    and "level_batches ?E = level_batches (drop (Suc i) ?E) @ ms_batches (lvl ?E i)"
    by (blast dest: level_batches_above)+
  then have "tiles x y D n (level_batches (drop (Suc i) ?E) @ ms_batches (lvl (sp_merging sp) i) @
      b # level_batches (take i ?E))"
    using assms(4) by simp
  from insert_at_tiles [OF assms(2,3) this] show ?thesis using that by blast
qed

lemma complete_bottom:
  assumes "i < length (sp_merging sp)" and "\<forall>j < i. ms_batches (lvl (sp_merging sp) j) = []"
    and "level_str s (lvl (sp_merging sp) i)" and "tiles x y D n (level_batches (sp_merging sp))"
  obtains merged log' where
    "complete_at sp i log = Some (merged, sp\<lparr>sp_merging := (sp_merging sp)[i := MergeState_default]\<rparr>, log')"
    and "tiles x y D n (level_batches ((sp_merging sp)[i := MergeState_default]) @ opt_list merged)"
    and "merged = None \<longleftrightarrow> ms_batches (lvl (sp_merging sp) i) = []"
    and "\<forall>b. merged = Some b \<longrightarrow> sb_ok b \<and> sb_since b \<le> s \<and>
           sb_len b = sum_list (map sb_len (ms_batches (lvl (sp_merging sp) i)))"
proof -
  let ?ms = "sp_merging sp" and ?Q = "ms_batches (sp_merging sp ! i)"
  note above = level_batches_above [OF assms(2,1)]
  show ?thesis
  proof (cases "?Q = []")
    case True
    with assms above show ?thesis
      by (intro that [of None log])
        (auto simp: complete_at_def MergeState_complete_def level_batches_update)
  next
    case False
    have t: "tiles x y D n (level_batches (drop (Suc i) ?ms) @ ?Q @ [])"
      using assms above by simp
    then obtain x' y' where chain: "chained sb_lo sb_hi x' ?Q y'" using tiles_mid by blast
    obtain b log' where b: "complete_at sp i log = Some (Some b, sp\<lparr>sp_merging := ?ms[i := MergeState_default]\<rparr>, log')"
      "sb_ok b" "sb_lo b = x'" "sb_hi b = y'" "sb_since b \<le> s" "sb_len b = sum_list (map sb_len ?Q)"
      "batch_data b = batches_data ?Q"
      using assms(1,3) by (auto intro: complete_at_ok [OF assms(1) _ chain False, of s log])
    have "tiles x y D n (level_batches (drop (Suc i) ?ms) @ [b])"
      using tiles_merge [OF t False] chained_ends [OF chain False] b by auto
    with b False assms(1) above(1) show ?thesis
      by (intro that [of "Some b" log']) (simp_all add: level_batches_update)
  qed
qed

lemma level_str_vacant: "level_str s m \<Longrightarrow> ms_batches m = [] \<Longrightarrow> m = MergeState_default"
  using level_str_merge [of s m] by (cases m) (simp add: MergeState_default_def)

subsection \<open>Rolling up\<close>

definition small :: "'f :: bounded_lattice \<Rightarrow> nat \<Rightarrow> 'f MergeState \<Rightarrow> bool" where
  "small s j m \<longleftrightarrow>
     level_str s m \<and> length (ms_batches m) \<le> 1 \<and> (\<forall>b \<in> set (ms_batches m). sb_len b \<le> 2 ^ j)"

definition floating :: "'f :: bounded_lattice \<Rightarrow> nat \<Rightarrow> 'f SpineBatch option \<Rightarrow> bool" where
  "floating s j merged \<longleftrightarrow>
     (\<forall>b. merged = Some b \<longrightarrow> sb_ok b \<and> sb_since b \<le> s \<and> sb_len b \<le> 2 ^ j)"

lemma sum_small: "small s j m \<Longrightarrow> sum_list (map sb_len (ms_batches m)) \<le> 2 ^ j"
  by (cases "ms_batches m") (auto simp: small_def)

lemma small_of_ok:
  assumes "levels_ok s f" and "ms_merge (f j) = None"
  shows "small s j (f j)"
proof -
  have "level_str s (f j)" and "level_fuel j (vrec f j) (f j)"
    using assms by (auto simp: levels_ok_def)
  moreover have "length (ms_batches (f j)) \<le> 1"
    using calculation(1) assms(2) by (auto simp: level_str_def le_Suc_eq numeral_2_eq_2)
  ultimately show ?thesis by (auto simp: small_def level_fuel_def)
qed

lemma roll_up_from_ok:
  assumes "l \<le> i" and "i < length (sp_merging sp)"
    and "\<forall>j < l. lvl (sp_merging sp) j = MergeState_default"
    and "\<forall>j < i. small (sp_since sp) j (lvl (sp_merging sp) j)"
    and "tiles x y D n (level_batches (sp_merging sp) @ opt_list merged)"
    and "floating (sp_since sp) l merged"
  shows "\<exists>merged' ms' log'. roll_up_from [l..<i] merged sp log = Some (merged', sp\<lparr>sp_merging := ms'\<rparr>, log') \<and>
    lvl ms' = (\<lambda>j. if j < i then MergeState_default else lvl (sp_merging sp) j) \<and>
    length ms' = length (sp_merging sp) \<and>
    tiles x y D n (level_batches ms' @ opt_list merged') \<and> floating (sp_since sp) i merged' \<and>
    (merged' = None \<longleftrightarrow> merged = None \<and> (\<forall>j < i. ms_batches (lvl (sp_merging sp) j) = []))"
  using assms
proof (induction "i - l" arbitrary: l sp merged log)
  case 0
  then have "l = i" by simp
  then have "lvl (sp_merging sp) = (\<lambda>j. if j < i then MergeState_default else lvl (sp_merging sp) j)"
    using 0 by auto
  with 0 \<open>l = i\<close> show ?case
    by (intro exI [of _ merged] exI [of _ "sp_merging sp"] exI [of _ log]) auto
next
  case (Suc k)
  let ?ms = "sp_merging sp" and ?s = "sp_since sp"
  from Suc have l: "l < i" "l < length ?ms" and upt: "[l..<i] = l # [Suc l..<i]"
    by (auto simp: upt_conv_Cons)
  have sm: "small ?s l (lvl ?ms l)" using Suc.prems(4) l by blast
  obtain ms1 where ins: "(case merged of Some b \<Rightarrow> insert_at sp b l | None \<Rightarrow> Some sp) = Some (sp\<lparr>sp_merging := ms1\<rparr>)"
    and ms1: "length ms1 = length ?ms" "\<forall>j. j \<noteq> l \<longrightarrow> lvl ms1 j = lvl ?ms j" "level_str ?s (lvl ms1 l)"
      "tiles x y D n (level_batches ms1)" "ms_batches (lvl ms1 l) = ms_batches (lvl ?ms l) @ opt_list merged"
  proof (cases merged)
    case None
    with Suc.prems(5) sm show ?thesis by (intro that [of ?ms]) (auto simp: small_def)
  next
    case (Some b)
    have b: "sb_ok b" "sb_since b \<le> ?s" using Suc.prems(6) Some by (auto simp: floating_def)
    have "\<forall>j < l. ms_batches (lvl ?ms j) = []" using Suc.prems(3) by simp
    with insert_bottom [of l sp ?s x y D n b] Suc.prems(5) Some sm obtain ms' where
      "insert_at sp b l = Some (sp\<lparr>sp_merging := ms'\<rparr>)" "lvl ms' = (lvl ?ms)(l := pushed ?s (lvl ?ms l) b)"
      "length ms' = max (length ?ms) (Suc l)" "tiles x y D n (level_batches ms')"
      by (auto simp: small_def)
    with Some sm b l show ?thesis
      by (intro that [of ms']) (auto simp: small_def intro: level_str_pushed)
  qed
  have "\<forall>j < l. ms_batches (lvl ms1 j) = []" using Suc.prems(3) ms1(2) by simp
  with complete_bottom [of l "sp\<lparr>sp_merging := ms1\<rparr>" ?s x y D n log] ms1 l
  obtain merged1 log1 where c:
    "complete_at (sp\<lparr>sp_merging := ms1\<rparr>) l log = Some (merged1, sp\<lparr>sp_merging := ms1[l := MergeState_default]\<rparr>, log1)"
    "tiles x y D n (level_batches (ms1[l := MergeState_default]) @ opt_list merged1)"
    "merged1 = None \<longleftrightarrow> ms_batches (lvl ms1 l) = []"
    "\<forall>b. merged1 = Some b \<longrightarrow> sb_ok b \<and> sb_since b \<le> ?s \<and> sb_len b = sum_list (map sb_len (ms_batches (lvl ms1 l)))"
    by auto
  let ?sp2 = "sp\<lparr>sp_merging := ms1[l := MergeState_default]\<rparr>"
  have lvl2: "lvl (ms1[l := MergeState_default]) = (lvl ?ms)(l := MergeState_default)"
    using l ms1 by (auto simp: lvl_update fun_eq_iff)
  have "floating ?s (Suc l) merged1"
    using c(4) ms1(5) sum_small [OF sm] Suc.prems(6) by (cases merged) (fastforce simp: floating_def)+
  moreover have none: "merged1 = None \<longleftrightarrow> merged = None \<and> ms_batches (lvl ?ms l) = []"
    using c(3) ms1(5) by (cases merged) auto
  moreover have "\<forall>j < Suc l. lvl (sp_merging ?sp2) j = MergeState_default"
    using Suc.prems(3) lvl2 by (auto simp: less_Suc_eq)
  moreover have "\<forall>j < i. small ?s j (lvl (sp_merging ?sp2) j)"
    using Suc.prems(4) lvl2 by (simp add: small_def)
  moreover have "k = i - Suc l" using Suc.hyps(2) by simp
  ultimately obtain merged' ms' log' where r:
    "roll_up_from [Suc l..<i] merged1 ?sp2 log1 = Some (merged', ?sp2\<lparr>sp_merging := ms'\<rparr>, log')"
    "lvl ms' = (\<lambda>j. if j < i then MergeState_default else lvl (sp_merging ?sp2) j)"
    "length ms' = length (sp_merging ?sp2)" "tiles x y D n (level_batches ms' @ opt_list merged')"
    "floating ?s i merged'" "merged' = None \<longleftrightarrow> merged1 = None \<and> (\<forall>j < i. ms_batches (lvl (sp_merging ?sp2) j) = [])"
    using Suc.hyps(1) [of "Suc l" ?sp2 merged1 log1] Suc.prems(2) c(2) l ms1(1) by auto
  have "roll_up_from [l..<i] merged sp log = Some (merged', sp\<lparr>sp_merging := ms'\<rparr>, log')"
    using ins c(1) r(1) by (simp add: upt)
  moreover have "lvl ms' = (\<lambda>j. if j < i then MergeState_default else lvl ?ms j)"
    using r(2) l by (auto simp: lvl2)
  moreover have "(\<forall>j < i. ms_batches (((lvl ?ms)(l := MergeState_default)) j) = []) \<and> ms_batches (lvl ?ms l) = []
      \<longleftrightarrow> (\<forall>j < i. ms_batches (lvl ?ms j) = [])"
    using l(1) by (metis MergeState_default_simps(1) fun_upd_other fun_upd_same)
  then have "merged' = None \<longleftrightarrow> merged = None \<and> (\<forall>j < i. ms_batches (lvl ?ms j) = [])"
    using r(6) none lvl2 by auto
  ultimately show ?case
    using r(3-5) ms1(1) by (intro exI [of _ merged'] exI [of _ ms'] exI [of _ log']) simp
qed

text \<open>
  \<open>rolled s i f g\<close>: \<open>g\<close> is what rolling up the levels below \<open>i\<close> makes of \<open>f\<close>. There is room
  at level \<open>i\<close>, levels from \<open>i + 2\<close> on are as before, and the virtual records below them
  have grown by less than one batch of level \<open>i\<close>.
\<close>

definition rolled :: "'f :: bounded_lattice \<Rightarrow> nat \<Rightarrow> (nat \<Rightarrow> 'f MergeState) \<Rightarrow> (nat \<Rightarrow> 'f MergeState) \<Rightarrow> bool" where
  "rolled s i f g \<longleftrightarrow>
     (\<forall>j < i. g j = MergeState_default) \<and> small s i (g i) \<and>
     level_str s (g (Suc i)) \<and> (\<forall>b \<in> set (ms_batches (g (Suc i))). sb_len b \<le> 2 ^ Suc i) \<and>
     (\<forall>im. ms_merge (g (Suc i)) = Some im \<longrightarrow>
        ms_batches (g i) = [] \<and> fm_remaining_work (ifm_merge im) \<le> 2 ^ (i + 2)) \<and>
     (\<forall>j \<ge> i + 2. g j = f j \<and> vrec g j < vrec f j + 2 ^ i)"

lemma begin_merge_work:
  "begin_merge bs c = Some im \<Longrightarrow> fm_remaining_work (ifm_merge im) = sum_list (map sb_len bs)"
  by (auto simp: begin_merge_def Let_def split: if_splits)

lemma small_pushed_merge:
  assumes "small s j m" and "sb_len b \<le> 2 ^ j" and "ms_merge (pushed s m b) = Some im"
  shows "fm_remaining_work (ifm_merge im) \<le> 2 ^ Suc j"
  using assms sum_small [OF assms(1)] by (auto simp: pushed_def split: if_splits dest: begin_merge_work)

lemma vrec_clear:
  "i \<le> j \<Longrightarrow> vrec (\<lambda>l. if l < i then MergeState_default else f l) j + vrec f i = vrec f j"
proof (induction j rule: dec_induct)
  case base
  then show ?case by (simp add: vrec_zero)
next
  case (step j)
  then show ?case by simp
qed

lemma vrec_pos: "j < i \<Longrightarrow> ms_batches (f j) \<noteq> [] \<Longrightarrow> 0 < vrec f i"
  unfolding vrec_def by (rule sum_pos2 [of _ j]) auto

lemma rolled_nothing:
  assumes "\<forall>j < i. f j = MergeState_default" and "\<forall>j < i + 2. small s j (f j)"
  shows "rolled s i f f"
  using assms level_str_merge [of s "f (Suc i)"] by (auto simp: rolled_def small_def)

lemma rolled_single:
  assumes sm: "\<forall>j < i + 2. small s j (f j)" and vac: "ms_batches (f i) = []" and pos: "0 < vrec f i"
    and b: "sb_ok b" "sb_since b \<le> s" "sb_len b \<le> 2 ^ i"
  shows "rolled s i f ((\<lambda>j. if j < i then MergeState_default else f j)(i := pushed s (f i) b))"
proof -
  let ?c = "\<lambda>j. if j < i then MergeState_default else f j"
  let ?g = "?c(i := pushed s (f i) b)"
  have s2: "small s i (f i)" "small s (Suc i) (f (Suc i))" using sm by simp_all
  have new: "small s i (pushed s (f i) b)"
    using s2(1) vac b by (auto simp: small_def intro: level_str_pushed)
  have "vrec ?g j < vrec f j + 2 ^ i" if "j \<ge> i + 2" for j
    using that vrec_upd_lt [of i j ?c "pushed s (f i) b"] vrec_clear [of i j f] pos vac by simp
  with s2 new level_str_merge [of s "f (Suc i)"] show ?thesis
    unfolding rolled_def by (auto simp: small_def)
qed

lemma rolled_carry:
  assumes sm: "\<forall>j < i + 2. small s j (f j)" and one: "length (ms_batches (f i)) = 1" and pos: "0 < vrec f i"
    and b: "sb_ok b" "sb_since b \<le> s" "sb_len b \<le> 2 ^ Suc i"
  shows "rolled s i f ((\<lambda>j. if j < i then MergeState_default else f j)
    (i := MergeState_default, Suc i := pushed s (f (Suc i)) b))"
proof -
  let ?c = "\<lambda>j. if j < i then MergeState_default else f j"
  let ?d = "?c(i := MergeState_default)"
  let ?g = "?d(Suc i := pushed s (f (Suc i)) b)"
  have s2: "small s (Suc i) (f (Suc i))" using sm by simp
  have new: "level_str s (pushed s (f (Suc i)) b)"
    "\<forall>c \<in> set (ms_batches (pushed s (f (Suc i)) b)). sb_len c \<le> 2 ^ Suc i"
    using s2 b by (auto simp: small_def intro: level_str_pushed)
  have "vrec ?g j < vrec f j + 2 ^ i" if "j \<ge> i + 2" for j
    using that vrec_upd_lt [of i j ?c MergeState_default]
      vrec_upd_lt [of "Suc i" j ?d "pushed s (f (Suc i)) b"] vrec_clear [of i j f] pos one by simp
  with new small_pushed_merge [OF s2 b(3)] show ?thesis
    unfolding rolled_def by (auto simp: small_def)
qed

lemma roll_up_ok:
  assumes ok: "levels_ok (sp_since sp) (lvl (sp_merging sp))"
    and room: "\<forall>j < i + 2. ms_merge (lvl (sp_merging sp) j) = None"
    and tiles: "tiles x y D n (level_batches (sp_merging sp))"
  obtains ms' log' where "roll_up sp i log = Some (sp\<lparr>sp_merging := ms'\<rparr>, log')"
    and "tiles x y D n (level_batches ms')" and "rolled (sp_since sp) i (lvl (sp_merging sp)) (lvl ms')"
proof -
  let ?s = "sp_since sp" and ?f = "lvl (sp_merging sp)" and ?E = "ensure_levels i (sp_merging sp)"
  let ?sp0 = "sp\<lparr>sp_merging := ?E\<rparr>"
  let ?c = "\<lambda>j. if j < i then MergeState_default else ?f j"
  have sm: "\<forall>j < i + 2. small ?s j (?f j)"
    using ok room by (blast intro: small_of_ok)
  have ex: "list_ex (\<lambda>m. \<not> is_vacant m) (take i ?E) \<longleftrightarrow> (\<exists>j < i. ms_batches (?f j) \<noteq> [])"
  proof -
    have "take i ?E ! j = ?f j" if "j < i" for j
      using that by (metis length_ensure_levels lvl_ensure_levels lvl_nth max.strict_coboundedI2 less_SucI nth_take)
    then show ?thesis by (auto simp: list_ex_length is_vacant_def)
  qed
  show ?thesis
  proof (cases "\<exists>j < i. ms_batches (?f j) \<noteq> []")
    case False
    then have "\<forall>j < i. ?f j = MergeState_default"
      using ok level_str_vacant by (metis levels_ok_def)
    moreover have "\<not> list_ex (\<lambda>m. \<not> is_vacant m) (take i ?E)" using False ex by blast
    ultimately show ?thesis
      using tiles sm by (intro that [of ?E log]) (simp_all add: roll_up_def Let_def rolled_nothing)
  next
    case True
    then have pos: "0 < vrec ?f i" using vrec_pos by blast
    have i0: "i < length (sp_merging ?sp0)" by simp
    have sm0: "\<forall>j < i. small (sp_since ?sp0) j (lvl (sp_merging ?sp0) j)" using sm by simp
    have t0: "tiles x y D n (level_batches (sp_merging ?sp0) @ opt_list None)" using tiles by simp
    have "floating (sp_since ?sp0) 0 None" by (simp add: floating_def)
    then obtain merged1 ms1 log1 where r1: "roll_up_from [0..<i] None ?sp0 log = Some (merged1, ?sp0\<lparr>sp_merging := ms1\<rparr>, log1)"
      "lvl ms1 = (\<lambda>j. if j < i then MergeState_default else lvl (sp_merging ?sp0) j)"
      "length ms1 = length (sp_merging ?sp0)" "tiles x y D n (level_batches ms1 @ opt_list merged1)"
      "floating (sp_since ?sp0) i merged1" "merged1 = None \<longleftrightarrow> None = None \<and> (\<forall>j < i. ms_batches (lvl (sp_merging ?sp0) j) = [])"
      using roll_up_from_ok [OF le0 i0 _ sm0 t0, of log] by blast
    then have "merged1 \<noteq> None" using True by simp
    with r1 obtain b where r: "roll_up_from [0..<i] None ?sp0 log = Some (Some b, sp\<lparr>sp_merging := ms1\<rparr>, log1)"
      "lvl ms1 = ?c" "length ms1 = length ?E" "tiles x y D n (level_batches ms1 @ [b])" "floating ?s i (Some b)"
      by (cases merged1) (simp_all add: fun_eq_iff)
    have b: "sb_ok b" "sb_since b \<le> ?s" "sb_len b \<le> 2 ^ i" using r(5) by (auto simp: floating_def)
    have si: "level_str ?s (?f i)" "length (ms_batches (?f i)) \<le> 1" using sm by (auto simp: small_def)
    obtain ms2 where i2: "insert_at (sp\<lparr>sp_merging := ms1\<rparr>) b i = Some (sp\<lparr>sp_merging := ms2\<rparr>)"
      "lvl ms2 = ?c(i := pushed ?s (?f i) b)" "length ms2 = length ?E" "tiles x y D n (level_batches ms2)"
      by (rule insert_bottom [of i "sp\<lparr>sp_merging := ms1\<rparr>" ?s x y D n b]) (use r si in simp_all)
    have len2: "i < length ms2" using i2(3) by simp
    then have nth2: "ms2 ! i = pushed ?s (?f i) b" using lvl_nth [of i ms2] i2(2) by simp
    show ?thesis
    proof (cases "ms_batches (?f i) = []")
      case vac: True
      then have "roll_up sp i log = Some (sp\<lparr>sp_merging := ms2\<rparr>, log1)"
        using True ex r(1) i2(1) nth2 by (simp add: roll_up_def Let_def is_full_def BATCHES_PER_LEVEL_def)
      with i2 rolled_single [OF sm vac pos b] show ?thesis by (intro that [of ms2 log1]) simp_all
    next
      case False
      then have one: "length (ms_batches (?f i)) = 1" using si by (cases "ms_batches (?f i)") auto
      let ?sp2 = "sp\<lparr>sp_merging := ms2\<rparr>"
      define ms3 where "ms3 = ms2[i := MergeState_default]"
      have "level_str ?s (pushed ?s (?f i) b)" using si b by (intro level_str_pushed)
      then have pre: "i < length (sp_merging ?sp2)" "\<forall>j < i. ms_batches (lvl (sp_merging ?sp2) j) = []"
        "level_str ?s (lvl (sp_merging ?sp2) i)" "tiles x y D n (level_batches (sp_merging ?sp2))"
        using i2 len2 by simp_all
      obtain merged log3 where c3: "complete_at ?sp2 i log1 = Some (merged, sp\<lparr>sp_merging := ms3\<rparr>, log3)"
        "tiles x y D n (level_batches ms3 @ opt_list merged)" "merged \<noteq> None"
        "\<forall>c. merged = Some c \<longrightarrow> sb_ok c \<and> sb_since c \<le> ?s \<and> sb_len c = sum_list (map sb_len (ms_batches (?f i) @ [b]))"
        by (rule complete_bottom [OF pre, of log1]) (use i2(2) in \<open>simp add: ms3_def\<close>)
      then obtain c where c: "merged = Some c" "sb_ok c" "sb_since c \<le> ?s" "sb_len c \<le> 2 ^ Suc i"
        using sum_small [of ?s i "?f i"] sm b(3) by auto
      have lvl3: "lvl ms3 = ?c(i := MergeState_default)"
        using len2 i2(2) by (simp add: ms3_def lvl_update)
      obtain ms4 where i4: "insert_at (sp\<lparr>sp_merging := ms3\<rparr>) c (Suc i) = Some (sp\<lparr>sp_merging := ms4\<rparr>)"
        "lvl ms4 = ?c(i := MergeState_default, Suc i := pushed ?s (?f (Suc i)) c)" "tiles x y D n (level_batches ms4)"
        by (rule insert_bottom [of "Suc i" "sp\<lparr>sp_merging := ms3\<rparr>" ?s x y D n c])
          (use c3(2) c(1) sm lvl3 in \<open>simp_all add: small_def\<close>)
      have "roll_up sp i log = Some (sp\<lparr>sp_merging := ms4\<rparr>, log3)"
        using True ex r(1) i2(1) nth2 one c3(1) c(1) i4(1)
        by (simp add: roll_up_def Let_def is_full_def BATCHES_PER_LEVEL_def)
      with i4 rolled_carry [OF sm one pos c(2-4)] show ?thesis by (intro that [of ms4 log3]) simp_all
    qed
  qed
qed

subsection \<open>Introducing a batch\<close>

lemma introduce_fuel_ge:
  assumes "i \<le> 60"
  shows "8 * 2 ^ i \<le> nat (introduce_fuel 1 i) + 1"
proof -
  have le: "(2 :: nat) ^ i \<le> 2 ^ 60" using assms by (rule power_increasing) simp
  have shl: "checked_shl 8 i = Some (8 * 2 ^ i)"
    using assms le by (simp add: checked_shl_def usize_bits_def)
  have "i < 2 ^ 32" using assms by simp
  then have "introduce_fuel 1 i = (if int (8 * 2 ^ i) \<le> isize_max then int (8 * 2 ^ i) else isize_max)"
    using le by (simp add: introduce_fuel_def shl checked_mul_def usize_bits_def isize_try_from_def
        del: of_nat_mult of_nat_power)
  moreover have "8 * 2 ^ i \<le> (2 :: nat) ^ 63" using le by simp
  ultimately show ?thesis
    by (simp add: isize_max_def del: of_nat_mult of_nat_power)
qed

lemma slack_room:
  assumes "\<forall>j. slack F f j" and "8 * 2 ^ i \<le> F + 1"
  shows "\<forall>j < i + 2. ms_merge (f j) = None"
proof (intro allI impI)
  fix j assume j: "j < i + 2"
  show "ms_merge (f j) = None"
  proof (rule ccontr)
    assume "ms_merge (f j) \<noteq> None"
    then obtain im where "ms_merge (f j) = Some im" by auto
    then have "0 < fm_remaining_work (ifm_merge im)" and "fm_remaining_work (ifm_merge im) + F \<le> 2 ^ Suc j"
      using assms(1) by (auto simp: slack_def)
    moreover have "(2 :: nat) ^ Suc j \<le> 2 ^ (i + 2)" using j by (intro power_increasing) auto
    moreover have "(0 :: nat) < 2 ^ i" by simp
    ultimately show False using assms(2) by (simp add: power_add)
  qed
qed

lemma levels_ok_introduce:
  assumes ok: "levels_ok s f" and slack: "\<forall>j. slack F f j" and F: "8 * 2 ^ i \<le> F + 1"
    and r: "rolled s i f g" and b: "sb_ok b" "sb_since b \<le> s" "sb_len b \<le> 2 ^ i"
  shows "levels_ok s (g(i := pushed s (g i) b))"
proof -
  let ?h = "g(i := pushed s (g i) b)"
  have sm: "small s i (g i)" and above: "\<And>j. i + 2 \<le> j \<Longrightarrow> g j = f j \<and> vrec g j < vrec f j + 2 ^ i"
    and low: "\<And>j. j < i \<Longrightarrow> g j = MergeState_default"
    using r by (auto simp: rolled_def)
  have v0: "vrec ?h i = 0" by (rule vrec_zero) (simp add: low)
  have "level_str s (?h j) \<and> level_fuel j (vrec ?h j) (?h j)" for j
  proof -
    consider "j < i" | "j = i" | "j = Suc i" | "i + 2 \<le> j" by linarith
    then show ?thesis
    proof cases
      case 1
      then show ?thesis by (simp add: low)
    next
      case 2
      have "level_fuel i 0 (g i)"
        using sm level_str_merge [of s "g i"] by (auto simp: small_def level_fuel_def)
      with 2 sm b v0 show ?thesis
        by (auto simp: small_def intro: level_str_pushed level_fuel_pushed)
    next
      case 3
      have "vrec ?h (Suc i) = Suc (length (ms_batches (g i))) * 2 ^ i"
        using v0 by simp
      with 3 r show ?thesis
        by (auto simp: rolled_def level_fuel_def)
    next
      case 4
      have "vrec ?h j = vrec g j + 2 ^ i"
        using vrec_upd_lt [of i j g "pushed s (g i) b"] 4 by simp
      then have v: "vrec ?h j < vrec f j + 2 * 2 ^ i" using above [OF 4] by simp
      have "vrec ?h j < 2 ^ j \<and> 4 * vrec ?h j + fm_remaining_work (ifm_merge im) \<le> 4 * 2 ^ j"
        if "ms_merge (f j) = Some im" for im
      proof -
        have "4 * vrec f j + fm_remaining_work (ifm_merge im) + F \<le> 4 * 2 ^ j"
          using slack that by (auto simp: slack_def)
        with v F show ?thesis by linarith
      qed
      moreover have "level_str s (f j)" "level_fuel j (vrec f j) (f j)"
        using ok by (auto simp: levels_ok_def)
      ultimately show ?thesis
        using above [OF 4] 4 by (auto simp: level_fuel_def)
    qed
  qed
  then show ?thesis by (simp add: levels_ok_def del: fun_upd_apply)
qed

subsection \<open>Tidying the layers\<close>

lemma level_bound:
  assumes "n < 2 ^ 64"
  shows "n \<le> 2 ^ trailing_zeros (next_power_of_two n)"
proof (cases "n \<le> 2 ^ 63")
  case True
  then show ?thesis by (rule level_of_len)
next
  case False
  then show ?thesis using assms by (simp add: next_power_of_two_def trailing_zeros.simps)
qed

lemma levels_ok_top:
  assumes "levels_ok s f" and "level_str s m" and "level_fuel k (vrec f k) m"
    and "\<forall>j > Suc k. f j = MergeState_default"
  shows "levels_ok s (f(k := m, Suc k := MergeState_default))"
proof -
  let ?g = "f(k := m, Suc k := MergeState_default)"
  have "vrec ?g j = vrec f j" if "j \<le> k" for j
    using that by (simp add: vrec_upd_ge del: fun_upd_apply)
  then have "level_str s (?g j) \<and> level_fuel j (vrec ?g j) (?g j)" for j
    using assms by (cases j k rule: linorder_cases) (auto simp: levels_ok_def)
  then show ?thesis by (simp add: levels_ok_def del: fun_upd_apply)
qed

lemma remove_below_top:
  assumes "length ms = k + 2"
  shows "remove_at k ms = take k ms @ [last ms]" and "ms ! Suc k = last ms"
    and "lvl (remove_at k ms) = (lvl ms)(k := last ms, Suc k := MergeState_default)"
    and "level_batches ms = ms_batches (last ms) @ ms_batches (ms ! k) @ level_batches (take k ms)"
proof -
  have top: "drop (Suc k) ms = [last ms]"
    using assms by (metis Cons_nth_drop_Suc add_2_eq_Suc' append_butlast_last_id diff_Suc_1 drop_all last_conv_nth
        length_0_conv lessI less_irrefl nat.distinct(1) order_refl)
  then show r: "remove_at k ms = take k ms @ [last ms]" by (simp add: remove_at_def)
  show l: "ms ! Suc k = last ms"
    using assms last_conv_nth [of ms] by (cases ms) auto
  show "lvl (remove_at k ms) = (lvl ms)(k := last ms, Suc k := MergeState_default)"
    using assms by (auto simp: r lvl_def fun_eq_iff nth_append)
  show "level_batches ms = ms_batches (last ms) @ ms_batches (ms ! k) @ level_batches (take k ms)"
    using level_batches_split [of k ms] assms top by simp
qed

end
