(* ===== verification/Spine_Safe.thy ===== *)
theory Spine_Safe
  imports Spine_Inv
begin

section \<open>The spine never panics and never loses a batch\<close>

text \<open>
  Preservation of the invariant of \<open>Spine_Inv\<close> by the operations a trace calls:
  \<open>Spine::insert\<close>, \<open>Spine::exert\<close> and the tidying and fueling they share. Each operation
  returns, keeps the invariant and keeps the contents.
\<close>

subsection \<open>Tidying the layers\<close>

lemma smaller_half:
  assumes "vrec f k \<le> 2 ^ (k + 2) div 8"
  shows "2 * vrec f k \<le> 2 ^ k"
proof (cases k)
  case 0
  then show ?thesis by simp
next
  case (Suc j)
  with assms show ?thesis by simp
qed

definition top_single :: "nat \<Rightarrow> 'f MergeState list \<Rightarrow> bool" where
  "top_single a ms \<longleftrightarrow>
     ms \<noteq> [] \<and> length (ms_batches (last ms)) = 1 \<and> (\<forall>b \<in> set (ms_batches (last ms)). sb_len b \<le> 2 ^ a)"

lemma top_level_small:
  assumes "levels_ok s (lvl ms)" and "top_single a ms" and "length ms = k + 2" and "a \<le> k"
  shows "small s k (last ms)" and "ms_merge (last ms) = None" and "level_fuel k v (last ms)"
proof -
  have "lvl ms (Suc k) = last ms" using remove_below_top(2) [OF assms(3)] assms(3) by simp
  then have str: "level_str s (last ms)" using assms(1) by (metis levels_ok_def)
  moreover have "(2 :: nat) ^ a \<le> 2 ^ k" using assms(4) by (simp add: power_increasing)
  ultimately show "small s k (last ms)"
    using assms(2) by (auto simp: small_def top_single_def intro: le_trans)
  then show "ms_merge (last ms) = None" and "level_fuel k v (last ms)"
    using level_str_merge [OF str] by (auto simp: small_def level_fuel_def)
qed

text \<open>The step of the loop that moves the single batch below the top into the top.\<close>

lemma tidy_merge_ok:
  fixes sp :: "'f :: bounded_lattice Spine"
  defines "ms \<equiv> sp_merging sp" and "s \<equiv> sp_since sp"
  assumes ok: "levels_ok s (lvl ms)" and tiles: "tiles x y D n (level_batches ms)"
    and top: "top_single a ms" and k: "length ms = k + 2" "a \<le> k"
    and c: "ms_batches (ms ! k) = [c]" and half: "2 * vrec (lvl ms) k \<le> 2 ^ k"
  shows "\<exists>ms'. insert_at (sp\<lparr>sp_merging := remove_at k ms\<rparr>) c k = Some (sp\<lparr>sp_merging := ms'\<rparr>) \<and>
    levels_ok s (lvl ms') \<and> tiles x y D n (level_batches ms')"
proof -
  note rm = remove_below_top [OF k(1)]
  note small = top_level_small [OF ok top k]
  have "k < length ms" using k by simp
  then have cs: "sb_ok c" "sb_since c \<le> s" "sb_len c \<le> 2 ^ k"
    using ok c unfolding levels_ok_def level_str_def level_fuel_def by (metis list.set_intros(1) lvl_nth)+
  define sp' where "sp' = sp\<lparr>sp_merging := remove_at k ms\<rparr>"
  have same: "sp_since sp' = s" "lvl (sp_merging sp') = (lvl ms)(k := last ms, Suc k := MergeState_default)"
    "ensure_levels k (sp_merging sp') = take k ms @ [last ms]"
    using rm(1,3) k by (simp_all add: sp'_def ensure_levels_def s_def)
  have "tiles x y D n (level_batches (drop (Suc k) (ensure_levels k (sp_merging sp'))) @
      ms_batches (lvl (sp_merging sp') k) @ c # level_batches (take k (ensure_levels k (sp_merging sp'))))"
    using tiles rm(4) c same k by simp
  from insert_at_tiles [OF _ _ this, of s] small(1) same
  obtain ms' where ms': "insert_at sp' c k = Some (sp'\<lparr>sp_merging := ms'\<rparr>)"
    "lvl ms' = (lvl ms)(k := pushed s (last ms) c, Suc k := MergeState_default)" "tiles x y D n (level_batches ms')"
    by (auto simp: fun_upd_twist small_def)
  have "\<forall>j > Suc k. lvl ms j = MergeState_default" using k by simp
  then have "levels_ok s (lvl ms')"
    unfolding ms'(2) using small cs half
    by (intro levels_ok_top [OF ok] level_str_pushed level_fuel_pushed) (auto simp: small_def)
  with ms'(1,3) show ?thesis by (auto simp: sp'_def)
qed

lemma tidy_loop_ok:
  assumes "levels_ok (sp_since sp) (lvl (sp_merging sp))" and "tiles x y D n (level_batches (sp_merging sp))"
    and "top_single a (sp_merging sp)"
  shows "\<exists>ms'. tidy_loop a sp = Some (sp\<lparr>sp_merging := ms'\<rparr>) \<and> levels_ok (sp_since sp) (lvl ms') \<and>
    tiles x y D n (level_batches ms')"
  using assms
proof (induction a sp rule: tidy_loop.induct)
  case (1 a sp)
  let ?ms = "sp_merging sp" and ?s = "sp_since sp"
  show ?case
  proof (cases "a < length ?ms - 1")
    case False
    then show ?thesis
      using 1 by (intro exI [of _ ?ms]) (simp add: tidy_loop.simps)
  next
    case a: True
    define k where "k = length ?ms - 2"
    have k: "length ?ms = k + 2" "a \<le> k" "k < length ?ms" using a by (auto simp: k_def)
    note top = remove_below_top [OF k(1)] and small = top_level_small [OF "1.prems"(1,3) k(1,2)]
    let ?cur = "?ms ! k"
    define sp' where "sp' = sp\<lparr>sp_merging := remove_at k ?ms\<rparr>"
    let ?enough = "\<not> is_full ?cur \<and> smaller_records (take k ?ms) \<le> 2 ^ (k + 2) div 8"
    have unfold: "tidy_loop a sp =
        (if is_vacant ?cur then tidy_loop a sp'
         else if ?enough
         then do { assert (length (ms_batches ?cur) = 1); insert_all_at sp' (ms_batches ?cur) k }
         else Some sp)"
      using a k by (subst tidy_loop.simps) (simp add: Let_def sp'_def)
    consider (vacant) "is_vacant ?cur" | (merge) "\<not> is_vacant ?cur" ?enough | (stop) "\<not> is_vacant ?cur" "\<not> ?enough"
      by blast
    then show ?thesis
    proof cases
      case vacant
      have "is_vacant (?ms ! (length ?ms - 2))" using vacant by (simp add: k_def)
      note IH = "1.IH" [OF refl a refl this, folded k_def, folded sp'_def]
      have "\<forall>j > Suc k. lvl ?ms j = MergeState_default" using k by simp
      with small have "levels_ok (sp_since sp') (lvl (sp_merging sp'))"
        using levels_ok_top [OF "1.prems"(1)] top(3) by (simp add: sp'_def small_def)
      moreover have "tiles x y D n (level_batches (sp_merging sp'))"
        using "1.prems"(2) top(1,4) vacant by (simp add: is_vacant_def sp'_def)
      moreover have "top_single a (sp_merging sp')"
        using "1.prems"(3) top(1) by (simp add: top_single_def sp'_def)
      ultimately show ?thesis using IH vacant unfold by (simp add: sp'_def)
    next
      case merge
      have "length (ms_batches ?cur) \<le> 2"
        using "1.prems"(1) k(3) unfolding levels_ok_def level_str_def by (metis lvl_nth)
      then have "length (ms_batches ?cur) = 1"
        using merge by (auto simp: is_vacant_def is_full_def BATCHES_PER_LEVEL_def le_Suc_eq numeral_2_eq_2)
      then obtain c where c: "ms_batches ?cur = [c]" by (auto simp: length_Suc_conv)
      have "2 * vrec (lvl ?ms) k \<le> 2 ^ k"
        using merge(2) k by (intro smaller_half) (simp add: smaller_records_vrec)
      from tidy_merge_ok [OF "1.prems" k(1,2) c this] obtain ms' where
        "insert_at sp' c k = Some (sp\<lparr>sp_merging := ms'\<rparr>)" "levels_ok ?s (lvl ms')" "tiles x y D n (level_batches ms')"
        unfolding sp'_def by blast
      with unfold merge c show ?thesis by (intro exI [of _ ms']) simp
    next
      case stop
      then show ?thesis
        using "1.prems" unfold by (intro exI [of _ ?ms]) auto
    qed
  qed
qed

lemma tidy_layers_ok:
  assumes "levels_ok (sp_since sp) (lvl (sp_merging sp))" and "tiles x y D n (level_batches (sp_merging sp))"
    and "n < 2 ^ 64"
  obtains ms' where "tidy_layers sp = Some (sp\<lparr>sp_merging := ms'\<rparr>)"
    and "levels_ok (sp_since sp) (lvl ms')" and "tiles x y D n (level_batches ms')"
proof (cases "sp_merging sp \<noteq> [] \<and> is_single (last (sp_merging sp))")
  case True
  let ?top = "last (sp_merging sp)"
  from True obtain b where b: "ms_batches ?top = [b]"
    by (auto simp: is_single_def length_Suc_conv)
  have "b \<in> set (level_batches (sp_merging sp))"
    using True b by (auto simp: level_batches_def intro!: bexI [of _ ?top])
  then have "sb_len b \<le> n"
    using assms(2) by (auto simp: tiles_def intro: member_le_sum_list)
  then have "sb_len b \<le> 2 ^ trailing_zeros (next_power_of_two (sb_len b))"
    using assms(3) by (intro level_bound) simp
  then have "top_single (trailing_zeros (next_power_of_two (MergeState_len ?top))) (sp_merging sp)"
    using True b by (simp add: top_single_def MergeState_len_def)
  from tidy_loop_ok [OF assms(1,2) this] True that show ?thesis
    by (auto simp: tidy_layers_def)
next
  case False
  with assms that [of "sp_merging sp"] show ?thesis by (auto simp: tidy_layers_def)
qed

subsection \<open>Introducing a batch\<close>

lemma chained_snoc: "chained l u x (bs @ [b]) y \<longleftrightarrow> chained l u x bs (l b) \<and> u b = y"
  by (induction bs arbitrary: x) auto

lemma tiles_snoc:
  "tiles x y D n (bs @ [b]) \<longleftrightarrow>
     sb_hi b = y \<and> (\<exists>D' n'. tiles x (sb_lo b) D' n' bs \<and> D = D' @ batch_data b \<and> n = n' + sb_len b)"
  by (auto simp: tiles_def chained_snoc)

lemma introduce_batch_ok:
  assumes eff: "sp_effort sp = 1" and i: "i \<le> 60"
    and ok: "levels_ok (sp_since sp) (lvl (sp_merging sp))"
    and tiles: "tiles x y D n (level_batches (sp_merging sp) @ [b])" and n: "n < 2 ^ 64"
    and b: "sb_ok b" "sb_since b \<le> sp_since sp" "sb_len b \<le> 2 ^ i"
  obtains ms' log' where "introduce_batch sp b i log = Some (sp\<lparr>sp_merging := ms'\<rparr>, log')"
    and "levels_ok (sp_since sp) (lvl ms')" and "tiles x y D n (level_batches ms')"
proof -
  let ?s = "sp_since sp" and ?F = "introduce_fuel 1 i"
  from tiles obtain D' n' where t0: "tiles x (sb_lo b) D' n' (level_batches (sp_merging sp))"
    and D: "sb_hi b = y" "D = D' @ batch_data b" "n = n' + sb_len b"
    by (auto simp: tiles_snoc)
  obtain ms1 log1 where a1: "apply_fuel sp ?F log = Some (sp\<lparr>sp_merging := ms1\<rparr>, log1)"
    and ok1: "levels_ok ?s (lvl ms1)" and t1: "tiles x (sb_lo b) D' n' (level_batches ms1)"
    and slack: "\<forall>j. slack (nat ?F) (lvl ms1) j"
    by (rule apply_fuel_ok [OF ok t0])
  let ?sp1 = "sp\<lparr>sp_merging := ms1\<rparr>"
  note F = introduce_fuel_ge [OF i]
  have pre: "levels_ok (sp_since ?sp1) (lvl (sp_merging ?sp1))"
    "\<forall>j < i + 2. ms_merge (lvl (sp_merging ?sp1) j) = None"
    "tiles x (sb_lo b) D' n' (level_batches (sp_merging ?sp1))"
    using ok1 t1 slack_room [OF slack F] by simp_all
  obtain ms2 log2 where a2: "roll_up ?sp1 i log1 = Some (?sp1\<lparr>sp_merging := ms2\<rparr>, log2)"
    and t2: "tiles x (sb_lo b) D' n' (level_batches ms2)" and r: "rolled ?s i (lvl ms1) (lvl ms2)"
    by (rule roll_up_ok [OF pre, of log1]) simp
  let ?sp2 = "sp\<lparr>sp_merging := ms2\<rparr>"
  have pre2: "\<forall>j < i. ms_batches (lvl (sp_merging ?sp2) j) = []" "level_str ?s (lvl (sp_merging ?sp2) i)"
    "length (ms_batches (lvl (sp_merging ?sp2) i)) \<le> 1" "tiles x y D n (level_batches (sp_merging ?sp2) @ [b])"
    using r t2 D by (auto simp: rolled_def small_def tiles_snoc)
  obtain ms3 where a3: "insert_at ?sp2 b i = Some (?sp2\<lparr>sp_merging := ms3\<rparr>)"
    and l3: "lvl ms3 = (lvl ms2)(i := pushed ?s (lvl ms2 i) b)" and t3: "tiles x y D n (level_batches ms3)"
    by (rule insert_bottom [OF pre2]) simp
  let ?sp3 = "sp\<lparr>sp_merging := ms3\<rparr>"
  have pre3: "levels_ok (sp_since ?sp3) (lvl (sp_merging ?sp3))" "tiles x y D n (level_batches (sp_merging ?sp3))"
    using levels_ok_introduce [OF ok1 slack F r b] l3 t3 by simp_all
  obtain ms4 where a4: "tidy_layers ?sp3 = Some (?sp3\<lparr>sp_merging := ms4\<rparr>)"
    and "levels_ok ?s (lvl ms4)" "tiles x y D n (level_batches ms4)"
    by (rule tidy_layers_ok [OF pre3 n]) simp
  then show ?thesis
    using a1 a2 a3 a4 eff by (intro that [of ms4 log2]) (simp_all add: introduce_batch_def)
qed

subsection \<open>The invariant of the spine\<close>

definition spine_len :: "'f Spine \<Rightarrow> nat" where
  "spine_len sp = sum_list (map sb_len (spine_batches sp))"

definition spine_data :: "'f Spine \<Rightarrow> 'f IdHollowBatch list" where
  "spine_data sp = batches_data (spine_batches sp)"

definition spine_inv :: "'f :: bounded_lattice Spine \<Rightarrow> bool" where
  "spine_inv sp \<longleftrightarrow>
     sp_effort sp = 1 \<and>
     levels_ok (sp_since sp) (lvl (sp_merging sp)) \<and>
     chained sb_lo sb_hi (0, bot) (spine_batches sp) (sp_next_id sp, sp_upper sp) \<and>
     spine_len sp < 2 ^ 64"

lemma spine_inv_tiles:
  "spine_inv sp \<longleftrightarrow>
     sp_effort sp = 1 \<and> levels_ok (sp_since sp) (lvl (sp_merging sp)) \<and>
     tiles (0, bot) (sp_next_id sp, sp_upper sp) (spine_data sp) (spine_len sp) (level_batches (sp_merging sp)) \<and>
     spine_len sp < 2 ^ 64"
  by (auto simp: spine_inv_def tiles_def spine_data_def spine_len_def spine_batches_def)

lemma spine_inv_new: "spine_inv (Spine_new :: 'f :: bounded_lattice Spine)"
  by (simp add: spine_inv_def Spine_new_def spine_batches_def spine_len_def levels_ok_def)

lemma spine_inv_intro:
  assumes "sp_effort sp = 1" and "levels_ok (sp_since sp) (lvl ms')"
    and "tiles (0, bot) (sp_next_id sp, sp_upper sp) D n (level_batches ms')" and "n < 2 ^ 64"
  shows "spine_inv (sp\<lparr>sp_merging := ms'\<rparr>)" and "spine_data (sp\<lparr>sp_merging := ms'\<rparr>) = D"
    and "spine_len (sp\<lparr>sp_merging := ms'\<rparr>) = n"
  using assms by (auto simp: spine_inv_def tiles_def spine_data_def spine_len_def spine_batches_def)

subsection \<open>Inserting\<close>

lemma first_nonvacant_Some:
  assumes "first_nonvacant ms = Some p"
  shows "p < length ms" and "\<forall>j < p. ms_batches (lvl ms j) = []" and "ms_batches (ms ! p) \<noteq> []"
proof -
  have "p < length ms \<and> (\<forall>j < p. ms_batches (ms ! j) = []) \<and> ms_batches (ms ! p) \<noteq> []"
    using assms
  proof (induction ms arbitrary: p)
    case Nil
    then show ?case by simp
  next
    case (Cons m ms)
    then show ?case
      by (auto simp: is_vacant_def nth_Cons' less_Suc_eq_0_disj split: if_splits)
  qed
  then show "p < length ms" and "\<forall>j < p. ms_batches (lvl ms j) = []" and "ms_batches (ms ! p) \<noteq> []"
    by auto
qed

text \<open>The fast path: an empty batch is fused with the single empty batch of the lowest level.\<close>

lemma fuse_at_ok:
  assumes ok: "levels_ok (sp_since sp) (lvl (sp_merging sp))"
    and tiles: "tiles x y D n (level_batches (sp_merging sp) @ [b])"
    and b: "sb_ok b" "sb_since b \<le> sp_since sp" "sb_len b = 0"
    and p: "first_nonvacant (sp_merging sp) = Some p"
    and single: "is_single (sp_merging sp ! p)" and empty: "MergeState_is_empty (sp_merging sp ! p)"
  obtains ms' log' where "fuse_at sp b p log = Some (sp\<lparr>sp_merging := ms'\<rparr>, log')"
    and "levels_ok (sp_since sp) (lvl ms')" "tiles x y D n (level_batches ms')"
proof -
  let ?s = "sp_since sp" and ?f = "lvl (sp_merging sp)"
  note fn = first_nonvacant_Some [OF p]
  have str: "level_str ?s (?f p)" using ok by (simp add: levels_ok_def)
  have one: "length (ms_batches (?f p)) = 1" using single fn by (simp add: is_single_def)
  then obtain a where a: "ms_batches (?f p) = [a]" by (auto simp: length_Suc_conv)
  then have a0: "sb_len a = 0"
    using empty fn(1) by (simp add: MergeState_is_empty_def SpineBatch_is_empty_def)
  obtain ms3 where i3: "insert_at sp b p = Some (sp\<lparr>sp_merging := ms3\<rparr>)"
    and l3: "lvl ms3 = ?f(p := pushed ?s (?f p) b)" and len3: "length ms3 = max (length (sp_merging sp)) (Suc p)"
    and t3: "tiles x y D n (level_batches ms3)"
    by (rule insert_bottom [OF fn(2) str _ tiles]) (use one in simp_all)
  let ?sp3 = "sp\<lparr>sp_merging := ms3\<rparr>" and ?ms4 = "ms3[p := MergeState_default]"
  have pre: "p < length (sp_merging ?sp3)" "\<forall>j < p. ms_batches (lvl (sp_merging ?sp3) j) = []"
    "level_str ?s (lvl (sp_merging ?sp3) p)" "tiles x y D n (level_batches (sp_merging ?sp3))"
    using len3 fn l3 t3 level_str_pushed [OF str _ b(1,2)] one by auto
  obtain merged log' where c4: "complete_at ?sp3 p log = Some (merged, sp\<lparr>sp_merging := ?ms4\<rparr>, log')"
    and t4: "tiles x y D n (level_batches ?ms4 @ opt_list merged)" and ne: "merged \<noteq> None"
    and mok: "\<forall>c. merged = Some c \<longrightarrow> sb_ok c \<and> sb_since c \<le> ?s \<and> sb_len c = 0"
    by (rule complete_bottom [OF pre, of log]) (use l3 a a0 b(3) in simp)
  then obtain c where c: "merged = Some c" "sb_ok c" "sb_since c \<le> ?s" "sb_len c = 0" by auto
  let ?m = "\<lparr>ms_batches = [c], ms_merge = None\<rparr>"
  have m: "MergeState_single c = Some ?m"
    by (simp add: MergeState_single_def push_batch_def try_push_batch_def BATCHES_PER_LEVEL_def MergeState_default_def)
  have len4: "p < length ?ms4" using len3 by simp
  have lvl': "lvl (?ms4[p := ?m]) = ?f(p := ?m)"
    using len4 l3 by (simp add: lvl_update)
  have "\<forall>j < p. ms_batches (lvl ?ms4 j) = []" using pre(1,2) by (simp add: lvl_update)
  then have "tiles x y D n (level_batches (?ms4[p := ?m]))"
    using level_batches_above [OF _ len4] t4 c(1) pre(1) by (simp add: level_batches_update lvl_update)
  moreover have "levels_ok ?s (?f(p := ?m))"
  proof -
    have "vrec (?f(p := ?m)) j = vrec ?f j" for j
      by (rule vrec_cong) (simp add: a)
    with ok c show ?thesis by (auto simp: levels_ok_def level_str_def level_fuel_def)
  qed
  moreover have "fuse_at sp b p log = Some (sp\<lparr>sp_merging := ?ms4[p := ?m]\<rparr>, log')"
    using i3 c4 c(1) m by (cases sp) (simp add: fuse_at_def)
  ultimately show ?thesis
    using lvl' by (intro that [of "?ms4[p := ?m]" log']) simp_all
qed

text \<open>
  A batch fits a spine when it starts at the spine's upper, is not empty in time (the source
  asserts only that its lower and upper differ) and is not past the spine's since. The
  bounds keep the fuel of \<open>introduce_batch\<close> exact and the number of updates a \<open>usize\<close>.
\<close>

definition hb_fits :: "'f :: bounded_lattice Spine \<Rightarrow> 'f HollowBatch \<Rightarrow> bool" where
  "hb_fits sp hb \<longleftrightarrow>
     d_lower (hb_desc hb) < d_upper (hb_desc hb) \<and> d_lower (hb_desc hb) = sp_upper sp \<and>
     d_since (hb_desc hb) \<le> sp_since sp \<and> hb_len hb \<le> 2 ^ 60 \<and> spine_len sp + hb_len hb < 2 ^ 64"

definition hb_entry :: "'f Spine \<Rightarrow> 'f HollowBatch \<Rightarrow> 'f IdHollowBatch list" where
  "hb_entry sp hb =
     (if hb_len hb = 0 then []
      else [\<lparr>ihb_id = SpineId (sp_next_id sp) (sp_next_id sp + 1), ihb_batch = hb\<rparr>])"

lemma Spine_insert_ok:
  assumes inv: "spine_inv sp" and fits: "hb_fits sp hb"
  obtains sp' log' where "Spine_insert sp hb log = Some (sp', log')" and "spine_inv sp'"
    and "spine_data sp' = spine_data sp @ hb_entry sp hb" and "spine_len sp' = spine_len sp + hb_len hb"
    and "sp_since sp' = sp_since sp" and "sp_upper sp' = d_upper (hb_desc hb)"
    and "sp_next_id sp' = sp_next_id sp + 1"
proof -
  let ?n = "sp_next_id sp"
  define b where "b = SpineBatch_merged \<lparr>ihb_id = SpineId ?n (?n + 1), ihb_batch = hb\<rparr>"
  define sp2 where "sp2 = sp\<lparr>sp_next_id := ?n + 1, sp_upper := sb_upper b\<rparr>"
  let ?D = "spine_data sp @ hb_entry sp hb" and ?N = "spine_len sp + hb_len hb"
  have b: "sb_ok b" "sb_since b \<le> sp_since sp2" "sb_len b = hb_len hb" "batch_data b = hb_entry sp hb"
    "sb_lo b = (?n, sp_upper sp)" "sb_hi b = (sp_next_id sp2, sp_upper sp2)"
    using fits sb_ok_merged [of "SpineId ?n (?n + 1)" hb]
    by (auto simp: b_def sp2_def hb_fits_def hb_strict_def hb_entry_def batch_data_def sb_lo_def sb_hi_def)
  have ok: "levels_ok (sp_since sp2) (lvl (sp_merging sp2))"
    and tiles: "tiles (0, bot) (sp_next_id sp2, sp_upper sp2) ?D ?N (level_batches (sp_merging sp2) @ [b])"
    using inv b by (auto simp: spine_inv_tiles sp2_def tiles_snoc)
  have eff: "sp_effort sp2 = 1" and N: "?N < 2 ^ 64"
    using inv fits by (auto simp: spine_inv_def sp2_def hb_fits_def)
  let ?i = "trailing_zeros (next_power_of_two (sb_len b))"
  have i: "?i \<le> 60" "sb_len b \<le> 2 ^ ?i"
    using fits b(3) level_le [of "sb_len b" 60] level_bound [of "sb_len b"] by (auto simp: hb_fits_def)
  have nid: "Spine_next_id sp = (SpineId ?n (?n + 1), sp\<lparr>sp_next_id := ?n + 1\<rparr>)"
    by (simp add: Spine_next_id_def Let_def)
  have unfold: "Spine_insert sp hb log =
      (case fuse_position sp2 b of Some p \<Rightarrow> fuse_at sp2 b p log | None \<Rightarrow> introduce_batch sp2 b ?i log)"
    using fits unfolding Spine_insert_def nid b_def sp2_def by (auto simp: hb_fits_def Let_def split: option.split)
  obtain ms' log' where "Spine_insert sp hb log = Some (sp2\<lparr>sp_merging := ms'\<rparr>, log')"
    and "levels_ok (sp_since sp2) (lvl ms')"
    and "tiles (0, bot) (sp_next_id sp2, sp_upper sp2) ?D ?N (level_batches ms')"
  proof (cases "fuse_position sp2 b")
    case None
    with that unfold show ?thesis
      by (auto intro: introduce_batch_ok [OF eff i(1) ok tiles N b(1,2) i(2), of log])
  next
    case (Some p)
    then have p: "sb_len b = 0" "first_nonvacant (sp_merging sp2) = Some p"
      "is_single (sp_merging sp2 ! p)" "MergeState_is_empty (sp_merging sp2 ! p)"
      by (auto simp: fuse_position_def SpineBatch_is_empty_def split: if_splits option.splits)
    show ?thesis
      by (rule fuse_at_ok [OF ok tiles b(1,2) p, of log]) (use Some unfold in \<open>auto intro: that\<close>)
  qed
  with spine_inv_intro [OF eff _ _ N] show ?thesis
    by (intro that [of "sp2\<lparr>sp_merging := ms'\<rparr>" log']) (auto simp: sp2_def b_def)
qed

subsection \<open>Exerting\<close>

lemma Spine_exert_ok:
  assumes inv: "spine_inv sp" and eff: "effort \<le> 2 ^ 60"
  obtains did sp' log' where "Spine_exert sp effort log = Some ((did, sp'), log')" and "spine_inv sp'"
    and "spine_data sp' = spine_data sp" and "spine_len sp' = spine_len sp"
    and "sp_since sp' = sp_since sp" and "sp_upper sp' = sp_upper sp" and "sp_next_id sp \<le> sp_next_id sp'"
proof -
  let ?s = "sp_since sp" and ?D = "spine_data sp" and ?N = "spine_len sp"
  have inv': "sp_effort sp = 1" "levels_ok ?s (lvl (sp_merging sp))"
    "tiles (0, bot) (sp_next_id sp, sp_upper sp) ?D ?N (level_batches (sp_merging sp))" "?N < 2 ^ 64"
    using inv by (auto simp: spine_inv_tiles)
  obtain ms0 where t0: "tidy_layers sp = Some (sp\<lparr>sp_merging := ms0\<rparr>)" "levels_ok ?s (lvl ms0)"
    "tiles (0, bot) (sp_next_id sp, sp_upper sp) ?D ?N (level_batches ms0)"
    by (rule tidy_layers_ok [OF inv'(2-4)])
  let ?sp0 = "sp\<lparr>sp_merging := ms0\<rparr>"
  note inv0 = spine_inv_intro [OF inv'(1) t0(2,3) inv'(4)]
  consider (reduced) "Spine_reduced ?sp0"
    | (merging) "\<not> Spine_reduced ?sp0" "list_ex (\<lambda>m. ms_merge m \<noteq> None) ms0"
    | (idle) "\<not> Spine_reduced ?sp0" "\<not> list_ex (\<lambda>m. ms_merge m \<noteq> None) ms0"
    by blast
  then show ?thesis
  proof cases
    case reduced
    with t0(1) inv0 show ?thesis
      by (intro that [of False ?sp0 log]) (simp_all add: Spine_exert_def)
  next
    case merging
    define fuel where "fuel = (case isize_try_from effort of Some f \<Rightarrow> f | None \<Rightarrow> isize_max)"
    have pre: "levels_ok (sp_since ?sp0) (lvl (sp_merging ?sp0))"
      "tiles (0, bot) (sp_next_id sp, sp_upper sp) ?D ?N (level_batches (sp_merging ?sp0))"
      using t0 by simp_all
    obtain ms1 log1 where a: "apply_fuel ?sp0 fuel log = Some (sp\<lparr>sp_merging := ms1\<rparr>, log1)"
      "levels_ok ?s (lvl ms1)" "tiles (0, bot) (sp_next_id sp, sp_upper sp) ?D ?N (level_batches ms1)"
      by (rule apply_fuel_ok [OF pre, of fuel log]) simp
    with t0(1) merging spine_inv_intro [OF inv'(1) a(2,3) inv'(4)] show ?thesis
      by (intro that [of True "sp\<lparr>sp_merging := ms1\<rparr>" log1])
        (simp_all add: Spine_exert_def fuel_def [symmetric])
  next
    case idle
    let ?i = "trailing_zeros (next_power_of_two effort)" and ?id = "SpineId (sp_next_id sp) (sp_next_id sp + 1)"
    let ?b = "SpineBatch_empty ?id (sp_upper sp) (sp_upper sp) ?s"
    define sp1 where "sp1 = ?sp0\<lparr>sp_next_id := sp_next_id sp + 1\<rparr>"
    have pre: "sp_effort sp1 = 1" "?i \<le> 60" "levels_ok (sp_since sp1) (lvl (sp_merging sp1))"
      "tiles (0, bot) (sp_next_id sp1, sp_upper sp1) ?D ?N (level_batches (sp_merging sp1) @ [?b])"
      using inv'(1) t0 level_le [OF eff] by (auto simp: sp1_def tiles_snoc sb_lo_def sb_hi_def)
    have b: "sb_ok ?b" "sb_since ?b \<le> sp_since sp1" "sb_len ?b \<le> 2 ^ ?i"
      by (auto simp: sp1_def intro: sb_ok_empty)
    obtain ms2 log2 where a: "introduce_batch sp1 ?b ?i log = Some (sp1\<lparr>sp_merging := ms2\<rparr>, log2)"
      "levels_ok (sp_since sp1) (lvl ms2)" "tiles (0, bot) (sp_next_id sp1, sp_upper sp1) ?D ?N (level_batches ms2)"
      by (rule introduce_batch_ok [OF pre inv'(4) b, of log])
    have "Spine_exert sp effort log = Some ((True, sp1\<lparr>sp_merging := ms2\<rparr>), log2)"
      using t0(1) idle a(1) by (simp add: Spine_exert_def Spine_next_id_def sp1_def Let_def)
    with spine_inv_intro [OF pre(1) a(2,3) inv'(4)] show ?thesis
      by (intro that [of True "sp1\<lparr>sp_merging := ms2\<rparr>" log2]) (simp_all add: sp1_def)
  qed
qed

subsection \<open>The invariant implies the code's own validation\<close>

lemma validate_batches_ok:
  assumes "chained sb_lo sb_hi (sid_hi i, f) bs (n, u)" and "\<forall>b \<in> set bs. sb_since b \<le> s"
  shows "\<exists>i'. validate_batches s bs i f = Inr (i', u) \<and> sid_hi i' = n"
  using assms by (induction bs arbitrary: i f) (auto simp: sb_lo_def sb_hi_def)

lemma validate_levels_ok:
  assumes "chained sb_lo sb_hi (sid_hi i, f) (concat (map ms_batches ms)) (n, u)" and "\<forall>m \<in> set ms. level_str s m"
  shows "\<exists>i'. validate_levels s ms i f = Inr (i', u) \<and> sid_hi i' = n"
  using assms
proof (induction ms arbitrary: i f)
  case Nil
  then show ?case by simp
next
  case (Cons m ms)
  from Cons.prems(1) obtain n1 u1 where c: "chained sb_lo sb_hi (sid_hi i, f) (ms_batches m) (n1, u1)"
    "chained sb_lo sb_hi (n1, u1) (concat (map ms_batches ms)) (n, u)"
    by (auto simp: chained_append)
  have str: "level_str s m" using Cons.prems(2) by simp
  then obtain i1 where "validate_batches s (ms_batches m) i f = Inr (i1, u1)" "sid_hi i1 = n1"
    using validate_batches_ok [OF c(1)] by (auto simp: level_str_def)
  moreover have "is_full m \<longleftrightarrow> ms_merge m \<noteq> None" "ms_merge m \<noteq> None \<longrightarrow> MergeState_id m = map_option ifm_id (ms_merge m)"
    using str by (auto simp: level_str_def is_full_def BATCHES_PER_LEVEL_def)
  ultimately show ?case
    using Cons.IH [of i1 u1] Cons.prems(2) c(2) by auto
qed

lemma spine_inv_validate: "spine_inv sp \<Longrightarrow> Spine_validate sp = Inr ()"
proof -
  assume inv: "spine_inv sp"
  have "level_str (sp_since sp) (lvl (sp_merging sp) k)" for k
    using inv by (simp add: spine_inv_def levels_ok_def)
  then have "\<forall>m \<in> set (rev (sp_merging sp)). level_str (sp_since sp) m"
    by (metis in_set_conv_nth lvl_nth set_rev)
  with validate_levels_ok [of "SpineId 0 0" bot "rev (sp_merging sp)" "sp_next_id sp" "sp_upper sp" "sp_since sp"] inv
  show ?thesis
    by (auto simp: spine_inv_def Spine_validate_def spine_batches_def level_batches_def)
qed

subsection \<open>The spine as a store of batches\<close>

text \<open>
  What a client relies on: a store that accepts batches one after the other and does
  maintenance in between. \<open>view\<close> is the part of the state that decides which batch is
  acceptable next; \<open>contents\<close> is what the store must not lose.
\<close>

fun run_store ::
  "('b \<Rightarrow> 's \<Rightarrow> 's option) \<Rightarrow> ('m \<Rightarrow> 's \<Rightarrow> 's option) \<Rightarrow> ('b + 'm) list \<Rightarrow> 's \<Rightarrow> 's option" where
  "run_store put maintain [] s = Some s"
| "run_store put maintain (Inl b # ops) s = Option.bind (put b s) (run_store put maintain ops)"
| "run_store put maintain (Inr m # ops) s = Option.bind (maintain m s) (run_store put maintain ops)"

fun acceptable ::
  "('v \<Rightarrow> 'b \<Rightarrow> bool) \<Rightarrow> ('b \<Rightarrow> 'v \<Rightarrow> 'v) \<Rightarrow> ('m \<Rightarrow> bool) \<Rightarrow> ('b + 'm) list \<Rightarrow> 'v \<Rightarrow> bool" where
  "acceptable accepts advance affordable [] v \<longleftrightarrow> True"
| "acceptable accepts advance affordable (Inl b # ops) v \<longleftrightarrow>
     accepts v b \<and> acceptable accepts advance affordable ops (advance b v)"
| "acceptable accepts advance affordable (Inr m # ops) v \<longleftrightarrow>
     affordable m \<and> acceptable accepts advance affordable ops v"

fun puts :: "('b + 'm) list \<Rightarrow> 'b list" where
  "puts [] = []"
| "puts (Inl b # ops) = b # puts ops"
| "puts (Inr m # ops) = puts ops"

locale batch_store =
  fixes inv :: "'s \<Rightarrow> bool" and contents :: "'s \<Rightarrow> 'b list" and view :: "'s \<Rightarrow> 'v"
    and put :: "'b \<Rightarrow> 's \<Rightarrow> 's option" and maintain :: "'m \<Rightarrow> 's \<Rightarrow> 's option"
    and accepts :: "'v \<Rightarrow> 'b \<Rightarrow> bool" and advance :: "'b \<Rightarrow> 'v \<Rightarrow> 'v"
    and affordable :: "'m \<Rightarrow> bool" and keep :: "'b \<Rightarrow> bool"
  assumes put_ok: "\<lbrakk>inv s; accepts (view s) b\<rbrakk> \<Longrightarrow>
      \<exists>s'. put b s = Some s' \<and> inv s' \<and> contents s' = contents s @ filter keep [b] \<and>
        view s' = advance b (view s)"
    and maintain_ok: "\<lbrakk>inv s; affordable m\<rbrakk> \<Longrightarrow>
      \<exists>s'. maintain m s = Some s' \<and> inv s' \<and> contents s' = contents s \<and> view s' = view s"
begin

lemma run_ok:
  assumes "inv s" and "acceptable accepts advance affordable ops (view s)"
  shows "\<exists>s'. run_store put maintain ops s = Some s' \<and> inv s' \<and>
    contents s' = contents s @ filter keep (puts ops)"
  using assms
proof (induction ops arbitrary: s)
  case Nil
  then show ?case by simp
next
  case (Cons x ops)
  show ?case
  proof (cases x)
    case (Inl b)
    with Cons.prems obtain s1 where s1: "put b s = Some s1" "inv s1"
      "contents s1 = contents s @ filter keep [b]" "view s1 = advance b (view s)"
      using put_ok [of s b] by auto
    with Cons.IH [of s1] Cons.prems Inl show ?thesis by auto
  next
    case (Inr m)
    with Cons.prems obtain s1 where s1: "maintain m s = Some s1" "inv s1" "contents s1 = contents s" "view s1 = view s"
      using maintain_ok [of s m] by auto
    with Cons.IH [of s1] Cons.prems Inr show ?thesis by auto
  qed
qed

end

text \<open>The spine with its merge log is such a store; batches without updates are not kept.\<close>

type_synonym 'f logged_spine = "'f Spine \<times> 'f SpineLog"

definition spine_put :: "'f :: bounded_lattice HollowBatch \<Rightarrow> 'f logged_spine \<Rightarrow> 'f logged_spine option" where
  "spine_put hb s = Spine_insert (fst s) hb (snd s)"

definition spine_maintain :: "nat \<Rightarrow> 'f :: bounded_lattice logged_spine \<Rightarrow> 'f logged_spine option" where
  "spine_maintain effort s = map_option (\<lambda>((_, sp), log). (sp, log)) (Spine_exert (fst s) effort (snd s))"

definition spine_contents :: "'f Spine \<Rightarrow> 'f HollowBatch list" where
  "spine_contents sp = map ihb_batch (spine_data sp)"

definition spine_view :: "'f Spine \<Rightarrow> 'f \<times> 'f \<times> nat" where
  "spine_view sp = (sp_since sp, sp_upper sp, spine_len sp)"

fun spine_accepts :: "'f :: bounded_lattice \<times> 'f \<times> nat \<Rightarrow> 'f HollowBatch \<Rightarrow> bool" where
  "spine_accepts (s, u, n) hb \<longleftrightarrow>
     d_lower (hb_desc hb) < d_upper (hb_desc hb) \<and> d_lower (hb_desc hb) = u \<and>
     d_since (hb_desc hb) \<le> s \<and> hb_len hb \<le> 2 ^ 60 \<and> n + hb_len hb < 2 ^ 64"

fun spine_advance :: "'f HollowBatch \<Rightarrow> 'f \<times> 'f \<times> nat \<Rightarrow> 'f \<times> 'f \<times> nat" where
  "spine_advance hb (s, u, n) = (s, d_upper (hb_desc hb), n + hb_len hb)"

definition exert_affordable :: "nat \<Rightarrow> bool" where
  "exert_affordable effort \<longleftrightarrow> effort \<le> 2 ^ 60"

lemma hb_fits_view: "hb_fits sp hb \<longleftrightarrow> spine_accepts (spine_view sp) hb"
  by (simp add: hb_fits_def spine_view_def)

interpretation spine_store: batch_store "spine_inv \<circ> fst" "spine_contents \<circ> fst" "spine_view \<circ> fst"
  spine_put spine_maintain spine_accepts spine_advance exert_affordable "\<lambda>hb. hb_len hb \<noteq> 0"
proof
  fix s :: "'f :: bounded_lattice logged_spine" and hb
  assume "(spine_inv \<circ> fst) s" and "spine_accepts ((spine_view \<circ> fst) s) hb"
  then have "spine_inv (fst s)" and "hb_fits (fst s) hb"
    by (simp_all add: hb_fits_view)
  then show "\<exists>s'. spine_put hb s = Some s' \<and> (spine_inv \<circ> fst) s' \<and>
      (spine_contents \<circ> fst) s' = (spine_contents \<circ> fst) s @ filter (\<lambda>hb. hb_len hb \<noteq> 0) [hb] \<and>
      (spine_view \<circ> fst) s' = spine_advance hb ((spine_view \<circ> fst) s)"
    by (rule Spine_insert_ok [of "fst s" hb "snd s"])
      (auto simp: spine_put_def spine_contents_def spine_view_def hb_entry_def)
next
  fix s :: "'f :: bounded_lattice logged_spine" and effort
  assume inv: "(spine_inv \<circ> fst) s" and "exert_affordable effort"
  then have "spine_inv (fst s)" and "effort \<le> 2 ^ 60"
    by (simp_all add: exert_affordable_def)
  then show "\<exists>s'. spine_maintain effort s = Some s' \<and> (spine_inv \<circ> fst) s' \<and>
      (spine_contents \<circ> fst) s' = (spine_contents \<circ> fst) s \<and> (spine_view \<circ> fst) s' = (spine_view \<circ> fst) s"
    by (rule Spine_exert_ok [of "fst s" effort "snd s"])
      (auto simp: spine_maintain_def spine_contents_def spine_view_def)
qed

subsection \<open>Properties\<close>


definition sample_batch :: "'f :: bounded_lattice \<Rightarrow> 'f \<Rightarrow> nat \<Rightarrow> 'f HollowBatch" where
  "sample_batch l u n =
     HollowBatch_new_run (Description_new l u bot) (if n = 0 then [] else [Single (Inline [] None None None)]) n"


end
