(* ===== verification/Trace.thy ===== *)
theory Trace
  imports Merge_Res Spine_Safe
begin

section \<open>The trace (\<open>src/src/persist-client/src/internal/trace.rs\<close>)\<close>

text \<open>
  The wrapper around the spine that the state of a shard holds, with the operations the
  state machine calls: appending a batch, downgrading the since, maintenance, selecting and
  claiming compactions and applying their results.
\<close>

record 'f Trace =
  tr_spine :: "'f Spine"
  tr_roundtrip_structure :: bool

definition Trace_default :: "'f :: bounded_lattice Trace" where
  "Trace_default = \<lparr>tr_spine = Spine_new, tr_roundtrip_structure = True\<rparr>"

definition Trace_since :: "'f Trace \<Rightarrow> 'f" where
  "Trace_since t = sp_since (tr_spine t)"

definition Trace_upper :: "'f Trace \<Rightarrow> 'f" where
  "Trace_upper t = sp_upper (tr_spine t)"

definition Trace_batches :: "'f Trace \<Rightarrow> 'f HollowBatch list" where
  "Trace_batches t = map ihb_batch (concat (map sb_parts (spine_batches (tr_spine t))))"

definition num_spine_batches :: "'f Trace \<Rightarrow> nat" where
  "num_spine_batches t = length (spine_batches (tr_spine t))"

definition Trace_downgrade_since :: "'f \<Rightarrow> 'f Trace \<Rightarrow> 'f Trace" where
  "Trace_downgrade_since s t = t\<lparr>tr_spine := (tr_spine t)\<lparr>sp_since := s\<rparr>\<rparr>"

subsection \<open>Merge requests\<close>

definition req_covers :: "'f FueledMergeReq \<Rightarrow> 'f FueledMergeReq \<Rightarrow> bool" where
  "req_covers b0 b1 \<longleftrightarrow>
     SpineId_covers (req_id b0) (req_id b1) \<and> d_since (req_desc b0) = d_since (req_desc b1)"

text \<open>\<open>pop\<close> takes the last request first; the recursion is over the reversed list.\<close>

fun stage_merge_reqs :: "'f FueledMergeReq list \<Rightarrow> 'f FueledMergeReq list \<Rightarrow> 'f FueledMergeReq list" where
  "stage_merge_reqs [] ret = ret"
| "stage_merge_reqs (merge_req # merge_reqs) ret =
     (let covered = list_ex (\<lambda>r. req_covers r merge_req) ret
      in stage_merge_reqs merge_reqs
           (if covered then ret
            else filter (\<lambda>r. \<not> req_covers merge_req r) ret @ [merge_req]))"

definition remove_redundant_merge_reqs :: "'f FueledMergeReq list \<Rightarrow> 'f FueledMergeReq list" where
  "remove_redundant_merge_reqs merge_reqs = stage_merge_reqs (rev merge_reqs) []"

fun SpineLog_reqs :: "'f SpineLog \<Rightarrow> 'f FueledMergeReq list" where
  "SpineLog_reqs (Enabled merge_reqs) = merge_reqs"
| "SpineLog_reqs Disabled = []"

subsection \<open>Appending and maintenance\<close>

definition Trace_push_batch ::
  "'f :: bounded_lattice HollowBatch \<Rightarrow> 'f Trace \<Rightarrow> ('f FueledMergeReq list \<times> 'f Trace) option" where
  "Trace_push_batch batch t = do {
     (sp, log) \<leftarrow> Spine_insert (tr_spine t) batch (Enabled []);
     Some (remove_redundant_merge_reqs (SpineLog_reqs log), t\<lparr>tr_spine := sp\<rparr>)
   }"

definition push_batch_no_merge_reqs :: "'f :: bounded_lattice HollowBatch \<Rightarrow> 'f Trace \<Rightarrow> 'f Trace option" where
  "push_batch_no_merge_reqs batch t = do {
     (sp, log) \<leftarrow> Spine_insert (tr_spine t) batch Disabled;
     Some (t\<lparr>tr_spine := sp\<rparr>)
   }"

definition Trace_exert ::
  "nat \<Rightarrow> 'f :: bounded_lattice Trace \<Rightarrow> (('f FueledMergeReq list \<times> bool) \<times> 'f Trace) option" where
  "Trace_exert fuel t = do {
     ((did_work, sp), log) \<leftarrow> Spine_exert (tr_spine t) fuel (Enabled []);
     Some ((remove_redundant_merge_reqs (SpineLog_reqs log), did_work), t\<lparr>tr_spine := sp\<rparr>)
   }"

definition Trace_validate :: "'f :: bounded_lattice Trace \<Rightarrow> 'f spine_error + unit" where
  "Trace_validate t = Spine_validate (tr_spine t)"

subsection \<open>Selecting and claiming compactions\<close>

fun any_old_writer :: "'d ext \<Rightarrow> WriterKey \<Rightarrow> 'f RunPart list \<Rightarrow> bool option" where
  "any_old_writer e min_writer [] = Some False"
| "any_old_writer e min_writer (p # ps) = do {
     key \<leftarrow> RunPart_writer_key e p;
     if (case key of None \<Rightarrow> False | Some writer \<Rightarrow> writer < min_writer) then Some True
     else any_old_writer e min_writer ps
   }"

fun any_part_old_writer :: "'d ext \<Rightarrow> WriterKey \<Rightarrow> 'f IdHollowBatch list \<Rightarrow> bool option" where
  "any_part_old_writer e min_writer [] = Some False"
| "any_part_old_writer e min_writer (b # bs) = do {
     old \<leftarrow> any_old_writer e min_writer (hb_parts (ihb_batch b));
     if old then Some True else any_part_old_writer e min_writer bs
   }"

text \<open>
  The iterator is lazy and its callers take the first \<open>n\<close> requests (the number of batches,
  when they collect all), so nothing after the last one taken is looked at.
\<close>

fun merge_reqs_before ::
  "'d ext \<Rightarrow> u64 \<Rightarrow> WriterKey option \<Rightarrow> nat \<Rightarrow> 'f SpineBatch list \<Rightarrow> 'f FueledMergeReq list option" where
  "merge_reqs_before e threshold_ms threshold_writer n [] = Some []"
| "merge_reqs_before e threshold_ms threshold_writer n (b # bs) =
     (if n = 0 then Some []
      else do {
        let noncompact = \<not> SpineBatch_is_compact b;
        old_writer \<leftarrow>
          (case threshold_writer of
             None \<Rightarrow> Some False
           | Some min_writer \<Rightarrow> any_part_old_writer e min_writer (sb_parts b));
        let unclaimed =
          (case sb_active_compaction b of None \<Rightarrow> True | Some c \<Rightarrow> ac_start_ms c \<le> threshold_ms);
        if (noncompact \<or> old_writer) \<and> unclaimed then
          map_option (Cons \<lparr>req_id = sb_id b, req_desc = sb_desc b, req_inputs = sb_parts b\<rparr>)
            (merge_reqs_before e threshold_ms threshold_writer (n - 1) bs)
        else merge_reqs_before e threshold_ms threshold_writer n bs
      })"

definition fueled_merge_reqs_before_ms ::
  "'d ext \<Rightarrow> 'f Trace \<Rightarrow> u64 \<Rightarrow> WriterKey option \<Rightarrow> nat \<Rightarrow> 'f FueledMergeReq list option" where
  "fueled_merge_reqs_before_ms e t threshold_ms threshold_writer n =
     merge_reqs_before e threshold_ms threshold_writer n (spine_batches (tr_spine t))"

text \<open>
  The loops over \<open>spine_batches_mut().rev()\<close> visit the newest batch first: the levels from
  the lowest up, in each level the last batch first. \<open>f\<close> is the loop body; the loop stops
  at the first batch whose result satisfies \<open>stop\<close> and otherwise returns \<open>dflt\<close>.
\<close>

fun update_batches ::
  "('b \<Rightarrow> ('r \<times> 'b) option) \<Rightarrow> ('r \<Rightarrow> bool) \<Rightarrow> 'r \<Rightarrow> 'b list \<Rightarrow> ('r \<times> 'b list) option" where
  "update_batches f stop dflt [] = Some (dflt, [])"
| "update_batches f stop dflt (b # bs) = do {
     (r, b') \<leftarrow> f b;
     if stop r then Some (r, b' # bs)
     else do {
       (r', bs') \<leftarrow> update_batches f stop dflt bs;
       Some (r', b' # bs')
     }
   }"

fun update_levels ::
  "('f SpineBatch \<Rightarrow> ('r \<times> 'f SpineBatch) option) \<Rightarrow> ('r \<Rightarrow> bool) \<Rightarrow> 'r \<Rightarrow> 'f MergeState list
     \<Rightarrow> ('r \<times> 'f MergeState list) option" where
  "update_levels f stop dflt [] = Some (dflt, [])"
| "update_levels f stop dflt (m # ms) = do {
     (r, bs) \<leftarrow> update_batches f stop dflt (rev (ms_batches m));
     let m' = m\<lparr>ms_batches := rev bs\<rparr>;
     if stop r then Some (r, m' # ms)
     else do {
       (r', ms') \<leftarrow> update_levels f stop dflt ms;
       Some (r', m' # ms')
     }
   }"

definition Trace_update ::
  "('f SpineBatch \<Rightarrow> ('r \<times> 'f SpineBatch) option) \<Rightarrow> ('r \<Rightarrow> bool) \<Rightarrow> 'r \<Rightarrow> 'f Trace \<Rightarrow> ('r \<times> 'f Trace) option"
where
  "Trace_update f stop dflt t = do {
     (r, ms) \<leftarrow> update_levels f stop dflt (sp_merging (tr_spine t));
     Some (r, t\<lparr>tr_spine := (tr_spine t)\<lparr>sp_merging := ms\<rparr>\<rparr>)
   }"

definition claim_body :: "SpineId \<Rightarrow> ActiveCompaction \<Rightarrow> 'f SpineBatch \<Rightarrow> (bool \<times> 'f SpineBatch) option" where
  "claim_body i compaction batch =
     (if sb_id batch = i then Some (True, batch\<lparr>sb_active_compaction := Some compaction\<rparr>)
      else Some (False, batch))"

definition claim_compaction :: "SpineId \<Rightarrow> ActiveCompaction \<Rightarrow> 'f Trace \<Rightarrow> 'f Trace option" where
  "claim_compaction i compaction t = map_option snd (Trace_update (claim_body i compaction) (\<lambda>r. r) False t)"

subsection \<open>Applying compaction results\<close>

definition apply_merge_res_checked ::
  "'d :: monoid_add ext \<Rightarrow> 'f :: bounded_lattice FueledMergeRes \<Rightarrow> 'f Trace
     \<Rightarrow> (ApplyMergeResult \<times> 'f Trace) option" where
  "apply_merge_res_checked e res t =
     Trace_update (\<lambda>b. maybe_replace_checked e b res) ApplyMergeResult_matched NotAppliedNoMatch t"

definition apply_merge_res_unchecked ::
  "'f :: bounded_lattice FueledMergeRes \<Rightarrow> 'f Trace \<Rightarrow> (ApplyMergeResult \<times> 'f Trace) option" where
  "apply_merge_res_unchecked res t =
     Trace_update (\<lambda>b. maybe_replace_unchecked b res) ApplyMergeResult_matched NotAppliedNoMatch t"

definition apply_tombstone_merge ::
  "'f Description \<Rightarrow> 'f Trace \<Rightarrow> (ApplyMergeResult \<times> 'f Trace) option" where
  "apply_tombstone_merge desc t =
     Trace_update (\<lambda>b. maybe_replace_with_tombstone b desc) ApplyMergeResult_matched NotAppliedNoMatch t"

subsection \<open>Metrics\<close>

record SpineMetrics =
  compact_batches :: nat
  compacting_batches :: nat
  noncompact_batches :: nat

definition spine_metrics :: "'f Trace \<Rightarrow> SpineMetrics" where
  "spine_metrics t =
     foldl (\<lambda>m b. if SpineBatch_is_compact b then m\<lparr>compact_batches := compact_batches m + 1\<rparr>
                  else if SpineBatch_is_merging b then m\<lparr>compacting_batches := compacting_batches m + 1\<rparr>
                  else m\<lparr>noncompact_batches := noncompact_batches m + 1\<rparr>)
       \<lparr>compact_batches = 0, compacting_batches = 0, noncompact_batches = 0\<rparr>
       (spine_batches (tr_spine t))"

end
