(* ===== verification/Schema.thy ===== *)
theory Schema
  imports Prelude
begin

section \<open>Schema evolution (\<open>src/src/persist-types/src/schema.rs\<close>)\<close>

text \<open>
  When a new schema may replace an old one, and the migration that turns data of the old
  type into data of the new one.

  \<open>DataType\<close> and \<open>Field\<close> are the enum and struct of the arrow crate, with the constructors
  the source distinguishes; \<open>Unsupported\<close> stands for the constructors on which it calls
  \<open>unimplemented!\<close>, told apart by a text. Field metadata, which Materialize does not use, is
  left out. The arrays themselves are code outside the repository: \<open>arrow_ops\<close> holds the
  operations the migration calls and is a parameter of it.
\<close>

datatype DataType =
    Null | Boolean | Int8 | Int16 | Int32 | Int64 | UInt8 | UInt16 | UInt32 | UInt64
  | Float16 | Float32 | Float64 | Binary | Utf8 | Date32 | Date64 | LargeBinary
  | BinaryView | LargeUtf8 | Utf8View
  | FixedSizeBinary int
  | Struct "Field list"
  | List Field
  | Map Field bool
  | Unsupported string
and Field = Field (f_name: string) (f_type: DataType) (f_nullable: bool)

datatype ArrayMigration =
    NoOp
  | MStruct "StructArrayMigration list"
  | MList Field ArrayMigration
and StructArrayMigration =
    AddFieldNullableAtEnd string DataType
  | DropField string
  | MakeNull string
  | AlterFieldNullable string
  | Recurse string ArrayMigration

fun contains_drop :: "ArrayMigration \<Rightarrow> bool"
  and struct_contains_drop :: "StructArrayMigration \<Rightarrow> bool" where
  "contains_drop NoOp = False"
| "contains_drop (MStruct xs) = list_ex struct_contains_drop xs"
| "contains_drop (MList _ x) = contains_drop x"
| "struct_contains_drop (AddFieldNullableAtEnd _ _) = False"
| "struct_contains_drop (DropField _) = True"
| "struct_contains_drop (MakeNull _) = True"
| "struct_contains_drop (AlterFieldNullable _) = False"
| "struct_contains_drop (Recurse _ migration) = contains_drop migration"

definition preserves_order :: "ArrayMigration \<Rightarrow> bool" where
  "preserves_order m = (\<not> contains_drop m)"

fun recursively_all_nullable :: "ArrayMigration \<Rightarrow> bool"
  and child_all_nullable :: "StructArrayMigration \<Rightarrow> bool" where
  "recursively_all_nullable NoOp = True"
| "recursively_all_nullable (MList _ child) = recursively_all_nullable child"
| "recursively_all_nullable (MStruct children) = list_all child_all_nullable children"
| "child_all_nullable (AddFieldNullableAtEnd _ _) = False"
| "child_all_nullable (DropField _) = False"
| "child_all_nullable (MakeNull _) = False"
| "child_all_nullable (AlterFieldNullable _) = True"
| "child_all_nullable (Recurse _ migration) = recursively_all_nullable migration"

subsection \<open>Compatibility\<close>

text \<open>\<open>Fields::find\<close>: the first field of that name, with its index.\<close>

fun find_from :: "nat \<Rightarrow> string \<Rightarrow> Field list \<Rightarrow> (nat \<times> Field) option" where
  "find_from i name [] = None"
| "find_from i name (f # fs) = (if f_name f = name then Some (i, f) else find_from (Suc i) name fs)"

abbreviation fields_find :: "string \<Rightarrow> Field list \<Rightarrow> (nat \<times> Field) option" where
  "fields_find \<equiv> find_from 0"

definition then_some :: "bool \<Rightarrow> 'a \<Rightarrow> 'a option" where
  "then_some b x = (if b then Some x else None)"

definition is_struct :: "DataType \<Rightarrow> bool" where
  "is_struct t = (case t of Struct _ \<Rightarrow> True | _ \<Rightarrow> False)"

definition same_order :: "Field list \<Rightarrow> Field list \<Rightarrow> bool" where
  "same_order old new =
     successively (\<le>) (map fst (List.map_filter (\<lambda>n. fields_find (f_name n) old) new))"

definition dropped_fields :: "Field list \<Rightarrow> Field list \<Rightarrow> StructArrayMigration list" where
  "dropped_fields old new =
     map (\<lambda>f. DropField (f_name f)) (filter (\<lambda>f. fields_find (f_name f) new = None) old)"

text \<open>
  The outer option is the panic of \<open>unimplemented!\<close>, the inner one incompatibility. The match
  on the pair of types is \<open>match_typ\<close>: it either decides or hands on the arguments of the
  recursive cases.
\<close>

datatype typ_match =
    Decided "ArrayMigration option option"
  | Match_struct "Field list" "Field list"
  | Match_list bool Field Field

definition match_typ :: "DataType \<Rightarrow> DataType \<Rightarrow> typ_match" where
  "match_typ old new =
     (case old of
        Unsupported _ \<Rightarrow> Decided panic
      | FixedSizeBinary o' \<Rightarrow>
          Decided (Some (case new of FixedSizeBinary n \<Rightarrow> then_some (o' = n) NoOp | _ \<Rightarrow> None))
      | Struct o' \<Rightarrow> (case new of Struct n \<Rightarrow> Match_struct o' n | _ \<Rightarrow> Decided (Some None))
      | List o' \<Rightarrow> (case new of List n \<Rightarrow> Match_list True o' n | _ \<Rightarrow> Decided (Some None))
      | Map o' _ \<Rightarrow>
          (case new of
             List n \<Rightarrow> Match_list False o' n
           | Map n _ \<Rightarrow> Decided (Some (then_some (o' = n) NoOp))
           | _ \<Rightarrow> Decided (Some None))
      | Null \<Rightarrow>
          Decided (Some (case new of
             Struct fields \<Rightarrow>
               then_some (list_all f_nullable fields)
                 (MStruct (map (\<lambda>f. AddFieldNullableAtEnd (f_name f) (f_type f)) fields))
           | _ \<Rightarrow> then_some (old = new) NoOp))
      | _ \<Rightarrow> Decided (Some (then_some (old = new) NoOp)))"

lemma match_typ_struct: "match_typ old new = Match_struct o' n \<Longrightarrow> old = Struct o' \<and> new = Struct n"
  by (auto simp: match_typ_def split: DataType.splits)

lemma match_typ_list:
  "match_typ old new = Match_list b o' n \<Longrightarrow>
     new = List n \<and> (if b then old = List o' else (\<exists>s. old = Map o' s))"
  by (auto simp: match_typ_def split: DataType.splits)

lemma f_type_smaller:
  "2 * size (f_type f) < Suc (2 * size f)" "2 * size (f_type f) < Suc (Suc (2 * size f + k))"
  by (cases f, simp)+

text \<open>
  \<open>compatible_fields\<close> is the first loop of \<open>backward_compatible_struct\<close>, from the fields
  that are left and \<open>added_field\<close> to the migrations it pushes.
\<close>

function (sequential) backward_compatible_typ :: "DataType \<Rightarrow> DataType \<Rightarrow> ArrayMigration option option"
  and backward_compatible_list :: "bool \<Rightarrow> Field \<Rightarrow> Field \<Rightarrow> ArrayMigration option option"
  and backward_compatible_struct :: "Field list \<Rightarrow> Field list \<Rightarrow> ArrayMigration option option"
  and compatible_fields :: "Field list \<Rightarrow> bool \<Rightarrow> Field list \<Rightarrow> StructArrayMigration list option option" where
  "backward_compatible_typ old new =
     (case match_typ old new of
        Decided res \<Rightarrow> res
      | Match_struct o' n \<Rightarrow> backward_compatible_struct o' n
      | Match_list old_is_list o' n \<Rightarrow> backward_compatible_list old_is_list o' n)"
| "backward_compatible_list old_is_list o' n =
     (if f_nullable o' \<and> \<not> f_nullable n then Some None
      else do {
        nested \<leftarrow> backward_compatible_typ (f_type o') (f_type n);
        Some (case nested of
                None \<Rightarrow> None
              | Some nested \<Rightarrow>
                  Some (if old_is_list \<and> o' = n \<and> nested = NoOp then NoOp else MList n nested))
      })"
| "backward_compatible_struct old new = do {
     migrations \<leftarrow> compatible_fields old False new;
     Some (case migrations of
             None \<Rightarrow> None
           | Some migrations \<Rightarrow>
               let field_migrations = migrations @ dropped_fields old new
               in if \<not> same_order old new then None
                  else if field_migrations = [] then Some NoOp
                  else Some (MStruct field_migrations))
   }"
| "compatible_fields old added_field [] = Some (Some [])"
| "compatible_fields old added_field (n # ns) =
     (case fields_find (f_name n) old of
        Some (_, o') \<Rightarrow>
          if added_field then Some None
          else if f_nullable o' \<and> \<not> f_nullable n then Some None
          else if is_struct (f_type o') \<and> f_nullable o' \<and> f_type n = Null then
            map_option (map_option (Cons (MakeNull (f_name n)))) (compatible_fields old added_field ns)
          else do {
            typ \<leftarrow> backward_compatible_typ (f_type o') (f_type n);
            let make_nullable = \<not> f_nullable o' \<and> f_nullable n;
            case typ of
              None \<Rightarrow> Some None
            | Some migration \<Rightarrow>
                if migration = NoOp then
                  (if make_nullable then
                     map_option (map_option (Cons (AlterFieldNullable (f_name n))))
                       (compatible_fields old added_field ns)
                   else compatible_fields old added_field ns)
                else if make_nullable then
                  (if recursively_all_nullable migration then
                     map_option (map_option (\<lambda>ms. AlterFieldNullable (f_name n) # Recurse (f_name n) migration # ms))
                       (compatible_fields old added_field ns)
                   else Some None)
                else
                  map_option (map_option (Cons (Recurse (f_name n) migration)))
                    (compatible_fields old added_field ns)
          }
      | None \<Rightarrow>
          if \<not> f_nullable n then Some None
          else
            map_option (map_option (Cons (AddFieldNullableAtEnd (f_name n) (f_type n))))
              (compatible_fields old True ns))"

  by pat_completeness auto
termination
  by (relation "measure (\<lambda>x. case x of
      Inl (Inl (_, t)) \<Rightarrow> 2 * size t
    | Inl (Inr (_, _, f)) \<Rightarrow> 2 * size f + 1
    | Inr (Inl (_, fs)) \<Rightarrow> 2 * size_list size fs + 1
    | Inr (Inr (_, _, fs)) \<Rightarrow> 2 * size_list size fs)")
    (auto dest!: match_typ_struct match_typ_list intro: f_type_smaller)

declare backward_compatible_typ.simps [simp del]

abbreviation backward_compatible :: "DataType \<Rightarrow> DataType \<Rightarrow> ArrayMigration option option" where
  "backward_compatible \<equiv> backward_compatible_typ"

subsection \<open>Migration\<close>

record ('a, 'o, 'n) arrow_ops =
  ar_len :: "'a \<Rightarrow> nat"
  ar_data_type :: "'a \<Rightarrow> DataType"
  ar_struct_parts :: "'a \<Rightarrow> Field list \<times> 'a list \<times> 'n option"
  ar_struct_new :: "Field list \<Rightarrow> 'a list \<Rightarrow> 'n option \<Rightarrow> 'a option"
  ar_struct_new_empty_fields :: "nat \<Rightarrow> 'n option \<Rightarrow> 'a option"
  ar_list_parts :: "'a \<Rightarrow> Field \<times> 'o \<times> 'a \<times> 'n option"
  ar_list_new :: "Field \<Rightarrow> 'o \<Rightarrow> 'a \<Rightarrow> 'n option \<Rightarrow> 'a option"
  ar_new_null_array :: "DataType \<Rightarrow> nat \<Rightarrow> 'a"

text \<open>
  A step of a struct migration works on the fields and the arrays of the struct;
  \<open>NullArray::new(len)\<close> is \<open>new_null_array\<close> at the null type. Panics are \<open>None\<close>: a field
  that is not found, an index out of range, an assertion, a constructor that rejects its
  arguments. A map array is converted to a list array before it is taken apart;
  \<open>ar_list_parts\<close> is that composition.
\<close>

definition is_add_nullable :: "StructArrayMigration \<Rightarrow> bool" where
  "is_add_nullable m = (case m of AddFieldNullableAtEnd _ _ \<Rightarrow> True | _ \<Rightarrow> False)"

definition struct_start ::
  "('a, 'o, 'n) arrow_ops \<Rightarrow> StructArrayMigration list \<Rightarrow> 'a \<Rightarrow> (Field list \<times> 'a list \<times> 'n option) option" where
  "struct_start A migrations array =
     (case ar_data_type A array of
        Null \<Rightarrow> do { assert (list_all is_add_nullable migrations); Some ([], [], None) }
      | Struct _ \<Rightarrow> Some (ar_struct_parts A array)
      | _ \<Rightarrow> panic)"

definition struct_finish ::
  "('a, 'o, 'n) arrow_ops \<Rightarrow> nat \<Rightarrow> 'n option \<Rightarrow> Field list \<times> 'a list \<Rightarrow> 'a option" where
  "struct_finish A len nulls = (\<lambda>(fs, arrays). do {
     assert (length fs = length arrays);
     if arrays = [] then ar_struct_new_empty_fields A len nulls
     else ar_struct_new A fs arrays nulls
   })"

fun migrate :: "('a, 'o, 'n) arrow_ops \<Rightarrow> ArrayMigration \<Rightarrow> 'a \<Rightarrow> 'a option"
  and migrate_fields :: "('a, 'o, 'n) arrow_ops \<Rightarrow> StructArrayMigration list \<Rightarrow> nat \<Rightarrow> Field list \<times> 'a list
    \<Rightarrow> (Field list \<times> 'a list) option"
  and migrate_field :: "('a, 'o, 'n) arrow_ops \<Rightarrow> StructArrayMigration \<Rightarrow> nat \<Rightarrow> Field list \<times> 'a list
    \<Rightarrow> (Field list \<times> 'a list) option" where
  "migrate A NoOp array = Some array"
| "migrate A (MStruct migrations) array = do {
     (fs, arrays, nulls) \<leftarrow> struct_start A migrations array;
     fa \<leftarrow> migrate_fields A migrations (ar_len A array) (fs, arrays);
     struct_finish A (ar_len A array) nulls fa
   }"
| "migrate A (MList field entry_migration) array =
     (if (case ar_data_type A array of List _ \<Rightarrow> True | Map _ _ \<Rightarrow> True | _ \<Rightarrow> False) then
        (case ar_list_parts A array of (_, offsets, entries, nulls) \<Rightarrow> do {
           entries \<leftarrow> migrate A entry_migration entries;
           ar_list_new A field offsets entries nulls
         })
      else panic)"
| "migrate_fields A [] len fa = Some fa"
| "migrate_fields A (m # ms) len fa = do {
     fa \<leftarrow> migrate_field A m len fa;
     migrate_fields A ms len fa
   }"
| "migrate_field A (AddFieldNullableAtEnd name typ) len (fs, arrays) =
     Some (fs @ [Field name typ True], arrays @ [ar_new_null_array A typ len])"
| "migrate_field A (DropField name) len (fs, arrays) = do {
     (idx, _) \<leftarrow> fields_find name fs;
     assert (idx < length arrays);
     Some (remove_at idx fs, remove_at idx arrays)
   }"
| "migrate_field A (MakeNull name) len (fs, arrays) = do {
     (idx, _) \<leftarrow> fields_find name fs;
     assert (idx < length arrays);
     Some (fs[idx := Field name Null True],
           arrays[idx := ar_new_null_array A Null (ar_len A (arrays ! idx))])
   }"
| "migrate_field A (AlterFieldNullable name) len (fs, arrays) = do {
     (idx, field) \<leftarrow> fields_find name fs;
     assert (\<not> f_nullable field);
     Some (fs[idx := Field (f_name field) (f_type field) True], arrays)
   }"
| "migrate_field A (Recurse name migration) len (fs, arrays) = do {
     (idx, field) \<leftarrow> fields_find name fs;
     assert (idx < length arrays);
     array \<leftarrow> migrate A migration (arrays ! idx);
     Some (fs[idx := Field name (ar_data_type A array) (f_nullable field)], arrays[idx := array])
   }"

end
