(* ===== verification/State.thy ===== *)
theory State
  imports Trace Schema
begin

section \<open>The state of a shard (\<open>src/src/persist-client/src/internal/state.rs\<close>)\<close>

text \<open>
  The versioned state machine of a shard: its readers, writers, rollups, schemas and trace,
  and every transition on them. A transition returns \<open>ControlFlow\<close>: \<open>Continue\<close> commits the
  new state, \<open>Break\<close> does not. Both carry the collections as the function leaves them.

  Reader, writer and shard ids and idempotency tokens are their bytes. A key or value schema
  is a type variable; encoding and decoding schemas and arrow types and the arrow type of a
  schema are the fields of \<open>schema_ops\<close> and \<open>dt_ops\<close>, parameters of the transitions that use
  them. The clock is an argument.
\<close>

datatype ('b, 'c) ControlFlow = Break 'b | Continue 'c

type_synonym SeqNo = u64

definition SeqNo_previous :: "SeqNo \<Rightarrow> SeqNo option" where
  "SeqNo_previous s = (if s = 0 then None else Some (s - 1))"

definition SeqNo_next :: "SeqNo \<Rightarrow> SeqNo" where
  "SeqNo_next s = s + 1"

definition SeqNo_minimum :: SeqNo where
  "SeqNo_minimum = 0"

definition SeqNo_maximum :: SeqNo where
  "SeqNo_maximum = - 1"

type_synonym IdempotencyToken = bytes

definition SENTINEL :: IdempotencyToken where
  "SENTINEL = replicate 16 17"

record HandleDebugState =
  dbg_hostname :: string
  dbg_purpose :: string

type_synonym Opaque = "string \<times> bytes"

record 'f LeasedReaderState =
  lr_seqno :: SeqNo
  lr_since :: 'f
  lr_last_heartbeat_timestamp_ms :: u64
  lr_lease_duration_ms :: u64
  lr_debug :: HandleDebugState

record 'f CriticalReaderState =
  cr_since :: 'f
  cr_opaque :: Opaque
  cr_debug :: HandleDebugState

record 'f WriterState =
  ws_last_heartbeat_timestamp_ms :: u64
  ws_lease_duration_ms :: u64
  ws_most_recent_write_token :: IdempotencyToken
  ws_most_recent_write_upper :: 'f
  ws_debug :: HandleDebugState

record HollowRollup =
  ro_key :: string
  ro_encoded_size_bytes :: "nat option"

datatype 'f HollowBlobRef = BlobRef_Batch "'f HollowBatch" | BlobRef_Rollup HollowRollup

record ActiveRollup =
  arol_seqno :: SeqNo
  arol_start_ms :: u64

record ActiveGc =
  agc_seqno :: SeqNo
  agc_start_ms :: u64

record EncodedSchemas =
  es_key :: bytes
  es_key_data_type :: bytes
  es_val :: bytes
  es_val_data_type :: bytes

record 'f StateCollections =
  sc_version :: semver
  sc_last_gc_req :: SeqNo
  sc_rollups :: "(SeqNo, HollowRollup) btree_map"
  sc_active_rollup :: "ActiveRollup option"
  sc_active_gc :: "ActiveGc option"
  sc_leased_readers :: "(bytes, 'f LeasedReaderState) btree_map"
  sc_critical_readers :: "(bytes, 'f CriticalReaderState) btree_map"
  sc_writers :: "(bytes, 'f WriterState) btree_map"
  sc_schemas :: "(nat, EncodedSchemas) btree_map"
  sc_trace :: "'f Trace"

datatype 'f InvalidUsage = InvalidBounds 'f 'f | InvalidEmptyTimeInterval 'f 'f "string list"

datatype 'f CompareAndAppendBreak =
    AlreadyCommitted
  | CAB_Upper 'f 'f
  | CAB_InvalidUsage "'f InvalidUsage"
  | InlineBackpressure

datatype 'f SnapshotErr = AsOfNotYetAvailable SeqNo 'f | AsOfHistoricalDistinctionsLost 'f

subsection \<open>Frontiers, tombstones and capabilities\<close>

fun meet_all :: "'f :: bounded_lattice list \<Rightarrow> 'f option" where
  "meet_all [] = None"
| "meet_all (s # ss) = Some (foldl inf s ss)"

definition critical_since :: "'f :: bounded_lattice StateCollections \<Rightarrow> 'f option" where
  "critical_since s = meet_all (map cr_since (btree_values (sc_critical_readers s)))"

definition reader_sinces :: "'f StateCollections \<Rightarrow> 'f list" where
  "reader_sinces s =
     map lr_since (btree_values (sc_leased_readers s)) @ map cr_since (btree_values (sc_critical_readers s))"

definition update_since :: "'f :: bounded_lattice StateCollections \<Rightarrow> 'f StateCollections" where
  "update_since s =
     (case meet_all (reader_sinces s) of
        None \<Rightarrow> s
      | Some since \<Rightarrow> s\<lparr>sc_trace := Trace_downgrade_since since (sc_trace s)\<rparr>)"

definition collections_seqno_since :: "SeqNo \<Rightarrow> 'f StateCollections \<Rightarrow> SeqNo" where
  "collections_seqno_since seqno s = foldl min seqno (map lr_seqno (btree_values (sc_leased_readers s)))"

definition tombstone_batch :: "'f :: bounded_lattice HollowBatch" where
  "tombstone_batch = HollowBatch_empty (Description_new bot top top)"

definition is_tombstone :: "'f :: bounded_lattice StateCollections \<Rightarrow> bool" where
  "is_tombstone s \<longleftrightarrow>
     Trace_upper (sc_trace s) = top \<and> Trace_since (sc_trace s) = top \<and>
     sc_writers s = [] \<and> sc_leased_readers s = [] \<and> sc_critical_readers s = []"

definition is_single_empty_batch :: "'f StateCollections \<Rightarrow> bool" where
  "is_single_empty_batch s \<longleftrightarrow>
     length (Trace_batches (sc_trace s)) \<le> 1 \<and> list_all HollowBatch_is_empty (Trace_batches (sc_trace s))"

subsection \<open>Rollups\<close>

definition add_rollup ::
  "SeqNo \<times> HollowRollup \<Rightarrow> 'f StateCollections \<Rightarrow> (bool, bool) ControlFlow \<times> 'f StateCollections" where
  "add_rollup = (\<lambda>(rollup_seqno, rollup) s.
     case btree_get (sc_rollups s) rollup_seqno of
       Some x \<Rightarrow> (Continue (ro_key x = ro_key rollup), s)
     | None \<Rightarrow>
         if (case btree_keys (sc_rollups s) of [] \<Rightarrow> False | min_kept # _ \<Rightarrow> rollup_seqno < min_kept)
         then (Continue False, s)
         else (Continue True, s\<lparr>sc_active_rollup := None,
                sc_rollups := btree_insert rollup_seqno rollup (sc_rollups s)\<rparr>))"

fun remove_rollups_loop ::
  "(SeqNo \<times> string) list \<Rightarrow> (SeqNo, HollowRollup) btree_map \<Rightarrow> SeqNo list \<times> (SeqNo, HollowRollup) btree_map" where
  "remove_rollups_loop [] rollups = ([], rollups)"
| "remove_rollups_loop ((seqno, _) # rest) rollups =
     (let (removed, rollups') = remove_rollups_loop rest (btree_remove seqno rollups)
      in (if btree_get rollups seqno \<noteq> None then seqno # removed else removed, rollups'))"

definition remove_rollups ::
  "(SeqNo \<times> string) list \<Rightarrow> 'f :: bounded_lattice StateCollections
     \<Rightarrow> (SeqNo list, SeqNo list) ControlFlow \<times> 'f StateCollections" where
  "remove_rollups rms s =
     (if is_tombstone s then (Break [], s)
      else
        let active_gc_was_set = (sc_active_gc s \<noteq> None);
            s1 = s\<lparr>sc_active_gc := None\<rparr>
        in if rms = [] then (if active_gc_was_set then Continue [] else Break [], s1)
           else
             let (removed, rollups) = remove_rollups_loop rms (sc_rollups s1)
             in (Continue removed, s1\<lparr>sc_rollups := rollups\<rparr>))"

subsection \<open>Registering readers\<close>

text \<open>A \<open>Duration\<close> in milliseconds is a \<open>u128\<close>: a \<open>nat\<close> that must fit in a \<open>u64\<close>.\<close>

definition register_leased_reader ::
  "string \<Rightarrow> bytes \<Rightarrow> string \<Rightarrow> SeqNo \<Rightarrow> nat \<Rightarrow> u64 \<Rightarrow> bool \<Rightarrow> 'f :: bounded_lattice StateCollections
     \<Rightarrow> (('f LeasedReaderState \<times> SeqNo, 'f LeasedReaderState \<times> SeqNo) ControlFlow \<times> 'f StateCollections) option" where
  "register_leased_reader host reader_id purp seqno lease_duration heartbeat_timestamp_ms use_critical_since s = do {
     let since =
       (if use_critical_since then
          (case critical_since s of Some c \<Rightarrow> c | None \<Rightarrow> Trace_since (sc_trace s))
        else Trace_since (sc_trace s));
     assert (lease_duration < 2 ^ 64);
     let reader_state =
       \<lparr>lr_seqno = seqno, lr_since = since, lr_last_heartbeat_timestamp_ms = heartbeat_timestamp_ms,
        lr_lease_duration_ms = of_nat lease_duration,
        lr_debug = \<lparr>dbg_hostname = host, dbg_purpose = purp\<rparr>\<rparr>;
     if is_tombstone s then Some (Break (reader_state, collections_seqno_since seqno s), s)
     else
       (let s' = s\<lparr>sc_leased_readers := btree_insert reader_id reader_state (sc_leased_readers s)\<rparr>
        in Some (Continue (reader_state, collections_seqno_since seqno s'), s'))
   }"

definition register_critical_reader ::
  "string \<Rightarrow> bytes \<Rightarrow> Opaque \<Rightarrow> string \<Rightarrow> 'f :: bounded_lattice StateCollections
     \<Rightarrow> ('f CriticalReaderState, 'f CriticalReaderState) ControlFlow \<times> 'f StateCollections" where
  "register_critical_reader host reader_id opaque purp s =
     (let state = \<lparr>cr_since = Trace_since (sc_trace s), cr_opaque = opaque,
            cr_debug = \<lparr>dbg_hostname = host, dbg_purpose = purp\<rparr>\<rparr>
      in if is_tombstone s then (Break state, s)
         else
           let state' = (case btree_get (sc_critical_readers s) reader_id of
                 Some existing_state \<Rightarrow> existing_state\<lparr>cr_debug := cr_debug state\<rparr>
               | None \<Rightarrow> state)
           in (Continue state',
               s\<lparr>sc_critical_readers := btree_insert reader_id state' (sc_critical_readers s)\<rparr>))"

subsection \<open>Schemas\<close>

record 's schema_ops =
  so_encode :: "'s \<Rightarrow> bytes"
  so_decode :: "bytes \<Rightarrow> 's"
  so_data_type :: "'s \<Rightarrow> DataType option"

record dt_ops =
  dt_encode :: "DataType \<Rightarrow> bytes"
  dt_decode :: "bytes \<Rightarrow> DataType option"

definition find_registered ::
  "'k schema_ops \<Rightarrow> 'v schema_ops \<Rightarrow> 'k \<Rightarrow> 'v \<Rightarrow> (nat, EncodedSchemas) btree_map \<Rightarrow> (nat \<times> EncodedSchemas) option" where
  "find_registered K V key_schema val_schema schemas =
     find (\<lambda>(_, x). so_decode K (es_key x) = key_schema \<and> so_decode V (es_val x) = val_schema) (rev schemas)"

definition encoded_schemas ::
  "'k schema_ops \<Rightarrow> 'v schema_ops \<Rightarrow> dt_ops \<Rightarrow> 'k \<Rightarrow> 'v \<Rightarrow> DataType \<Rightarrow> DataType \<Rightarrow> EncodedSchemas" where
  "encoded_schemas K V D key_schema val_schema key_data_type val_data_type =
     \<lparr>es_key = so_encode K key_schema, es_key_data_type = dt_encode D key_data_type,
      es_val = so_encode V val_schema, es_val_data_type = dt_encode D val_data_type\<rparr>"

definition register_schema ::
  "'k schema_ops \<Rightarrow> 'v schema_ops \<Rightarrow> dt_ops \<Rightarrow> 'k \<Rightarrow> 'v \<Rightarrow> 'f :: bounded_lattice StateCollections
     \<Rightarrow> ((nat option, nat option) ControlFlow \<times> 'f StateCollections) option" where
  "register_schema K V D key_schema val_schema s =
     (case find_registered K V key_schema val_schema (sc_schemas s) of
        Some (schema_id, _) \<Rightarrow> Some (Break (Some schema_id), s)
      | None \<Rightarrow>
          if is_tombstone s then Some (Break None, s)
          else if sc_schemas s = [] then do {
            let new_id = length (sc_schemas s);
            key_data_type \<leftarrow> so_data_type K key_schema;
            val_data_type \<leftarrow> so_data_type V val_schema;
            assert (btree_get (sc_schemas s) new_id = None);
            Some (Continue (Some new_id),
              s\<lparr>sc_schemas := btree_insert new_id
                 (encoded_schemas K V D key_schema val_schema key_data_type val_data_type) (sc_schemas s)\<rparr>)
          }
          else Some (Break None, s))"

datatype ('k, 'v) CaESchema =
  CaES_Ok nat | CaES_Incompatible | CaES_ExpectedMismatch nat 'k 'v

definition compare_and_evolve_schema ::
  "'k schema_ops \<Rightarrow> 'v schema_ops \<Rightarrow> dt_ops \<Rightarrow> nat \<Rightarrow> 'k \<Rightarrow> 'v \<Rightarrow> 'f StateCollections
     \<Rightarrow> ((('k, 'v) CaESchema, ('k, 'v) CaESchema) ControlFlow \<times> 'f StateCollections) option" where
  "compare_and_evolve_schema K V D expected key_schema val_schema s = do {
     assert (sc_schemas s \<noteq> []);
     let (current_id, current) = last (sc_schemas s);
     let current_key = so_decode K (es_key current);
     current_key_dt \<leftarrow> dt_decode D (es_key_data_type current);
     let current_val = so_decode V (es_val current);
     current_val_dt \<leftarrow> dt_decode D (es_val_data_type current);
     key_dt \<leftarrow> so_data_type K key_schema;
     val_dt \<leftarrow> so_data_type V val_schema;
     if current_key = key_schema \<and> current_key_dt = key_dt \<and> current_val = val_schema \<and> current_val_dt = val_dt then
       Some (Break (CaES_Ok current_id), s)
     else if current_id \<noteq> expected then
       Some (Break (CaES_ExpectedMismatch current_id current_key current_val), s)
     else do {
       key_fn \<leftarrow> backward_compatible current_key_dt key_dt;
       val_fn \<leftarrow> backward_compatible current_val_dt val_dt;
       Some (case (key_fn, val_fn) of
               (Some key_fn, Some val_fn) \<Rightarrow>
                 if contains_drop key_fn \<or> contains_drop val_fn then (Break CaES_Incompatible, s)
                 else
                   let new_id = length (sc_schemas s)
                   in (Continue (CaES_Ok new_id),
                       s\<lparr>sc_schemas := btree_insert new_id
                          (encoded_schemas K V D key_schema val_schema key_dt val_dt) (sc_schemas s)\<rparr>)
             | _ \<Rightarrow> (Break CaES_Incompatible, s))
     }
   }"

subsection \<open>Appending\<close>

text \<open>The loop that claims every merge request the append hands out.\<close>

fun claim_all :: "u64 \<Rightarrow> 'f FueledMergeReq list \<Rightarrow> 'f Trace \<Rightarrow> 'f Trace option" where
  "claim_all start_ms [] t = Some t"
| "claim_all start_ms (req # reqs) t = do {
     t' \<leftarrow> claim_compaction (req_id req) \<lparr>ac_start_ms = start_ms\<rparr> t;
     claim_all start_ms reqs t'
   }"

definition extra_merge_reqs ::
  "'d ext \<Rightarrow> IdempotencyToken \<Rightarrow> u64 \<Rightarrow> u64 \<Rightarrow> nat \<Rightarrow> semver option \<Rightarrow> 'f Trace \<Rightarrow> 'f FueledMergeReq list option" where
  "extra_merge_reqs e idempotency_token heartbeat_timestamp_ms lease_duration_ms
       claim_compaction_percent claim_compaction_min_version t = do {
     let reqs_to_take = claim_compaction_percent div 100 +
       (if unat (ext_hashed e idempotency_token) mod 100 < claim_compaction_percent mod 100 then 1 else 0);
     let threshold_ms = saturating_sub heartbeat_timestamp_ms lease_duration_ms;
     min_writer \<leftarrow>
       (case claim_compaction_min_version of
          None \<Rightarrow> Some None
        | Some v \<Rightarrow> map_option Some (WriterKey_for_version v));
     fueled_merge_reqs_before_ms e t threshold_ms min_writer reqs_to_take
   }"

definition all_empty_reqs :: "'f FueledMergeReq list \<Rightarrow> bool" where
  "all_empty_reqs merge_reqs =
     list_all (\<lambda>req. list_all (\<lambda>b. HollowBatch_is_empty (ihb_batch b)) (req_inputs req)) merge_reqs"

definition append_and_claim ::
  "'d ext \<Rightarrow> 'f :: bounded_lattice HollowBatch \<Rightarrow> u64 \<Rightarrow> u64 \<Rightarrow> IdempotencyToken \<Rightarrow> nat \<Rightarrow> semver option \<Rightarrow> 'f Trace
     \<Rightarrow> ('f FueledMergeReq list \<times> 'f Trace) option" where
  "append_and_claim e batch heartbeat_timestamp_ms lease_duration_ms idempotency_token
       claim_compaction_percent claim_compaction_min_version t = do {
     (merge_reqs, t1) \<leftarrow>
       (if d_upper (hb_desc batch) \<noteq> d_lower (hb_desc batch) then Trace_push_batch batch t else Some ([], t));
     extra \<leftarrow>
       (if all_empty_reqs merge_reqs \<and> \<not> HollowBatch_is_empty batch then
          extra_merge_reqs e idempotency_token heartbeat_timestamp_ms lease_duration_ms
            claim_compaction_percent claim_compaction_min_version t1
        else Some []);
     let merge_reqs = merge_reqs @ extra;
     t2 \<leftarrow> claim_all heartbeat_timestamp_ms merge_reqs t1;
     Some (merge_reqs, t2)
   }"

definition collections_compare_and_append ::
  "'d ext \<Rightarrow> 'f :: bounded_lattice HollowBatch \<Rightarrow> bytes \<Rightarrow> u64 \<Rightarrow> u64 \<Rightarrow> IdempotencyToken \<Rightarrow> HandleDebugState \<Rightarrow> nat \<Rightarrow> nat
     \<Rightarrow> semver option \<Rightarrow> 'f StateCollections
     \<Rightarrow> (('f CompareAndAppendBreak, 'f FueledMergeReq list) ControlFlow \<times> 'f StateCollections) option" where
  "collections_compare_and_append e batch writer_id heartbeat_timestamp_ms lease_duration_ms idempotency_token debug_info
       inline_writes_total_max_bytes claim_compaction_percent claim_compaction_min_version s =
     (if is_tombstone s then do {
        assert (Trace_upper (sc_trace s) = top);
        Some (Break (CAB_Upper top top), s)
      }
      else
        let writer_state =
              (case btree_get (sc_writers s) writer_id of
                 Some w \<Rightarrow> w
               | None \<Rightarrow> \<lparr>ws_last_heartbeat_timestamp_ms = heartbeat_timestamp_ms, ws_lease_duration_ms = lease_duration_ms,
                   ws_most_recent_write_token = SENTINEL, ws_most_recent_write_upper = bot, ws_debug = debug_info\<rparr>);
            s1 = s\<lparr>sc_writers := btree_insert writer_id writer_state (sc_writers s)\<rparr>;
            lower = d_lower (hb_desc batch); upper = d_upper (hb_desc batch);
            shard_upper = Trace_upper (sc_trace s)
        in if upper < lower then Some (Break (CAB_InvalidUsage (InvalidBounds lower upper)), s1)
           else if upper = lower \<and> \<not> HollowBatch_is_empty batch then
             Some (Break (CAB_InvalidUsage (InvalidEmptyTimeInterval lower upper
               (map RunPart_printable_name (hb_parts batch)))), s1)
           else if idempotency_token = ws_most_recent_write_token writer_state then do {
             assert (upper = ws_most_recent_write_upper writer_state);
             assert (upper \<le> shard_upper);
             Some (Break AlreadyCommitted, s1)
           }
           else if shard_upper \<noteq> lower then
             Some (Break (CAB_Upper shard_upper (ws_most_recent_write_upper writer_state)), s1)
           else if HollowBatch_inline_bytes batch > 0 \<and>
               (\<Sum>x \<leftarrow> Trace_batches (sc_trace s). HollowBatch_inline_bytes x) + HollowBatch_inline_bytes batch
                 \<ge> inline_writes_total_max_bytes then
             Some (Break InlineBackpressure, s1)
           else do {
             (merge_reqs, t) \<leftarrow> append_and_claim e batch heartbeat_timestamp_ms lease_duration_ms idempotency_token
               claim_compaction_percent claim_compaction_min_version (sc_trace s);
             assert (ws_most_recent_write_upper writer_state \<le> upper);
             let writer_state' = writer_state\<lparr>ws_most_recent_write_token := idempotency_token,
               ws_most_recent_write_upper := upper,
               ws_last_heartbeat_timestamp_ms := max heartbeat_timestamp_ms (ws_last_heartbeat_timestamp_ms writer_state)\<rparr>;
             Some (Continue merge_reqs,
               s\<lparr>sc_writers := btree_insert writer_id writer_state' (sc_writers s), sc_trace := t\<rparr>)
           })"

definition collections_apply_merge_res ::
  "'d :: monoid_add ext \<Rightarrow> 'f :: bounded_lattice FueledMergeRes \<Rightarrow> 'f StateCollections
     \<Rightarrow> ((ApplyMergeResult, ApplyMergeResult) ControlFlow \<times> 'f StateCollections) option" where
  "collections_apply_merge_res e res s =
     (if is_tombstone s then Some (Break NotAppliedNoMatch, s)
      else do {
        (apply_merge_result, t) \<leftarrow> apply_merge_res_checked e res (sc_trace s);
        Some (Continue apply_merge_result, s\<lparr>sc_trace := t\<rparr>)
      })"

definition spine_exert ::
  "nat \<Rightarrow> 'f :: bounded_lattice StateCollections
     \<Rightarrow> (('f FueledMergeReq list, 'f FueledMergeReq list) ControlFlow \<times> 'f StateCollections) option" where
  "spine_exert fuel s = do {
     ((merge_reqs, did_work), t) \<leftarrow> Trace_exert fuel (sc_trace s);
     let s' = s\<lparr>sc_trace := t\<rparr>;
     if did_work then Some (Continue merge_reqs, s')
     else do {
       assert (merge_reqs = []);
       Some (Break [], s')
     }
   }"

subsection \<open>Downgrading and expiring\<close>

definition downgrade_since ::
  "bytes \<Rightarrow> SeqNo \<Rightarrow> SeqNo \<Rightarrow> 'f :: bounded_lattice \<Rightarrow> u64 \<Rightarrow> 'f StateCollections
     \<Rightarrow> (('f, 'f) ControlFlow \<times> 'f StateCollections) option" where
  "downgrade_since reader_id seqno outstanding_seqno new_since heartbeat_timestamp_ms s =
     (if is_tombstone s then Some (Break top, s)
      else
        case btree_get (sc_leased_readers s) reader_id of
          None \<Rightarrow> Some (Break top, s)
        | Some reader_state \<Rightarrow> do {
            let r1 = reader_state\<lparr>lr_last_heartbeat_timestamp_ms :=
              max heartbeat_timestamp_ms (lr_last_heartbeat_timestamp_ms reader_state)\<rparr>;
            assert (lr_seqno r1 \<le> outstanding_seqno);
            let r2 = r1\<lparr>lr_seqno := min outstanding_seqno seqno\<rparr>;
            if lr_since r2 < new_since then
              (let r3 = r2\<lparr>lr_since := new_since\<rparr>
               in Some (Continue new_since,
                    update_since (s\<lparr>sc_leased_readers := btree_insert reader_id r3 (sc_leased_readers s)\<rparr>)))
            else
              Some (Continue (lr_since r2),
                s\<lparr>sc_leased_readers := btree_insert reader_id r2 (sc_leased_readers s)\<rparr>)
          })"

definition compare_and_downgrade_since ::
  "bytes \<Rightarrow> Opaque \<Rightarrow> Opaque \<times> 'f :: bounded_lattice \<Rightarrow> 'f StateCollections
     \<Rightarrow> (((Opaque \<times> 'f) + 'f, (Opaque \<times> 'f) + 'f) ControlFlow \<times> 'f StateCollections) option" where
  "compare_and_downgrade_since reader_id expected_opaque = (\<lambda>(new_opaque, new_since) s.
     if is_tombstone s then Some (Break (Inr top), s)
     else do {
       reader_state \<leftarrow> btree_get (sc_critical_readers s) reader_id;
       if cr_opaque reader_state \<noteq> expected_opaque then
         Some (Continue (Inl (cr_opaque reader_state, cr_since reader_state)), s)
       else
         (let r1 = reader_state\<lparr>cr_opaque := new_opaque\<rparr>
          in if cr_since r1 \<le> new_since then
               (let r2 = r1\<lparr>cr_since := new_since\<rparr>
                in Some (Continue (Inr new_since),
                     update_since (s\<lparr>sc_critical_readers := btree_insert reader_id r2 (sc_critical_readers s)\<rparr>)))
             else
               Some (Continue (Inr (cr_since r1)),
                 s\<lparr>sc_critical_readers := btree_insert reader_id r1 (sc_critical_readers s)\<rparr>))
     })"

definition expire_leased_reader ::
  "bytes \<Rightarrow> 'f :: bounded_lattice StateCollections \<Rightarrow> (bool, bool) ControlFlow \<times> 'f StateCollections" where
  "expire_leased_reader reader_id s =
     (if is_tombstone s then (Break False, s)
      else (Continue (btree_get (sc_leased_readers s) reader_id \<noteq> None),
            s\<lparr>sc_leased_readers := btree_remove reader_id (sc_leased_readers s)\<rparr>))"

definition expire_critical_reader ::
  "bytes \<Rightarrow> 'f :: bounded_lattice StateCollections \<Rightarrow> (bool, bool) ControlFlow \<times> 'f StateCollections" where
  "expire_critical_reader reader_id s =
     (if is_tombstone s then (Break False, s)
      else (Continue (btree_get (sc_critical_readers s) reader_id \<noteq> None),
            s\<lparr>sc_critical_readers := btree_remove reader_id (sc_critical_readers s)\<rparr>))"

definition expire_writer ::
  "bytes \<Rightarrow> 'f :: bounded_lattice StateCollections \<Rightarrow> (bool, bool) ControlFlow \<times> 'f StateCollections" where
  "expire_writer writer_id s =
     (if is_tombstone s then (Break False, s)
      else (Continue (btree_get (sc_writers s) writer_id \<noteq> None),
            s\<lparr>sc_writers := btree_remove writer_id (sc_writers s)\<rparr>))"

subsection \<open>Becoming a tombstone\<close>

definition become_tombstone_and_shrink ::
  "'f :: bounded_lattice StateCollections \<Rightarrow> ((unit, unit) ControlFlow \<times> 'f StateCollections) option" where
  "become_tombstone_and_shrink s = do {
     assert (Trace_upper (sc_trace s) = top);
     assert (Trace_since (sc_trace s) = top);
     let was_tombstone = is_tombstone s;
     let s1 = s\<lparr>sc_writers := [], sc_leased_readers := [], sc_critical_readers := []\<rparr>;
     let batches = Trace_batches (sc_trace s1);
     case find (\<lambda>b. \<not> HollowBatch_is_empty b) batches of
       Some b \<Rightarrow> do {
         (result, t) \<leftarrow> apply_tombstone_merge (hb_desc b) (sc_trace s1);
         assert (ApplyMergeResult_matched result);
         Some (Continue (), s1\<lparr>sc_trace := t\<rparr>)
       }
     | None \<Rightarrow>
         if length batches > 1 then do {
           let new_trace = Trace_downgrade_since top Trace_default;
           (merge_reqs, new_trace') \<leftarrow> Trace_push_batch tombstone_batch new_trace;
           assert (merge_reqs = []);
           Some (Continue (), s1\<lparr>sc_trace := new_trace'\<rparr>)
         }
         else if \<not> was_tombstone then Some (Continue (), s1)
         else Some (Break (), s1)
   }"

subsection \<open>Versions of the state\<close>

record 'f State =
  st_shard_id :: bytes
  st_seqno :: SeqNo
  st_walltime_ms :: u64
  st_hostname :: string
  st_collections :: "'f StateCollections"

definition State_new :: "semver \<Rightarrow> bytes \<Rightarrow> string \<Rightarrow> u64 \<Rightarrow> 'f :: bounded_lattice State" where
  "State_new applier_version shard_id host walltime_ms =
     \<lparr>st_shard_id = shard_id, st_seqno = SeqNo_minimum, st_walltime_ms = walltime_ms, st_hostname = host,
      st_collections =
        \<lparr>sc_version = applier_version, sc_last_gc_req = SeqNo_minimum, sc_rollups = [],
         sc_active_rollup = None, sc_active_gc = None, sc_leased_readers = [], sc_critical_readers = [],
         sc_writers = [], sc_schemas = [], sc_trace = Trace_default\<rparr>\<rparr>"

type_synonym ('e, 'r, 'f) work_fn = "SeqNo \<Rightarrow> 'f StateCollections \<Rightarrow> (('e, 'r) ControlFlow \<times> 'f StateCollections) option"

definition clone_apply ::
  "u64 \<Rightarrow> string \<Rightarrow> ('e, 'r, 'f) work_fn \<Rightarrow> 'f State \<Rightarrow> ('e, 'r \<times> 'f State) ControlFlow option" where
  "clone_apply now host work_fn s = do {
     let seqno = SeqNo_next (st_seqno s);
     let walltime_ms = (if now \<le> st_walltime_ms s then st_walltime_ms s + 1 else now);
     (work_ret, collections) \<leftarrow> work_fn seqno (st_collections s);
     Some (case work_ret of
             Break err \<Rightarrow> Break err
           | Continue ret \<Rightarrow>
               Continue (ret, \<lparr>st_shard_id = st_shard_id s, st_seqno = seqno, st_walltime_ms = walltime_ms,
                 st_hostname = host, st_collections = collections\<rparr>))
   }"

subsection \<open>Reading a version\<close>

abbreviation st_trace :: "'f State \<Rightarrow> 'f Trace" where
  "st_trace s \<equiv> sc_trace (st_collections s)"

definition blobs :: "'f State \<Rightarrow> 'f HollowBlobRef list" where
  "blobs s = map BlobRef_Batch (Trace_batches (st_trace s)) @
     map BlobRef_Rollup (btree_values (sc_rollups (st_collections s)))"

record StateSizeMetrics =
  hollow_batch_count :: nat
  batch_part_count :: nat
  num_updates :: nat
  largest_batch_bytes :: nat
  state_batches_bytes :: nat
  state_rollups_bytes :: nat
  state_rollup_count :: nat
  inline_part_count :: nat

fun size_metrics_add :: "StateSizeMetrics \<Rightarrow> 'f HollowBlobRef \<Rightarrow> StateSizeMetrics" where
  "size_metrics_add ret (BlobRef_Batch x) =
     (let batch_size = HollowBatch_encoded_size_bytes x
      in ret\<lparr>hollow_batch_count := hollow_batch_count ret + 1,
             batch_part_count := batch_part_count ret + HollowBatch_part_count x,
             num_updates := num_updates ret + hb_len x,
             inline_part_count := inline_part_count ret + length (filter RunPart_is_inline (hb_parts x)),
             largest_batch_bytes := max (largest_batch_bytes ret) batch_size,
             state_batches_bytes := state_batches_bytes ret + batch_size\<rparr>)"
| "size_metrics_add ret (BlobRef_Rollup x) =
     ret\<lparr>state_rollup_count := state_rollup_count ret + 1,
         state_rollups_bytes := state_rollups_bytes ret +
           (case ro_encoded_size_bytes x of None \<Rightarrow> 0 | Some n \<Rightarrow> n)\<rparr>"

definition size_metrics :: "'f State \<Rightarrow> StateSizeMetrics" where
  "size_metrics s = foldl size_metrics_add
     \<lparr>hollow_batch_count = 0, batch_part_count = 0, num_updates = 0, largest_batch_bytes = 0,
      state_batches_bytes = 0, state_rollups_bytes = 0, state_rollup_count = 0, inline_part_count = 0\<rparr> (blobs s)"

definition latest_rollup :: "'f State \<Rightarrow> (SeqNo \<times> HollowRollup) option" where
  "latest_rollup s =
     (let rollups = sc_rollups (st_collections s) in if rollups = [] then panic else Some (last rollups))"

definition seqno_since :: "'f State \<Rightarrow> SeqNo" where
  "seqno_since s = collections_seqno_since (st_seqno s) (st_collections s)"

definition seqnos_held :: "'f State \<Rightarrow> nat" where
  "seqnos_held s = unat (saturating_sub (st_seqno s) (seqno_since s))"

definition snapshot :: "'f :: bounded_lattice \<Rightarrow> 'f State \<Rightarrow> 'f SnapshotErr + 'f HollowBatch list" where
  "snapshot as_of s =
     (let t = st_trace s
      in if as_of < Trace_since t then Inl (AsOfHistoricalDistinctionsLost (Trace_since t))
         else if Trace_upper t \<le> as_of then Inl (AsOfNotYetAvailable (st_seqno s) (Trace_upper t))
         else Inr (filter (\<lambda>b. \<not> as_of < d_lower (hb_desc b)) (Trace_batches t)))"

definition verify_listen :: "'f :: bounded_lattice \<Rightarrow> 'f State \<Rightarrow> 'f + unit" where
  "verify_listen as_of s =
     (if as_of < Trace_since (st_trace s) then Inl (Trace_since (st_trace s)) else Inr ())"

definition next_listen_batch :: "'f :: bounded_lattice \<Rightarrow> 'f State \<Rightarrow> SeqNo + 'f HollowBatch" where
  "next_listen_batch frontier s =
     (case find (\<lambda>b. d_lower (hb_desc b) \<le> frontier \<and> frontier < d_upper (hb_desc b)) (Trace_batches (st_trace s)) of
        Some b \<Rightarrow> Inr b
      | None \<Rightarrow> Inl (st_seqno s))"

subsection \<open>Garbage collection, rollups and expiry\<close>

record GcConfig =
  gc_use_active_gc :: bool
  gc_fallback_threshold_ms :: u64
  gc_min_versions :: nat
  gc_max_versions :: nat

record GcReq =
  gcr_shard_id :: bytes
  gcr_new_seqno_since :: SeqNo

definition gc_threshold :: "GcConfig \<Rightarrow> SeqNo \<Rightarrow> u64" where
  "gc_threshold cfg seqno =
     (if gc_use_active_gc cfg then of_nat (gc_min_versions cfg)
      else max 1 (of_nat (trailing_zeros (next_power_of_two (unat seqno)))))"

definition gc_is_stale :: "u64 \<Rightarrow> GcConfig \<Rightarrow> ActiveGc \<Rightarrow> bool" where
  "gc_is_stale now cfg active = (gc_fallback_threshold_ms cfg < saturating_sub now (agc_start_ms active))"

definition maybe_gc :: "bool \<Rightarrow> u64 \<Rightarrow> GcConfig \<Rightarrow> 'f :: bounded_lattice State \<Rightarrow> GcReq option \<times> 'f State" where
  "maybe_gc is_write now cfg s =
     (let c = st_collections s;
          new_seqno_since = seqno_since s;
          gc_until_seqno = min new_seqno_since (saturating_add (sc_last_gc_req c) (of_nat (gc_max_versions cfg)));
          should_gc = (gc_threshold cfg (st_seqno s) \<le> saturating_sub new_seqno_since (sc_last_gc_req c));
          should_gc = (if gc_use_active_gc cfg \<and> \<not> should_gc then
              (case sc_active_gc c of Some active_gc \<Rightarrow> gc_is_stale now cfg active_gc | None \<Rightarrow> False)
            else should_gc);
          should_gc = (should_gc \<and> (is_write \<or> sc_writers c = []));
          should_gc = (should_gc \<or> is_tombstone c);
          should_gc = (if gc_use_active_gc cfg then
              should_gc \<and> (case sc_active_gc c of Some active \<Rightarrow> gc_is_stale now cfg active | None \<Rightarrow> True)
            else should_gc)
      in if should_gc then
           (Some \<lparr>gcr_shard_id = st_shard_id s, gcr_new_seqno_since = gc_until_seqno\<rparr>,
            s\<lparr>st_collections := c\<lparr>sc_last_gc_req := gc_until_seqno\<rparr>\<rparr>)
         else (None, s))"

record ExpiryMetrics =
  readers_expired :: nat
  writers_expired :: nat

definition reader_retained :: "u64 \<Rightarrow> 'f LeasedReaderState \<Rightarrow> bool" where
  "reader_retained walltime_ms r \<longleftrightarrow> walltime_ms \<le> lr_last_heartbeat_timestamp_ms r + lr_lease_duration_ms r"

definition writer_retained :: "u64 \<Rightarrow> 'f WriterState \<Rightarrow> bool" where
  "writer_retained walltime_ms w \<longleftrightarrow> walltime_ms \<le> ws_last_heartbeat_timestamp_ms w + ws_lease_duration_ms w"

definition expire_at :: "u64 \<Rightarrow> 'f State \<Rightarrow> ExpiryMetrics \<times> 'f State" where
  "expire_at walltime_ms s =
     (let c = st_collections s;
          (readers, old_readers) = partition (\<lambda>e. reader_retained walltime_ms (snd e)) (sc_leased_readers c);
          (writers, old_writers) = partition (\<lambda>e. writer_retained walltime_ms (snd e)) (sc_writers c)
      in (\<lparr>readers_expired = length old_readers, writers_expired = length old_writers\<rparr>,
          s\<lparr>st_collections := c\<lparr>sc_leased_readers := readers, sc_writers := writers\<rparr>\<rparr>))"

definition DEFAULT_FALLBACK_ROLLUP_THRESHOLD_MULTIPLIER :: nat where
  "DEFAULT_FALLBACK_ROLLUP_THRESHOLD_MULTIPLIER = 3"

text \<open>The remainder by a threshold of zero panics.\<close>

definition need_rollup :: "nat \<Rightarrow> bool \<Rightarrow> u64 \<Rightarrow> u64 \<Rightarrow> 'f :: bounded_lattice State \<Rightarrow> SeqNo option option" where
  "need_rollup threshold use_active_rollup fallback_threshold_ms now s = do {
     (latest_rollup_seqno, _) \<leftarrow> latest_rollup s;
     let seqnos_since_last_rollup = saturating_sub (st_seqno s) latest_rollup_seqno;
     if is_tombstone (st_collections s) \<and> SeqNo_next latest_rollup_seqno < st_seqno s then Some (Some (st_seqno s))
     else if use_active_rollup then
       Some (if of_nat threshold < seqnos_since_last_rollup then
               (case sc_active_rollup (st_collections s) of
                  Some active_rollup \<Rightarrow>
                    if fallback_threshold_ms < saturating_sub now (arol_start_ms active_rollup) then Some (st_seqno s)
                    else None
                | None \<Rightarrow> Some (st_seqno s))
             else None)
     else do {
       assert (seqnos_since_last_rollup = 0 \<or> of_nat threshold \<noteq> (0 :: u64));
       Some (if 0 < seqnos_since_last_rollup \<and> seqnos_since_last_rollup mod of_nat threshold = 0 then Some (st_seqno s)
             else if of_nat (threshold * DEFAULT_FALLBACK_ROLLUP_THRESHOLD_MULTIPLIER) < seqnos_since_last_rollup then
               Some (st_seqno s)
             else None)
     }
   }"

end
