(* ===== verification/Flat.thy ===== *)
theory Flat
  imports Trace "HOL-Library.Product_Lexorder" "HOL-Library.Option_ord"
begin

section \<open>The flat form of a trace (\<open>trace.rs\<close>, orders of \<open>state.rs\<close>)\<close>

text \<open>
  A trace is written down as a \<open>FlatTrace\<close>: maps of hollow batches, spine batches and merges
  keyed by spine ids, and the hollow batches without an id in a map keyed by the batch itself.
  \<open>flatten\<close> and \<open>unflatten\<close> convert between the two.

  A map keyed by hollow batches uses their total order, which compares the elements of
  frontiers. That comparison is code of timely and of the timestamp type, and a parameter \<open>el\<close>
  of the definitions. Strings, bytes, numbers, options, pairs and lists of them are compared by
  the library's lexicographic orders, which are the derived orders of the source.
\<close>

subsection \<open>Comparisons\<close>

datatype Ordering = Less | Equal | Greater

definition cmp_of :: "'a :: linorder \<Rightarrow> 'a \<Rightarrow> Ordering" where
  "cmp_of a b = (if a < b then Less else if a = b then Equal else Greater)"

fun cmp_reverse :: "Ordering \<Rightarrow> Ordering" where
  "cmp_reverse Less = Greater"
| "cmp_reverse Equal = Equal"
| "cmp_reverse Greater = Less"

text \<open>A tuple is compared by its first components that differ.\<close>

fun cmp_tuple :: "Ordering list \<Rightarrow> Ordering" where
  "cmp_tuple [] = Equal"
| "cmp_tuple (c # cs) = (if c = Equal then cmp_tuple cs else c)"

fun cmp_option :: "('a \<Rightarrow> 'a \<Rightarrow> Ordering) \<Rightarrow> 'a option \<Rightarrow> 'a option \<Rightarrow> Ordering" where
  "cmp_option c None None = Equal"
| "cmp_option c None (Some b) = Less"
| "cmp_option c (Some a) None = Greater"
| "cmp_option c (Some a) (Some b) = c a b"

fun cmp_list :: "('a \<Rightarrow> 'a \<Rightarrow> Ordering) \<Rightarrow> 'a list \<Rightarrow> 'a list \<Rightarrow> Ordering" where
  "cmp_list c [] [] = Equal"
| "cmp_list c [] (b # bs) = Less"
| "cmp_list c (a # as) [] = Greater"
| "cmp_list c (a # as) (b # bs) = cmp_tuple [c a b, cmp_list c as bs]"

fun BatchColumnarFormat_key :: "BatchColumnarFormat \<Rightarrow> nat \<times> nat" where
  "BatchColumnarFormat_key Row = (0, 0)"
| "BatchColumnarFormat_key (Both n) = (1, n)"
| "BatchColumnarFormat_key Structured = (2, 0)"

definition HollowBatchPart_cmp ::
  "('f \<Rightarrow> 'f \<Rightarrow> Ordering) \<Rightarrow> 'f HollowBatchPart \<Rightarrow> 'f HollowBatchPart \<Rightarrow> Ordering" where
  "HollowBatchPart_cmp el a b =
     cmp_tuple
       [cmp_of (hbp_key a) (hbp_key b),
        cmp_of (hbp_meta a) (hbp_meta b),
        cmp_of (hbp_encoded_size_bytes a) (hbp_encoded_size_bytes b),
        cmp_of (hbp_key_lower a) (hbp_key_lower b),
        cmp_of (hbp_structured_key_lower a) (hbp_structured_key_lower b),
        cmp_of (hbp_stats a) (hbp_stats b),
        cmp_option el (hbp_ts_rewrite a) (hbp_ts_rewrite b),
        cmp_of (hbp_diffs_sum a) (hbp_diffs_sum b),
        cmp_of (map_option BatchColumnarFormat_key (hbp_format a)) (map_option BatchColumnarFormat_key (hbp_format b)),
        cmp_of (hbp_schema_id a) (hbp_schema_id b),
        cmp_of (hbp_deprecated_schema_id a) (hbp_deprecated_schema_id b)]"

fun BatchPart_cmp :: "('f \<Rightarrow> 'f \<Rightarrow> Ordering) \<Rightarrow> 'f BatchPart \<Rightarrow> 'f BatchPart \<Rightarrow> Ordering" where
  "BatchPart_cmp el (Hollow s) (Hollow t) = HollowBatchPart_cmp el s t"
| "BatchPart_cmp el (Inline s_updates s_ts_rewrite s_schema_id s_deprecated_schema_id)
     (Inline o_updates o_ts_rewrite o_schema_id o_deprecated_schema_id) =
     cmp_tuple
       [cmp_of s_updates o_updates, cmp_option el s_ts_rewrite o_ts_rewrite, cmp_of s_schema_id o_schema_id,
        cmp_of s_deprecated_schema_id o_deprecated_schema_id]"
| "BatchPart_cmp el (Hollow _) (Inline _ _ _ _) = Less"
| "BatchPart_cmp el (Inline _ _ _ _) (Hollow _) = Greater"

definition HollowRunRef_cmp :: "HollowRunRef \<Rightarrow> HollowRunRef \<Rightarrow> Ordering" where
  "HollowRunRef_cmp a b = cmp_of (hrr_key a) (hrr_key b)"

fun RunPart_cmp :: "('f \<Rightarrow> 'f \<Rightarrow> Ordering) \<Rightarrow> 'f RunPart \<Rightarrow> 'f RunPart \<Rightarrow> Ordering" where
  "RunPart_cmp el (Single a) (Single b) = BatchPart_cmp el a b"
| "RunPart_cmp el (Single _) (Many _) = Less"
| "RunPart_cmp el (Many _) (Single _) = Greater"
| "RunPart_cmp el (Many a) (Many b) = HollowRunRef_cmp a b"

fun RunOrder_key :: "RunOrder \<Rightarrow> nat" where
  "RunOrder_key Unordered = 0"
| "RunOrder_key Codec = 1"
| "RunOrder_key StructuredOrder = 2"

definition RunMeta_cmp :: "RunMeta \<Rightarrow> RunMeta \<Rightarrow> Ordering" where
  "RunMeta_cmp a b =
     cmp_tuple
       [cmp_of (map_option RunOrder_key (rm_order a)) (map_option RunOrder_key (rm_order b)),
        cmp_of (rm_schema a) (rm_schema b),
        cmp_of (rm_deprecated_schema a) (rm_deprecated_schema b),
        cmp_of (rm_id a) (rm_id b),
        cmp_of (rm_len a) (rm_len b),
        cmp_of (rm_meta a) (rm_meta b)]"

definition HollowBatch_cmp ::
  "('f \<Rightarrow> 'f \<Rightarrow> Ordering) \<Rightarrow> 'f HollowBatch \<Rightarrow> 'f HollowBatch \<Rightarrow> Ordering" where
  "HollowBatch_cmp el a b =
     cmp_tuple
       [el (d_lower (hb_desc a)) (d_lower (hb_desc b)),
        el (d_upper (hb_desc a)) (d_upper (hb_desc b)),
        el (d_since (hb_desc a)) (d_since (hb_desc b)),
        cmp_list (RunPart_cmp el) (hb_parts a) (hb_parts b),
        cmp_of (hb_len a) (hb_len b),
        cmp_of (hb_run_splits a) (hb_run_splits b),
        cmp_list RunMeta_cmp (hb_run_meta a) (hb_run_meta b)]"

text \<open>
  A \<open>BTreeMap\<close> to \<open>()\<close> ordered by a comparison, as the list of its keys. Inserting a key that
  compares equal to one in the map keeps the old key.
\<close>

fun cset_insert :: "('k \<Rightarrow> 'k \<Rightarrow> Ordering) \<Rightarrow> 'k \<Rightarrow> 'k list \<Rightarrow> 'k list" where
  "cset_insert c k [] = [k]"
| "cset_insert c k (x # xs) =
     (case c k x of Less \<Rightarrow> k # x # xs | Equal \<Rightarrow> x # xs | Greater \<Rightarrow> x # cset_insert c k xs)"

text \<open>\<open>sort_by\<close>, a stable sort.\<close>

fun insert_by :: "('a \<Rightarrow> 'a \<Rightarrow> Ordering) \<Rightarrow> 'a \<Rightarrow> 'a list \<Rightarrow> 'a list" where
  "insert_by c x [] = [x]"
| "insert_by c x (y # ys) = (if c x y = Greater then y # insert_by c x ys else x # y # ys)"

definition sort_by :: "('a \<Rightarrow> 'a \<Rightarrow> Ordering) \<Rightarrow> 'a list \<Rightarrow> 'a list" where
  "sort_by c xs = foldr (insert_by c) xs []"

subsection \<open>Flat traces\<close>

record 'f ThinSpineBatch =
  tsb_level :: nat
  tsb_desc :: "'f Description"
  tsb_parts :: "SpineId list"
  tsb_descs :: "'f Description list"

record 'f ThinMerge =
  tm_since :: 'f
  tm_remaining_work :: nat
  tm_active_compaction :: "ActiveCompaction option"

definition ThinMerge_fueling :: "'f FuelingMerge \<Rightarrow> 'f ThinMerge" where
  "ThinMerge_fueling m =
     \<lparr>tm_since = fm_since m, tm_remaining_work = fm_remaining_work m, tm_active_compaction = None\<rparr>"

definition ThinMerge_fueled :: "'f SpineBatch \<Rightarrow> 'f ThinMerge" where
  "ThinMerge_fueled b =
     \<lparr>tm_since = sb_since b, tm_remaining_work = 0, tm_active_compaction = sb_active_compaction b\<rparr>"

record 'f FlatTrace =
  ft_since :: 'f
  ft_legacy_batches :: "'f HollowBatch list"
  ft_hollow_batches :: "(SpineId, 'f HollowBatch) btree_map"
  ft_spine_batches :: "(SpineId, 'f ThinSpineBatch) btree_map"
  ft_merges :: "(SpineId, 'f ThinMerge) btree_map"

subsection \<open>Flattening\<close>

fun push_parts ::
  "('f \<Rightarrow> 'f \<Rightarrow> Ordering) \<Rightarrow> 'f IdHollowBatch list \<Rightarrow> 'f FlatTrace \<Rightarrow> 'f FlatTrace" where
  "push_parts el [] ft = ft"
| "push_parts el (p # ps) ft =
     (let batch = ihb_batch p in
      push_parts el ps
        (if d_lower (hb_desc batch) = d_upper (hb_desc batch) then
           ft\<lparr>ft_hollow_batches := btree_insert (ihb_id p) batch (ft_hollow_batches ft)\<rparr>
         else
           ft\<lparr>ft_legacy_batches := cset_insert (HollowBatch_cmp el) batch (ft_legacy_batches ft)\<rparr>))"

definition thin_spine_batch :: "nat \<Rightarrow> 'f SpineBatch \<Rightarrow> 'f ThinSpineBatch" where
  "thin_spine_batch level batch =
     \<lparr>tsb_level = level, tsb_desc = sb_desc batch, tsb_parts = map ihb_id (sb_parts batch),
      tsb_descs = map (hb_desc \<circ> ihb_batch) (sb_parts batch)\<rparr>"

definition push_spine_batch ::
  "('f \<Rightarrow> 'f \<Rightarrow> Ordering) \<Rightarrow> nat \<Rightarrow> 'f SpineBatch \<Rightarrow> 'f FlatTrace \<Rightarrow> 'f FlatTrace" where
  "push_spine_batch el level batch ft =
     (let ft' = push_parts el (sb_parts batch) ft
      in ft'\<lparr>ft_spine_batches := btree_insert (sb_id batch) (thin_spine_batch level batch) (ft_spine_batches ft')\<rparr>)"

definition record_merge :: "SpineId \<Rightarrow> 'f ThinMerge \<Rightarrow> 'f FlatTrace \<Rightarrow> 'f FlatTrace option" where
  "record_merge i merge ft = do {
     assert (btree_get (ft_merges ft) i = None);
     Some (ft\<lparr>ft_merges := btree_insert i merge (ft_merges ft)\<rparr>)
   }"

fun flatten_batches ::
  "('f \<Rightarrow> 'f \<Rightarrow> Ordering) \<Rightarrow> nat \<Rightarrow> 'f SpineBatch list \<Rightarrow> 'f FlatTrace \<Rightarrow> 'f FlatTrace option" where
  "flatten_batches el level [] ft = Some ft"
| "flatten_batches el level (batch # bs) ft = do {
     let ft1 = push_spine_batch el level batch ft;
     ft2 \<leftarrow> (if sb_active_compaction batch \<noteq> None
             then record_merge (sb_id batch) (ThinMerge_fueled batch) ft1 else Some ft1);
     flatten_batches el level bs ft2
   }"

fun flatten_levels ::
  "('f \<Rightarrow> 'f \<Rightarrow> Ordering) \<Rightarrow> nat \<Rightarrow> 'f MergeState list \<Rightarrow> 'f FlatTrace \<Rightarrow> 'f FlatTrace option" where
  "flatten_levels el level [] ft = Some ft"
| "flatten_levels el level (state # ms) ft = do {
     ft1 \<leftarrow> flatten_batches el level (ms_batches state) ft;
     ft2 \<leftarrow> (case ms_merge state of
              Some im \<Rightarrow> record_merge (ifm_id im) (ThinMerge_fueling (ifm_merge im)) ft1
            | None \<Rightarrow> Some ft1);
     flatten_levels el (Suc level) ms ft2
   }"

definition flatten :: "('f \<Rightarrow> 'f \<Rightarrow> Ordering) \<Rightarrow> 'f Trace \<Rightarrow> 'f FlatTrace option" where
  "flatten el t = do {
     ft \<leftarrow> flatten_levels el 0 (sp_merging (tr_spine t))
       \<lparr>ft_since = sp_since (tr_spine t), ft_legacy_batches = [], ft_hollow_batches = [],
        ft_spine_batches = [], ft_merges = []\<rparr>;
     if \<not> tr_roundtrip_structure t then do {
       assert (ft_hollow_batches ft = []);
       Some (ft\<lparr>ft_spine_batches := [], ft_merges := []\<rparr>)
     }
     else Some ft
   }"

subsection \<open>Unflattening\<close>

datatype 'f unflatten_error =
  TotalLenExceeded "'f HollowBatch"
| HollowDescMismatch SpineId
| MissingHollowBatch SpineId
| HollowLowerMismatch 'f 'f
| HollowUpperMismatch 'f 'f
| LevelTooHigh nat
| MoreDescsThanParts SpineId
| PartsDoNotTile SpineId
| LevelOutOfBounds SpineId nat nat
| PushFailed "'f push_error"
| LegacyEmptyRange "'f Description"
| LegacyLowerMismatch 'f 'f
| LegacyLeft nat
| HollowLeft nat
| MergesLeft nat
| ValidationFailed "'f spine_error"

definition MAX_TOTAL_LEN :: nat where
  "MAX_TOTAL_LEN = (2 ^ usize_bits - 1) div 8"

definition MAX_LEVELS :: nat where
  "MAX_LEVELS = 256"

fun check_total_len :: "'f HollowBatch list \<Rightarrow> nat \<Rightarrow> 'f unflatten_error + unit" where
  "check_total_len [] total_len = Inr ()"
| "check_total_len (batch # bs) total_len =
     (if total_len + hb_len batch < 2 ^ usize_bits \<and> total_len + hb_len batch \<le> MAX_TOTAL_LEN
      then check_total_len bs (total_len + hb_len batch)
      else Inl (TotalLenExceeded batch))"

definition compare_chains :: "'f :: order \<Rightarrow> 'f \<Rightarrow> Ordering" where
  "compare_chains left right = (if left < right then Less else if right < left then Greater else Equal)"

text \<open>
  The sorted vector of legacy batches is only popped and pushed at its end; its model is a
  stack that lists the end of the vector first.
\<close>

definition legacy_stack :: "'f :: order HollowBatch list \<Rightarrow> 'f HollowBatch list" where
  "legacy_stack ls =
     rev (sort_by (\<lambda>a b. cmp_reverse (compare_chains (d_lower (hb_desc a)) (d_lower (hb_desc b)))) ls)"

fun roll_in_empty :: "'f :: order \<Rightarrow> 'f \<Rightarrow> 'f HollowBatch list \<Rightarrow> 'f \<times> 'f HollowBatch list" where
  "roll_in_empty new_upper expected [] = (new_upper, [])"
| "roll_in_empty new_upper expected (next_batch # legacy) =
     (if new_upper < expected then
        if HollowBatch_is_empty next_batch then roll_in_empty (d_upper (hb_desc next_batch)) expected legacy
        else (new_upper, next_batch # legacy)
      else (new_upper, next_batch # legacy))"

type_synonym 'f pop_state = "(SpineId, 'f HollowBatch) btree_map \<times> 'f HollowBatch list"

definition match_empty :: "'f :: order Description \<Rightarrow> 'f HollowBatch \<Rightarrow> 'f HollowBatch list
    \<Rightarrow> 'f HollowBatch \<times> 'f HollowBatch list" where
  "match_empty expected_desc batch legacy =
     (if hb_parts batch = [] \<and> hb_run_splits batch = [] \<and> hb_len batch = 0 then
        let (new_upper, legacy1) = roll_in_empty (d_upper (hb_desc batch)) (d_upper expected_desc) legacy;
            (new_upper', legacy2) =
              (if d_upper expected_desc < new_upper then
                 (d_upper expected_desc,
                  HollowBatch_empty (Description_new (d_upper expected_desc) new_upper (d_since (hb_desc batch))) # legacy1)
               else (new_upper, legacy1))
        in (HollowBatch_empty (Description_new (d_lower (hb_desc batch)) new_upper' (d_since (hb_desc batch))), legacy2)
      else (batch, legacy))"

definition pop_batch ::
  "SpineId \<Rightarrow> 'f :: order Description option \<Rightarrow> 'f pop_state
     \<Rightarrow> 'f unflatten_error + ('f IdHollowBatch \<times> 'f pop_state)" where
  "pop_batch i expected st =
     (let (hollow, legacy) = st in
      case btree_get hollow i of
        Some batch \<Rightarrow>
          (case expected of
             Some desc \<Rightarrow>
               if d_lower desc \<noteq> d_lower (hb_desc batch) \<or> d_upper desc \<noteq> d_upper (hb_desc batch)
               then Inl (HollowDescMismatch i)
               else Inr (\<lparr>ihb_id = i, ihb_batch = batch\<rparr>, btree_remove i hollow, legacy)
           | None \<Rightarrow> Inr (\<lparr>ihb_id = i, ihb_batch = batch\<rparr>, btree_remove i hollow, legacy))
      | None \<Rightarrow>
          (case legacy of
             [] \<Rightarrow> Inl (MissingHollowBatch i)
           | batch # legacy1 \<Rightarrow>
               (case expected of
                  None \<Rightarrow> Inr (\<lparr>ihb_id = i, ihb_batch = batch\<rparr>, hollow, legacy1)
                | Some expected_desc \<Rightarrow>
                    if d_lower expected_desc \<noteq> d_lower (hb_desc batch) then
                      Inl (HollowLowerMismatch (d_lower (hb_desc batch)) (d_lower expected_desc))
                    else
                      let (batch', legacy2) = match_empty expected_desc batch legacy1
                      in if d_upper expected_desc \<noteq> d_upper (hb_desc batch') then
                           Inl (HollowUpperMismatch (d_upper (hb_desc batch')) (d_upper expected_desc))
                         else Inr (\<lparr>ihb_id = i, ihb_batch = batch'\<rparr>, hollow, legacy2))))"

fun pop_batches ::
  "(SpineId \<times> 'f :: order Description option) list \<Rightarrow> 'f pop_state
     \<Rightarrow> 'f unflatten_error + ('f IdHollowBatch list \<times> 'f pop_state)" where
  "pop_batches [] st = Inr ([], st)"
| "pop_batches ((i, desc) # rest) st =
     (case pop_batch i desc st of
        Inl e \<Rightarrow> Inl e
      | Inr (p, st1) \<Rightarrow>
          (case pop_batches rest st1 of Inl e \<Rightarrow> Inl e | Inr (ps, st2) \<Rightarrow> Inr (p # ps, st2)))"

fun adjacent_ids :: "'f IdHollowBatch list \<Rightarrow> bool" where
  "adjacent_ids (p # q # ps) \<longleftrightarrow> sid_hi (ihb_id p) = sid_lo (ihb_id q) \<and> adjacent_ids (q # ps)"
| "adjacent_ids ps \<longleftrightarrow> True"

definition parts_tile :: "SpineId \<Rightarrow> 'f IdHollowBatch list \<Rightarrow> bool" where
  "parts_tile i parts \<longleftrightarrow>
     parts \<noteq> [] \<and> sid_lo (ihb_id (hd parts)) = sid_lo i \<and> sid_hi (ihb_id (last parts)) = sid_hi i \<and>
     adjacent_ids parts"

record 'f unflatten_state =
  us_pop :: "'f pop_state"
  us_merges :: "(SpineId, 'f ThinMerge) btree_map"
  us_merging :: "'f MergeState list"

text \<open>Restoring a merge in progress once the level holds the batches it merges.\<close>

definition restore_merge ::
  "'f MergeState \<Rightarrow> (SpineId, 'f ThinMerge) btree_map \<Rightarrow> 'f MergeState \<times> (SpineId, 'f ThinMerge) btree_map" where
  "restore_merge state merges =
     (case MergeState_id state of
        None \<Rightarrow> (state, merges)
      | Some i \<Rightarrow>
          (case btree_get merges i of
             None \<Rightarrow> (state, merges)
           | Some merge \<Rightarrow>
               (state\<lparr>ms_merge := Some \<lparr>ifm_id = i,
                  ifm_merge = \<lparr>fm_since = tm_since merge, fm_remaining_work = tm_remaining_work merge\<rparr>\<rparr>\<rparr>,
                btree_remove i merges)))"

definition unflatten_batch ::
  "SpineId \<Rightarrow> 'f :: order ThinSpineBatch \<Rightarrow> 'f unflatten_state \<Rightarrow> 'f unflatten_error + 'f unflatten_state" where
  "unflatten_batch i batch st =
     (if length (tsb_parts batch) < length (tsb_descs batch) then Inl (MoreDescsThanParts i)
      else
        let descs = map Some (tsb_descs batch) @ replicate (length (tsb_parts batch) - length (tsb_descs batch)) None
        in case pop_batches (zip (tsb_parts batch) descs) (us_pop st) of
             Inl e \<Rightarrow> Inl e
           | Inr (parts, pop') \<Rightarrow>
               if \<not> parts_tile i parts then Inl (PartsDoNotTile i)
               else
                 let len = sum_list (map (\<lambda>p. hb_len (ihb_batch p)) parts);
                     active_compaction = Option.bind (btree_get (us_merges st) i) tm_active_compaction;
                     merges1 = btree_remove i (us_merges st);
                     b = \<lparr>sb_id = i, sb_desc = tsb_desc batch, sb_parts = parts,
                          sb_active_compaction = active_compaction, sb_len = len\<rparr>
                 in if \<not> tsb_level batch < length (us_merging st) then
                      Inl (LevelOutOfBounds i (tsb_level batch) (length (us_merging st)))
                    else
                      (case try_push_batch (us_merging st ! tsb_level batch) b of
                         Inl e \<Rightarrow> Inl (PushFailed e)
                       | Inr state \<Rightarrow>
                           let (state', merges2) = restore_merge state merges1
                           in Inr \<lparr>us_pop = pop', us_merges = merges2,
                                   us_merging = (us_merging st)[tsb_level batch := state']\<rparr>))"

fun unflatten_batches ::
  "(SpineId \<times> 'f :: order ThinSpineBatch) list \<Rightarrow> 'f unflatten_state \<Rightarrow> 'f unflatten_error + 'f unflatten_state"
where
  "unflatten_batches [] st = Inr st"
| "unflatten_batches ((i, batch) # bs) st =
     (case unflatten_batch i batch st of Inl e \<Rightarrow> Inl e | Inr st1 \<Rightarrow> unflatten_batches bs st1)"

text \<open>The legacy batches that are left are inserted one by one, oldest first.\<close>

fun push_legacy ::
  "'f :: bounded_lattice HollowBatch list \<Rightarrow> 'f Trace \<Rightarrow> ('f unflatten_error + 'f Trace) option" where
  "push_legacy [] t = Some (Inr t)"
| "push_legacy (batch # legacy) t =
     (if d_lower (hb_desc batch) = d_upper (hb_desc batch) then Some (Inl (LegacyEmptyRange (hb_desc batch)))
      else if d_lower (hb_desc batch) \<noteq> Trace_upper t then
        Some (Inl (LegacyLowerMismatch (d_lower (hb_desc batch)) (Trace_upper t)))
      else do {
        t' \<leftarrow> push_batch_no_merge_reqs batch t;
        push_legacy legacy t'
      })"

definition unflatten_finish ::
  "'f :: bounded_lattice pop_state \<Rightarrow> (SpineId, 'f ThinMerge) btree_map \<Rightarrow> 'f Trace
     \<Rightarrow> ('f unflatten_error + 'f Trace) option" where
  "unflatten_finish pop merges t = do {
     r \<leftarrow> (if tr_roundtrip_structure t
          then Some (if snd pop \<noteq> [] then Inl (LegacyLeft (length (snd pop))) else Inr t)
          else push_legacy (snd pop) t);
     Some (case r of
        Inl e \<Rightarrow> Inl e
      | Inr t' \<Rightarrow>
          if fst pop \<noteq> [] then Inl (HollowLeft (length (fst pop)))
          else if merges \<noteq> [] then Inl (MergesLeft (length merges))
          else (case Trace_validate t' of Inl e \<Rightarrow> Inl (ValidationFailed e) | Inr _ \<Rightarrow> Inr t'))
   }"

definition flat_levels :: "(SpineId, 'f ThinSpineBatch) btree_map \<Rightarrow> nat" where
  "flat_levels sbs =
     (case sbs of [] \<Rightarrow> 0 | (_, batch) # _ \<Rightarrow> min (tsb_level batch + 1) (2 ^ usize_bits - 1))"

definition flat_end :: "(SpineId, 'f :: bounded_lattice ThinSpineBatch) btree_map \<Rightarrow> 'f \<times> nat" where
  "flat_end sbs =
     (if sbs = [] then (bot, 0) else let (i, batch) = last sbs in (d_upper (tsb_desc batch), sid_hi i))"

definition unflatten :: "'f :: bounded_lattice FlatTrace \<Rightarrow> ('f unflatten_error + 'f Trace) option" where
  "unflatten ft =
     (let roundtrip_structure = (ft_spine_batches ft \<noteq> [] \<or> ft_legacy_batches ft = []) in
      case check_total_len (ft_legacy_batches ft @ btree_values (ft_hollow_batches ft)) 0 of
        Inl e \<Rightarrow> Some (Inl e)
      | Inr _ \<Rightarrow>
          let (u, next_id) = flat_end (ft_spine_batches ft);
              levels = flat_levels (ft_spine_batches ft)
          in if MAX_LEVELS < levels then Some (Inl (LevelTooHigh (levels - 1)))
             else
               (case unflatten_batches (ft_spine_batches ft)
                       \<lparr>us_pop = (ft_hollow_batches ft, legacy_stack (ft_legacy_batches ft)),
                        us_merges = ft_merges ft, us_merging = replicate levels MergeState_default\<rparr> of
                  Inl e \<Rightarrow> Some (Inl e)
                | Inr st \<Rightarrow>
                    unflatten_finish (us_pop st) (us_merges st)
                      \<lparr>tr_spine = \<lparr>sp_effort = 1, sp_next_id = next_id, sp_since = ft_since ft, sp_upper = u,
                                    sp_merging = us_merging st\<rparr>,
                       tr_roundtrip_structure = roundtrip_structure\<rparr>))"

end
