(* ===== verification/State_Diff.thy ===== *)
theory State_Diff
  imports State Flat
begin

section \<open>Diffs between versions of a shard (\<open>src/src/persist-client/src/internal/state_diff.rs\<close>)\<close>

text \<open>
  A version of a shard is stored as the difference to the version before it: per field the keys
  inserted, updated and deleted. A reader holds some version and applies the diffs that follow.

  Applying a diff gives an error for a diff that does not fit, and can panic where it calls into
  the trace. After an error the source leaves a half-updated state behind and its callers panic;
  the model returns the error alone. Metrics and log lines are not modelled.
\<close>

subsection \<open>Field diffs\<close>

datatype 'v StateFieldValDiff = Insert 'v | Update 'v 'v | Delete 'v

record ('k, 'v) StateFieldDiff =
  sfd_key :: 'k
  sfd_val :: "'v StateFieldValDiff"

abbreviation field_diff :: "'k \<Rightarrow> 'v StateFieldValDiff \<Rightarrow> ('k, 'v) StateFieldDiff" where
  "field_diff k v \<equiv> \<lparr>sfd_key = k, sfd_val = v\<rparr>"

record 'f StateDiff =
  sd_applier_version :: semver
  sd_seqno_from :: SeqNo
  sd_seqno_to :: SeqNo
  sd_walltime_ms :: u64
  sd_latest_rollup_key :: string
  sd_rollups :: "(SeqNo, HollowRollup) StateFieldDiff list"
  sd_active_rollup :: "(unit, ActiveRollup) StateFieldDiff list"
  sd_active_gc :: "(unit, ActiveGc) StateFieldDiff list"
  sd_hostname :: "(unit, string) StateFieldDiff list"
  sd_last_gc_req :: "(unit, SeqNo) StateFieldDiff list"
  sd_leased_readers :: "(bytes, 'f LeasedReaderState) StateFieldDiff list"
  sd_critical_readers :: "(bytes, 'f CriticalReaderState) StateFieldDiff list"
  sd_writers :: "(bytes, 'f WriterState) StateFieldDiff list"
  sd_schemas :: "(nat, EncodedSchemas) StateFieldDiff list"
  sd_since :: "(unit, 'f) StateFieldDiff list"
  sd_legacy_batches :: "('f HollowBatch, unit) StateFieldDiff list"
  sd_hollow_batches :: "(SpineId, 'f HollowBatch) StateFieldDiff list"
  sd_spine_batches :: "(SpineId, 'f ThinSpineBatch) StateFieldDiff list"
  sd_merges :: "(SpineId, 'f ThinMerge) StateFieldDiff list"

definition StateDiff_new :: "semver \<Rightarrow> SeqNo \<Rightarrow> SeqNo \<Rightarrow> u64 \<Rightarrow> string \<Rightarrow> 'f StateDiff" where
  "StateDiff_new applier_version seqno_from seqno_to walltime_ms latest_rollup_key =
     \<lparr>sd_applier_version = applier_version, sd_seqno_from = seqno_from, sd_seqno_to = seqno_to,
      sd_walltime_ms = walltime_ms, sd_latest_rollup_key = latest_rollup_key, sd_rollups = [],
      sd_active_rollup = [], sd_active_gc = [], sd_hostname = [], sd_last_gc_req = [],
      sd_leased_readers = [], sd_critical_readers = [], sd_writers = [], sd_schemas = [], sd_since = [],
      sd_legacy_batches = [], sd_hollow_batches = [], sd_spine_batches = [], sd_merges = []\<rparr>"

subsection \<open>Making a diff\<close>

definition diff_field_single :: "'v \<Rightarrow> 'v \<Rightarrow> (unit, 'v) StateFieldDiff list" where
  "diff_field_single from to = (if from \<noteq> to then [field_diff () (Update from to)] else [])"

text \<open>
  The walk over two sorted sequences of entries. The order of the keys and the equality of the
  values (\<open>Ord\<close> and \<open>PartialEq\<close> of their types) are arguments.
\<close>

fun diff_field_sorted_iter ::
  "('k \<Rightarrow> 'k \<Rightarrow> Ordering) \<Rightarrow> ('v \<Rightarrow> 'v \<Rightarrow> bool) \<Rightarrow> ('k \<times> 'v) list \<Rightarrow> ('k \<times> 'v) list \<Rightarrow> ('k, 'v) StateFieldDiff list"
where
  "diff_field_sorted_iter c eq [] [] = []"
| "diff_field_sorted_iter c eq ((fk, fv) # from) ((tk, tv) # to) =
     (case c fk tk of
        Less \<Rightarrow> field_diff fk (Delete fv) # diff_field_sorted_iter c eq from ((tk, tv) # to)
      | Greater \<Rightarrow> field_diff tk (Insert tv) # diff_field_sorted_iter c eq ((fk, fv) # from) to
      | Equal \<Rightarrow>
          (if \<not> eq fv tv then [field_diff fk (Update fv tv)] else []) @ diff_field_sorted_iter c eq from to)"
| "diff_field_sorted_iter c eq [] ((tk, tv) # to) =
     field_diff tk (Insert tv) # diff_field_sorted_iter c eq [] to"
| "diff_field_sorted_iter c eq ((fk, fv) # from) [] =
     field_diff fk (Delete fv) # diff_field_sorted_iter c eq from []"

text \<open>The equality of thin spine batches ignores the descriptions of their parts.\<close>

definition ThinSpineBatch_eq :: "'f ThinSpineBatch \<Rightarrow> 'f ThinSpineBatch \<Rightarrow> bool" where
  "ThinSpineBatch_eq a b \<longleftrightarrow> tsb_level a = tsb_level b \<and> tsb_desc a = tsb_desc b \<and> tsb_parts a = tsb_parts b"

abbreviation option_entries :: "'v option \<Rightarrow> (unit \<times> 'v) list" where
  "option_entries x \<equiv> (case x of None \<Rightarrow> [] | Some v \<Rightarrow> [((), v)])"

abbreviation unit_entries :: "'k list \<Rightarrow> ('k \<times> unit) list" where
  "unit_entries ks \<equiv> map (\<lambda>k. (k, ())) ks"

definition unit_cmp :: "unit \<Rightarrow> unit \<Rightarrow> Ordering" where
  "unit_cmp a b = Equal"

abbreviation diff_map :: "('k :: linorder \<times> 'v) list \<Rightarrow> ('k \<times> 'v) list \<Rightarrow> ('k, 'v) StateFieldDiff list" where
  "diff_map \<equiv> diff_field_sorted_iter cmp_of (=)"

definition from_diff :: "('f \<Rightarrow> 'f \<Rightarrow> Ordering) \<Rightarrow> 'f State \<Rightarrow> 'f State \<Rightarrow> 'f StateDiff option" where
  "from_diff el from to =
     (let f = st_collections from; t = st_collections to in do {
       assert (st_shard_id from = st_shard_id to);
       (_, rollup) \<leftarrow> latest_rollup to;
       from_flat \<leftarrow> flatten el (sc_trace f);
       to_flat \<leftarrow> flatten el (sc_trace t);
       Some ((StateDiff_new (sc_version t) (st_seqno from) (st_seqno to) (st_walltime_ms to) (ro_key rollup))
         \<lparr>sd_hostname := diff_field_single (st_hostname from) (st_hostname to),
          sd_last_gc_req := diff_field_single (sc_last_gc_req f) (sc_last_gc_req t),
          sd_active_rollup := diff_field_sorted_iter unit_cmp (=) (option_entries (sc_active_rollup f)) (option_entries (sc_active_rollup t)),
          sd_active_gc := diff_field_sorted_iter unit_cmp (=) (option_entries (sc_active_gc f)) (option_entries (sc_active_gc t)),
          sd_rollups := diff_map (sc_rollups f) (sc_rollups t),
          sd_leased_readers := diff_map (sc_leased_readers f) (sc_leased_readers t),
          sd_critical_readers := diff_map (sc_critical_readers f) (sc_critical_readers t),
          sd_writers := diff_map (sc_writers f) (sc_writers t),
          sd_schemas := diff_map (sc_schemas f) (sc_schemas t),
          sd_since := diff_field_single (Trace_since (sc_trace f)) (Trace_since (sc_trace t)),
          sd_legacy_batches := diff_field_sorted_iter (HollowBatch_cmp el) (=)
            (unit_entries (ft_legacy_batches from_flat)) (unit_entries (ft_legacy_batches to_flat)),
          sd_hollow_batches := diff_map (ft_hollow_batches from_flat) (ft_hollow_batches to_flat),
          sd_spine_batches := diff_field_sorted_iter cmp_of ThinSpineBatch_eq (ft_spine_batches from_flat) (ft_spine_batches to_flat),
          sd_merges := diff_map (ft_merges from_flat) (ft_merges to_flat)\<rparr>)
     })"

subsection \<open>The blobs a diff refers to\<close>

fun legacy_reference :: "('f HollowBatch, unit) StateFieldDiff \<Rightarrow> 'f HollowBatch StateFieldValDiff option" where
  "legacy_reference d =
     (case sfd_val d of Insert _ \<Rightarrow> Some (Insert (sfd_key d)) | Update _ _ \<Rightarrow> None | Delete _ \<Rightarrow> Some (Delete (sfd_key d)))"

definition referenced_batches :: "'f StateDiff \<Rightarrow> 'f HollowBatch StateFieldValDiff list" where
  "referenced_batches d =
     List.map_filter legacy_reference (sd_legacy_batches d) @ map sfd_val (sd_hollow_batches d)"

fun val_inserted :: "'v StateFieldValDiff \<Rightarrow> 'v option" where
  "val_inserted (Insert b) = Some b"
| "val_inserted (Update _ b) = Some b"
| "val_inserted (Delete _) = None"

fun val_removed :: "'v StateFieldValDiff \<Rightarrow> 'v option" where
  "val_removed (Insert _) = None"
| "val_removed (Update a _) = Some a"
| "val_removed (Delete a) = Some a"

definition blob_inserts :: "'f StateDiff \<Rightarrow> 'f HollowBlobRef list" where
  "blob_inserts d =
     map BlobRef_Batch (List.map_filter val_inserted (referenced_batches d)) @
     map BlobRef_Rollup (List.map_filter (val_inserted \<circ> sfd_val) (sd_rollups d))"

definition part_deletes :: "('f \<Rightarrow> 'f \<Rightarrow> Ordering) \<Rightarrow> 'f StateDiff \<Rightarrow> 'f RunPart list" where
  "part_deletes el d =
     (let removed = map hb_parts (List.map_filter val_removed (referenced_batches d));
          added = concat (map hb_parts (List.map_filter val_inserted (referenced_batches d)))
      in filter (\<lambda>part. \<not> list_ex (\<lambda>a. RunPart_cmp el part a = Equal) added) (concat removed))"

definition rollup_deletes :: "'f StateDiff \<Rightarrow> HollowRollup list" where
  "rollup_deletes d = List.map_filter (val_removed \<circ> sfd_val) (sd_rollups d)"

subsection \<open>Applying field diffs\<close>

datatype 'f diff_error =
  SeqNoMismatch SeqNo SeqNo SeqNo
| CannotInsertField string
| CannotDeleteField string
| InsertFoundExisting string
| UpdateMismatch string
| DeleteMismatch string
| NoOverlap
| OverlapNotEmpty "'f HollowBatch"
| LowerMismatch 'f 'f
| UnflattenFailed "'f unflatten_error"

text \<open>\<open>Result::and_then\<close>, the \<open>?\<close> operator.\<close>

fun and_then :: "'e + 'a \<Rightarrow> ('a \<Rightarrow> 'e + 'b) \<Rightarrow> 'e + 'b" where
  "and_then (Inl e) g = Inl e"
| "and_then (Inr a) g = g a"

text \<open>A \<open>for\<close> loop that applies one diff after the other and stops at the first error.\<close>

fun apply_all :: "('d \<Rightarrow> 's \<Rightarrow> 'e + 's) \<Rightarrow> 'd list \<Rightarrow> 's \<Rightarrow> 'e + 's" where
  "apply_all g [] s = Inr s"
| "apply_all g (d # ds) s = and_then (g d s) (apply_all g ds)"

definition apply_diff_single_option :: "string \<Rightarrow> (unit, 'v) StateFieldDiff \<Rightarrow> 'v option \<Rightarrow> 'f diff_error + 'v option" where
  "apply_diff_single_option name diff single =
     (case sfd_val diff of
        Update from to \<Rightarrow> if single \<noteq> Some from then Inl (UpdateMismatch name) else Inr (Some to)
      | Insert to \<Rightarrow> if single \<noteq> None then Inl (InsertFoundExisting name) else Inr (Some to)
      | Delete from \<Rightarrow> if single \<noteq> Some from then Inl (DeleteMismatch name) else Inr None)"

definition apply_diffs_single_option ::
  "string \<Rightarrow> (unit, 'v) StateFieldDiff list \<Rightarrow> 'v option \<Rightarrow> 'f diff_error + 'v option" where
  "apply_diffs_single_option name = apply_all (apply_diff_single_option name)"

definition apply_diff_single :: "string \<Rightarrow> (unit, 'v) StateFieldDiff \<Rightarrow> 'v \<Rightarrow> 'f diff_error + 'v" where
  "apply_diff_single name diff single =
     (case sfd_val diff of
        Update from to \<Rightarrow> if single \<noteq> from then Inl (UpdateMismatch name) else Inr to
      | Insert _ \<Rightarrow> Inl (CannotInsertField name)
      | Delete _ \<Rightarrow> Inl (CannotDeleteField name))"

definition apply_diffs_single :: "string \<Rightarrow> (unit, 'v) StateFieldDiff list \<Rightarrow> 'v \<Rightarrow> 'f diff_error + 'v" where
  "apply_diffs_single name = apply_all (apply_diff_single name)"

definition force_apply_diff_single :: "string \<Rightarrow> (unit, 'v) StateFieldDiff \<Rightarrow> 'v \<Rightarrow> 'f diff_error + 'v" where
  "force_apply_diff_single name diff single =
     (case sfd_val diff of
        Update from to \<Rightarrow> Inr to
      | Insert _ \<Rightarrow> Inl (CannotInsertField name)
      | Delete _ \<Rightarrow> Inl (CannotDeleteField name))"

definition force_apply_diffs_single :: "string \<Rightarrow> (unit, 'v) StateFieldDiff list \<Rightarrow> 'v \<Rightarrow> 'f diff_error + 'v" where
  "force_apply_diffs_single name = apply_all (force_apply_diff_single name)"

text \<open>
  A \<open>BTreeMap\<close> ordered by a comparison, as its sorted entries. Inserting under a key that is
  there keeps the old key.
\<close>

fun cmap_insert :: "('k \<Rightarrow> 'k \<Rightarrow> Ordering) \<Rightarrow> 'k \<Rightarrow> 'v \<Rightarrow> ('k \<times> 'v) list \<Rightarrow> 'v option \<times> ('k \<times> 'v) list" where
  "cmap_insert c k v [] = (None, [(k, v)])"
| "cmap_insert c k v ((x, w) # m) =
     (case c k x of
        Less \<Rightarrow> (None, (k, v) # (x, w) # m)
      | Equal \<Rightarrow> (Some w, (x, v) # m)
      | Greater \<Rightarrow> let (prev, m') = cmap_insert c k v m in (prev, (x, w) # m'))"

fun cmap_remove :: "('k \<Rightarrow> 'k \<Rightarrow> Ordering) \<Rightarrow> 'k \<Rightarrow> ('k \<times> 'v) list \<Rightarrow> 'v option \<times> ('k \<times> 'v) list" where
  "cmap_remove c k [] = (None, [])"
| "cmap_remove c k ((x, w) # m) =
     (case c k x of
        Less \<Rightarrow> (None, (x, w) # m)
      | Equal \<Rightarrow> (Some w, m)
      | Greater \<Rightarrow> let (prev, m') = cmap_remove c k m in (prev, (x, w) # m'))"

definition opt_eq :: "('v \<Rightarrow> 'v \<Rightarrow> bool) \<Rightarrow> 'v option \<Rightarrow> 'v \<Rightarrow> bool" where
  "opt_eq eq prev v = (case prev of None \<Rightarrow> False | Some p \<Rightarrow> eq p v)"

definition apply_diff_map ::
  "('k \<Rightarrow> 'k \<Rightarrow> Ordering) \<Rightarrow> ('v \<Rightarrow> 'v \<Rightarrow> bool) \<Rightarrow> string \<Rightarrow> ('k, 'v) StateFieldDiff \<Rightarrow> ('k \<times> 'v) list
     \<Rightarrow> 'f diff_error + ('k \<times> 'v) list" where
  "apply_diff_map c eq name diff m =
     (case sfd_val diff of
        Insert to \<Rightarrow>
          let (prev, m') = cmap_insert c (sfd_key diff) to m
          in if prev \<noteq> None then Inl (InsertFoundExisting name) else Inr m'
      | Update from to \<Rightarrow>
          let (prev, m') = cmap_insert c (sfd_key diff) to m
          in if \<not> opt_eq eq prev from then Inl (UpdateMismatch name) else Inr m'
      | Delete from \<Rightarrow>
          let (prev, m') = cmap_remove c (sfd_key diff) m
          in if \<not> opt_eq eq prev from then Inl (DeleteMismatch name) else Inr m')"

definition apply_diffs_map ::
  "('k \<Rightarrow> 'k \<Rightarrow> Ordering) \<Rightarrow> ('v \<Rightarrow> 'v \<Rightarrow> bool) \<Rightarrow> string \<Rightarrow> ('k, 'v) StateFieldDiff list \<Rightarrow> ('k \<times> 'v) list
     \<Rightarrow> 'f diff_error + ('k \<times> 'v) list" where
  "apply_diffs_map c eq name = apply_all (apply_diff_map c eq name)"

abbreviation apply_map ::
  "string \<Rightarrow> ('k :: linorder, 'v) StateFieldDiff list \<Rightarrow> ('k \<times> 'v) list \<Rightarrow> 'f diff_error + ('k \<times> 'v) list" where
  "apply_map \<equiv> apply_diffs_map cmp_of (=)"

subsection \<open>Applying diffs of hollow batches to a trace without structure\<close>

text \<open>
  Until the structure of a trace is written down, a version only lists its hollow batches, and
  each reader rebuilds its own spine. The changes are then recognised by their shape.
\<close>

fun sniff_insert ::
  "('f HollowBatch, unit) StateFieldDiff list \<Rightarrow> 'f \<Rightarrow> 'f HollowBatch option \<times> ('f HollowBatch, unit) StateFieldDiff list"
where
  "sniff_insert [] u = (None, [])"
| "sniff_insert (d # diffs) u =
     (if sfd_val d = Insert () \<and> d_lower (hb_desc (sfd_key d)) = u then (Some (sfd_key d), diffs)
      else let (b, diffs') = sniff_insert diffs u in (b, d # diffs'))"

definition sniff_compaction ::
  "('f HollowBatch, unit) StateFieldDiff list \<Rightarrow> ('f HollowBatch list \<times> 'f HollowBatch) option" where
  "sniff_compaction diffs =
     (case filter (\<lambda>d. sfd_val d = Insert ()) diffs of
        [x] \<Rightarrow>
          if list_ex (\<lambda>d. sfd_val d = Update () ()) diffs then None
          else Some (map sfd_key (filter (\<lambda>d. sfd_val d = Delete ()) diffs), sfd_key x)
      | _ \<Rightarrow> None)"

definition overlaps_replacement :: "'f :: order HollowBatch \<Rightarrow> 'f HollowBatch \<Rightarrow> bool" where
  "overlaps_replacement replacement b \<longleftrightarrow>
     \<not> (d_upper (hb_desc b) \<le> d_lower (hb_desc replacement) \<or> d_upper (hb_desc replacement) \<le> d_lower (hb_desc b))"

definition lenient_first ::
  "'f :: order HollowBatch \<Rightarrow> 'f HollowBatch \<Rightarrow> 'f diff_error + 'f HollowBatch list" where
  "lenient_first replacement b =
     (if d_lower (hb_desc b) < d_lower (hb_desc replacement) then
        if 0 < hb_len b then Inl (OverlapNotEmpty b)
        else Inr [HollowBatch_empty (Description_new (d_lower (hb_desc b)) (d_lower (hb_desc replacement)) (d_since (hb_desc b)))]
      else Inr [])"

definition lenient_last ::
  "'f :: order HollowBatch \<Rightarrow> 'f HollowBatch \<Rightarrow> 'f diff_error + 'f HollowBatch list" where
  "lenient_last replacement b =
     (if d_upper (hb_desc replacement) < d_upper (hb_desc b) then
        if 0 < hb_len b then Inl (OverlapNotEmpty b)
        else Inr [HollowBatch_empty (Description_new (d_upper (hb_desc replacement)) (d_upper (hb_desc b)) (d_since (hb_desc b)))]
      else Inr [])"

fun check_contiguous :: "'f \<Rightarrow> 'f HollowBatch list \<Rightarrow> 'f diff_error + unit" where
  "check_contiguous expected_lower [] = Inr ()"
| "check_contiguous expected_lower (b # bs) =
     (if d_lower (hb_desc b) \<noteq> expected_lower then Inl (LowerMismatch (d_lower (hb_desc b)) expected_lower)
      else check_contiguous (d_upper (hb_desc b)) bs)"

definition apply_compaction_lenient ::
  "('f \<Rightarrow> 'f \<Rightarrow> Ordering) \<Rightarrow> 'f :: bounded_lattice HollowBatch list \<Rightarrow> 'f HollowBatch
     \<Rightarrow> 'f diff_error + 'f HollowBatch list" where
  "apply_compaction_lenient el trace replacement =
     (let overlapping_batches = filter (overlaps_replacement replacement) trace;
          retained = filter (\<lambda>b. \<not> overlaps_replacement replacement b) trace
      in if overlapping_batches = [] then Inl NoOverlap
         else
           and_then (lenient_first replacement (hd overlapping_batches)) (\<lambda>before.
           and_then (lenient_last replacement (last overlapping_batches)) (\<lambda>after.
             let trace' = sort_by (\<lambda>a b. el (d_lower (hb_desc a)) (d_lower (hb_desc b)))
                            (retained @ before @ after @ [replacement])
             in and_then (check_contiguous bot trace') (\<lambda>_. Inr trace'))))"

fun push_all :: "'f :: bounded_lattice HollowBatch list \<Rightarrow> 'f Trace \<Rightarrow> 'f Trace option" where
  "push_all [] t = Some t"
| "push_all (b # bs) t = do {
     t' \<leftarrow> push_batch_no_merge_reqs b t;
     push_all bs t'
   }"

definition rebuild_trace :: "'f :: bounded_lattice Trace \<Rightarrow> 'f HollowBatch list \<Rightarrow> 'f Trace option" where
  "rebuild_trace t bs =
     push_all bs (Trace_downgrade_since (Trace_since t)
       (Trace_default\<lparr>tr_roundtrip_structure := tr_roundtrip_structure t\<rparr>))"

text \<open>\<open>map_batches\<close> into a map, asserting that no batch is there twice.\<close>

fun collect_batches ::
  "('f \<Rightarrow> 'f \<Rightarrow> Ordering) \<Rightarrow> 'f HollowBatch list \<Rightarrow> ('f HollowBatch \<times> unit) list \<Rightarrow> ('f HollowBatch \<times> unit) list option"
where
  "collect_batches el [] m = Some m"
| "collect_batches el (b # bs) m =
     (let (prev, m') = cmap_insert (HollowBatch_cmp el) b () m
      in if prev = None then collect_batches el bs m' else panic)"

definition apply_spine_slow ::
  "('f \<Rightarrow> 'f \<Rightarrow> Ordering) \<Rightarrow> ('f HollowBatch, unit) StateFieldDiff list \<Rightarrow> 'f :: bounded_lattice Trace
     \<Rightarrow> ('f diff_error + 'f Trace) option" where
  "apply_spine_slow el diffs t = do {
     m \<leftarrow> collect_batches el (Trace_batches t) [];
     r \<leftarrow> (case (apply_diffs_map (HollowBatch_cmp el) (=) ''spine'' diffs m :: 'f diff_error + _) of
            Inr m' \<Rightarrow> Some (Inr m')
          | Inl _ \<Rightarrow> do {
              reconstructed \<leftarrow> push_all (Trace_batches t) (Trace_default\<lparr>tr_roundtrip_structure := tr_roundtrip_structure t\<rparr>);
              m2 \<leftarrow> collect_batches el (Trace_batches reconstructed) [];
              Some (apply_diffs_map (HollowBatch_cmp el) (=) ''spine'' diffs m2)
            });
     case r of
       Inl e \<Rightarrow> Some (Inl e)
     | Inr m' \<Rightarrow> do {
         t' \<leftarrow> rebuild_trace t (map fst m');
         Some (Inr t')
       }
   }"

definition apply_spine_rest ::
  "('f \<Rightarrow> 'f \<Rightarrow> Ordering) \<Rightarrow> ('f HollowBatch, unit) StateFieldDiff list \<Rightarrow> 'f :: bounded_lattice Trace
     \<Rightarrow> ('f diff_error + 'f Trace) option" where
  "apply_spine_rest el diffs t =
     (case sniff_compaction diffs of
        Some (_, output) \<Rightarrow> do {
          (res, t1) \<leftarrow> apply_merge_res_unchecked
            \<lparr>res_output = output, res_input = Legacy, res_new_active_compaction = None\<rparr> t;
          if ApplyMergeResult_applied res then Some (Inr t1)
          else
            (case apply_compaction_lenient el (Trace_batches t1) output of
               Inl e \<Rightarrow> Some (Inl e)
             | Inr bs \<Rightarrow> do {
                 t2 \<leftarrow> rebuild_trace t1 bs;
                 Some (Inr t2)
               })
        }
      | None \<Rightarrow> apply_spine_slow el diffs t)"

text \<open>The fast path for an empty batch that grew: the added interval is pushed as an empty batch.\<close>

fun grown_empty :: "('f :: order HollowBatch, unit) StateFieldDiff list \<Rightarrow> ('f \<times> 'f) option" where
  "grown_empty [d1, d2] =
     (let del = sfd_key d1; ins = sfd_key d2 in
      if sfd_val d1 = Delete () \<and> sfd_val d2 = Insert () \<and>
         HollowBatch_is_empty del \<and> HollowBatch_is_empty ins \<and> d_lower (hb_desc del) = d_lower (hb_desc ins) \<and>
         d_upper (hb_desc del) < d_upper (hb_desc ins)
      then Some (d_upper (hb_desc del), d_upper (hb_desc ins)) else None)"
| "grown_empty _ = None"

definition apply_diffs_spine ::
  "('f \<Rightarrow> 'f \<Rightarrow> Ordering) \<Rightarrow> ('f HollowBatch, unit) StateFieldDiff list \<Rightarrow> 'f :: bounded_lattice Trace
     \<Rightarrow> ('f diff_error + 'f Trace) option" where
  "apply_diffs_spine el diffs t = do {
     let (insert, diffs1) = sniff_insert diffs (Trace_upper t);
     t1 \<leftarrow> (case insert of Some b \<Rightarrow> push_batch_no_merge_reqs b t | None \<Rightarrow> Some t);
     if diffs1 = [] then Some (Inr t1)
     else
       (case grown_empty diffs1 of
          Some (l, u) \<Rightarrow> do {
            t2 \<leftarrow> push_batch_no_merge_reqs (HollowBatch_empty (Description_new l u bot)) t1;
            Some (Inr t2)
          }
        | None \<Rightarrow> apply_spine_rest el diffs1 t1)
   }"

subsection \<open>Applying a diff\<close>

definition apply_diff_collections ::
  "'f StateDiff \<Rightarrow> 'f StateCollections \<Rightarrow> 'f diff_error + 'f StateCollections" where
  "apply_diff_collections d c =
     and_then (apply_map ''rollups'' (sd_rollups d) (sc_rollups c)) (\<lambda>rollups.
     and_then (apply_diffs_single ''last_gc_req'' (sd_last_gc_req d) (sc_last_gc_req c)) (\<lambda>last_gc_req.
     and_then (apply_diffs_single_option ''active_rollup'' (sd_active_rollup d) (sc_active_rollup c)) (\<lambda>active_rollup.
     and_then (apply_diffs_single_option ''active_gc'' (sd_active_gc d) (sc_active_gc c)) (\<lambda>active_gc.
     and_then (apply_map ''leased_readers'' (sd_leased_readers d) (sc_leased_readers c)) (\<lambda>leased_readers.
     and_then (apply_map ''critical_readers'' (sd_critical_readers d) (sc_critical_readers c)) (\<lambda>critical_readers.
     and_then (apply_map ''writers'' (sd_writers d) (sc_writers c)) (\<lambda>writers.
     and_then (apply_map ''schemas'' (sd_schemas d) (sc_schemas c)) (\<lambda>schemas.
       Inr (c\<lparr>sc_version := sd_applier_version d, sc_rollups := rollups, sc_last_gc_req := last_gc_req,
              sc_active_rollup := active_rollup, sc_active_gc := active_gc, sc_leased_readers := leased_readers,
              sc_critical_readers := critical_readers, sc_writers := writers, sc_schemas := schemas\<rparr>)))))))))"

definition structure_unchanged :: "'f StateDiff \<Rightarrow> bool" where
  "structure_unchanged d \<longleftrightarrow> sd_hollow_batches d = [] \<and> sd_spine_batches d = [] \<and> sd_merges d = []"

definition spine_unchanged :: "'f StateDiff \<Rightarrow> bool" where
  "spine_unchanged d \<longleftrightarrow> sd_since d = [] \<and> sd_legacy_batches d = [] \<and> structure_unchanged d"

definition apply_flat_contents ::
  "('f \<Rightarrow> 'f \<Rightarrow> Ordering) \<Rightarrow> 'f StateDiff \<Rightarrow> 'f FlatTrace \<Rightarrow> 'f diff_error + 'f FlatTrace" where
  "apply_flat_contents el d flat =
     and_then (apply_diffs_single ''since'' (sd_since d) (ft_since flat)) (\<lambda>since.
     and_then (apply_diffs_map (HollowBatch_cmp el) (=) ''legacy_batches'' (sd_legacy_batches d)
                 (unit_entries (ft_legacy_batches flat))) (\<lambda>legacy.
       Inr (flat\<lparr>ft_since := since, ft_legacy_batches := map fst legacy\<rparr>)))"

definition apply_flat_structure :: "'f StateDiff \<Rightarrow> 'f FlatTrace \<Rightarrow> 'f diff_error + 'f FlatTrace" where
  "apply_flat_structure d flat =
     and_then (apply_map ''hollow_batches'' (sd_hollow_batches d) (ft_hollow_batches flat)) (\<lambda>hollow.
     and_then (apply_diffs_map cmp_of ThinSpineBatch_eq ''spine_batches'' (sd_spine_batches d) (ft_spine_batches flat)) (\<lambda>spine.
     and_then (apply_map ''merges'' (sd_merges d) (ft_merges flat)) (\<lambda>merges.
       Inr (flat\<lparr>ft_hollow_batches := hollow, ft_spine_batches := spine, ft_merges := merges\<rparr>))))"

text \<open>The flat trace if it had to be made, and the trace as the code leaves it before \<open>unflatten\<close>.\<close>

definition apply_diff_contents ::
  "('f \<Rightarrow> 'f \<Rightarrow> Ordering) \<Rightarrow> 'f StateDiff \<Rightarrow> 'f :: bounded_lattice Trace
     \<Rightarrow> ('f diff_error + ('f FlatTrace option \<times> 'f Trace)) option" where
  "apply_diff_contents el d t =
     (if tr_roundtrip_structure t then do {
        flat \<leftarrow> flatten el t;
        Some (and_then (apply_flat_contents el d flat) (\<lambda>flat'. Inr (Some flat', t)))
      }
      else
        (case apply_diffs_single ''since'' (sd_since d) (Trace_since t) of
           Inl e \<Rightarrow> Some (Inl e)
         | Inr since \<Rightarrow>
             let t1 = Trace_downgrade_since since t
             in if sd_legacy_batches d \<noteq> [] then do {
                  r \<leftarrow> apply_diffs_spine el (sd_legacy_batches d) t1;
                  Some (and_then r (\<lambda>t2. Inr (None, t2)))
                }
                else Some (Inr (None, t1))))"

definition apply_diff_trace ::
  "('f \<Rightarrow> 'f \<Rightarrow> Ordering) \<Rightarrow> 'f StateDiff \<Rightarrow> 'f :: bounded_lattice Trace \<Rightarrow> ('f diff_error + 'f Trace) option" where
  "apply_diff_trace el d t =
     (if spine_unchanged d then Some (Inr t)
      else do {
        r \<leftarrow> apply_diff_contents el d t;
        case r of
          Inl e \<Rightarrow> Some (Inl e)
        | Inr (flat, t1) \<Rightarrow> do {
            r2 \<leftarrow> (if structure_unchanged d then Some (Inr flat)
                  else do {
                    flat1 \<leftarrow> (case flat of Some fl \<Rightarrow> Some fl | None \<Rightarrow> flatten el t1);
                    Some (and_then (apply_flat_structure d flat1) (\<lambda>fl. Inr (Some fl)))
                  });
            case r2 of
              Inl e \<Rightarrow> Some (Inl e)
            | Inr None \<Rightarrow> Some (Inr t1)
            | Inr (Some fl) \<Rightarrow> do {
                u \<leftarrow> unflatten fl;
                Some (case u of Inl e \<Rightarrow> Inl (UnflattenFailed e) | Inr t2 \<Rightarrow> Inr t2)
              }
          }
      })"

definition apply_diff ::
  "('f \<Rightarrow> 'f \<Rightarrow> Ordering) \<Rightarrow> 'f StateDiff \<Rightarrow> 'f :: bounded_lattice State \<Rightarrow> ('f diff_error + 'f State) option" where
  "apply_diff el d s =
     (if st_seqno s = sd_seqno_to d then Some (Inr s)
      else if st_seqno s \<noteq> sd_seqno_from d then
        Some (Inl (SeqNoMismatch (sd_seqno_from d) (sd_seqno_to d) (st_seqno s)))
      else
        (case and_then (force_apply_diffs_single ''hostname'' (sd_hostname d) (st_hostname s)) (\<lambda>host.
                and_then (apply_diff_collections d (st_collections s)) (\<lambda>c. Inr (host, c))) of
           Inl e \<Rightarrow> Some (Inl e)
         | Inr (host, c) \<Rightarrow> do {
             r \<leftarrow> apply_diff_trace el d (sc_trace c);
             Some (and_then r (\<lambda>t.
               Inr (s\<lparr>st_seqno := sd_seqno_to d, st_walltime_ms := sd_walltime_ms d, st_hostname := host,
                      st_collections := c\<lparr>sc_trace := t\<rparr>\<rparr>)))
           }))"

fun apply_diffs :: "('f \<Rightarrow> 'f \<Rightarrow> Ordering) \<Rightarrow> 'f StateDiff list \<Rightarrow> 'f :: bounded_lattice State \<Rightarrow> 'f State option" where
  "apply_diffs el [] s = Some s"
| "apply_diffs el (d # ds) s = do {
     r \<leftarrow> apply_diff el d s;
     case r of Inr s' \<Rightarrow> apply_diffs el ds s' | Inl _ \<Rightarrow> panic
   }"

text \<open>
  The diffs as consensus holds them, bytes under a sequence number. Those that do not continue
  the version at hand are skipped; \<open>decode\<close> is the protobuf decoding, \<open>None\<close> where it fails.
\<close>

fun decode_diffs ::
  "(bytes \<Rightarrow> 'f StateDiff option) \<Rightarrow> SeqNo \<Rightarrow> (SeqNo \<times> bytes) list \<Rightarrow> 'f StateDiff list option" where
  "decode_diffs decode state_seqno [] = Some []"
| "decode_diffs decode state_seqno ((seqno, data) # ds) =
     (if seqno \<noteq> SeqNo_next state_seqno then decode_diffs decode state_seqno ds
      else do {
        diff \<leftarrow> decode data;
        assert (sd_seqno_from diff = state_seqno);
        rest \<leftarrow> decode_diffs decode (sd_seqno_to diff) ds;
        Some (diff # rest)
      })"

definition apply_encoded_diffs ::
  "('f \<Rightarrow> 'f \<Rightarrow> Ordering) \<Rightarrow> (bytes \<Rightarrow> 'f StateDiff option) \<Rightarrow> (SeqNo \<times> bytes) list \<Rightarrow> 'f :: bounded_lattice State
     \<Rightarrow> 'f State option" where
  "apply_encoded_diffs el decode diffs s = do {
     ds \<leftarrow> decode_diffs decode (st_seqno s) diffs;
     apply_diffs el ds s
   }"

end
