(* ===== verification/Trace_Inv.thy ===== *)
theory Trace_Inv
  imports Trace
begin

section \<open>The invariant of the trace\<close>

text \<open>
  The operations of the trace keep the invariant of its spine: appending and maintenance by
  the theorems of \<open>Spine_Safe\<close>; applying a compaction result because it replaces adjacent
  parts of one spine batch by one part over the same ids and times. A compaction result
  whose output weighs as much as the parts it replaces keeps the weight of the whole trace,
  for every additive weight of batches.
\<close>

subsection \<open>Redundant merge requests\<close>

lemma req_covers_refl: "req_covers r r"
  by (simp add: req_covers_def SpineId_covers_def)

lemma req_covers_trans: "req_covers a b \<Longrightarrow> req_covers b c \<Longrightarrow> req_covers a c"
  by (auto simp: req_covers_def SpineId_covers_def)

definition incomparable :: "'f FueledMergeReq list \<Rightarrow> bool" where
  "incomparable rs \<longleftrightarrow> sorted_wrt (\<lambda>a b. \<not> req_covers a b \<and> \<not> req_covers b a) rs"

lemma stage_merge_reqs_spec:
  assumes "incomparable ret"
  shows "set (stage_merge_reqs reqs ret) \<subseteq> set reqs \<union> set ret"
    and "\<forall>q \<in> set reqs \<union> set ret. \<exists>r \<in> set (stage_merge_reqs reqs ret). req_covers r q"
    and "incomparable (stage_merge_reqs reqs ret)"
  using assms
proof (induction reqs ret rule: stage_merge_reqs.induct)
  case (1 ret)
  {
    case 1
    then show ?case by simp
  next
    case 2
    then show ?case using req_covers_refl by auto
  next
    case 3
    then show ?case by simp
  }
next
  case (2 q reqs ret)
  let ?ret = "if list_ex (\<lambda>r. req_covers r q) ret then ret else filter (\<lambda>r. \<not> req_covers q r) ret @ [q]"
  have eq: "stage_merge_reqs (q # reqs) ret = stage_merge_reqs reqs ?ret"
    by (simp add: Let_def)
  have inc: "incomparable ret \<Longrightarrow> incomparable ?ret"
    by (auto simp: incomparable_def sorted_wrt_append list_ex_iff sorted_wrt_filter)
  have cov: "\<forall>x \<in> insert q (set ret). \<exists>r \<in> set ?ret. req_covers r x"
    using req_covers_refl by (fastforce simp: list_ex_iff)
  {
    case 1
    then show ?case using "2.IH"(1) [OF refl inc] by (auto simp: Let_def split: if_splits)
  next
    case 2
    show ?case
    proof
      fix x assume "x \<in> set (q # reqs) \<union> set ret"
      then consider "x \<in> set reqs" | r where "r \<in> set ?ret" "req_covers r x" using cov by auto
      then show "\<exists>r \<in> set (stage_merge_reqs (q # reqs) ret). req_covers r x"
        unfolding eq using "2.IH"(2) [OF refl inc [OF 2]] by cases (blast, meson UnCI req_covers_trans)
    qed
  next
    case 3
    then show ?case using "2.IH"(3) [OF refl inc] by (simp add: Let_def)
  }
qed

subsection \<open>Updating batches in place\<close>

lemma update_batches_rel:
  assumes "update_batches f stop dflt bs = Some (r, bs')"
    and "\<And>b r b'. b \<in> set bs \<Longrightarrow> f b = Some (r, b') \<Longrightarrow> R b b'" and "\<And>b. R b b"
  shows "list_all2 R bs bs'"
  using assms(1,2)
proof (induction bs arbitrary: r bs')
  case Nil
  then show ?case by simp
next
  case (Cons b bs)
  then show ?case
    by (auto split: if_splits bind_splits prod.splits simp: list_all2_refl [OF assms(3)])
qed

definition level_rel :: "('f SpineBatch \<Rightarrow> 'f SpineBatch \<Rightarrow> bool) \<Rightarrow> 'f MergeState \<Rightarrow> 'f MergeState \<Rightarrow> bool" where
  "level_rel R m m' \<longleftrightarrow> ms_merge m' = ms_merge m \<and> list_all2 R (ms_batches m) (ms_batches m')"

lemma update_levels_rel:
  assumes "update_levels f stop dflt ms = Some (r, ms')"
    and "\<And>b r b'. b \<in> set (level_batches ms) \<Longrightarrow> f b = Some (r, b') \<Longrightarrow> R b b'" and "\<And>b. R b b"
  shows "list_all2 (level_rel R) ms ms'"
  using assms(1,2)
proof (induction ms arbitrary: r ms')
  case Nil
  then show ?case by simp
next
  case (Cons m ms)
  from Cons.prems(1) obtain r1 bs where u: "update_batches f stop dflt (rev (ms_batches m)) = Some (r1, bs)"
    by (auto split: bind_splits prod.splits)
  have "list_all2 R (rev (ms_batches m)) bs"
    using u Cons.prems(2) assms(3) by (intro update_batches_rel) auto
  then have m: "level_rel R m (m\<lparr>ms_batches := rev bs\<rparr>)"
    by (simp add: level_rel_def list_all2_rev1)
  have refl: "list_all2 (level_rel R) ms ms"
    by (intro list_all2_refl) (simp add: level_rel_def list_all2_refl [OF assms(3)])
  show ?case
  proof (cases "stop r1")
    case True
    with Cons.prems(1) u m refl show ?thesis by (auto split: if_splits)
  next
    case False
    with Cons.prems(1) u obtain ms1 where "update_levels f stop dflt ms = Some (r, ms1)"
      "ms' = m\<lparr>ms_batches := rev bs\<rparr> # ms1"
      by (auto split: bind_splits prod.splits)
    with Cons m show ?thesis by auto
  qed
qed

text \<open>What an update of one batch of a spine with since \<open>s\<close> may change.\<close>

definition sb_replaces :: "'f :: bounded_lattice \<Rightarrow> 'f SpineBatch \<Rightarrow> 'f SpineBatch \<Rightarrow> bool" where
  "sb_replaces s b b' \<longleftrightarrow>
     sb_id b' = sb_id b \<and> sb_lower b' = sb_lower b \<and> sb_upper b' = sb_upper b \<and>
     sb_len b' \<le> sb_len b \<and> (sb_ok b \<and> sb_since b \<le> s \<longrightarrow> sb_ok b' \<and> sb_since b' \<le> s)"

lemma sb_replaces_refl: "sb_replaces s b b"
  by (simp add: sb_replaces_def)

lemma sb_replaces_ends: "sb_replaces s b b' \<Longrightarrow> sb_lo b' = sb_lo b \<and> sb_hi b' = sb_hi b"
  by (simp add: sb_replaces_def sb_lo_def sb_hi_def)

lemma list_all2_hd: "list_all2 R xs ys \<Longrightarrow> xs \<noteq> [] \<Longrightarrow> R (hd xs) (hd ys)"
  by (cases xs; cases ys) auto

lemma list_all2_last: "list_all2 R xs ys \<Longrightarrow> xs \<noteq> [] \<Longrightarrow> R (last xs) (last ys)"
  by (induction xs ys rule: list_all2_induct) auto

lemma list_all2_in_set2: "list_all2 R xs ys \<Longrightarrow> y \<in> set ys \<Longrightarrow> \<exists>x \<in> set xs. R x y"
  by (induction rule: list_all2_induct) auto

lemma level_rel_id: "level_rel (sb_replaces s) m m' \<Longrightarrow> MergeState_id m' = MergeState_id m"
  using list_all2_hd [of "sb_replaces s" "ms_batches m" "ms_batches m'"]
    list_all2_last [of "sb_replaces s" "ms_batches m" "ms_batches m'"]
  by (auto simp: level_rel_def MergeState_id_def sb_replaces_def dest: list_all2_lengthD)

lemma level_rel_str:
  assumes "level_rel (sb_replaces s) m m'" and "level_str s m"
  shows "level_str s m'"
proof -
  have all: "list_all2 (sb_replaces s) (ms_batches m) (ms_batches m')" and "ms_merge m' = ms_merge m"
    using assms(1) by (auto simp: level_rel_def)
  moreover have "\<forall>b' \<in> set (ms_batches m'). sb_ok b' \<and> sb_since b' \<le> s"
    using assms(2) list_all2_in_set2 [OF all] unfolding level_str_def sb_replaces_def by metis
  ultimately show ?thesis
    using assms(2) level_rel_id [OF assms(1)] by (auto simp: level_str_def dest: list_all2_lengthD)
qed

lemma level_rel_fuel:
  assumes "level_rel (sb_replaces s) m m'" and "level_fuel k v m"
  shows "level_fuel k v m'"
proof -
  have "\<forall>b' \<in> set (ms_batches m'). sb_len b' \<le> 2 ^ k"
    using assms list_all2_in_set2 [of "sb_replaces s" "ms_batches m" "ms_batches m'"]
    unfolding level_rel_def level_fuel_def sb_replaces_def by (meson le_trans)
  with assms show ?thesis by (auto simp: level_rel_def level_fuel_def)
qed

lemma levels_rel_lvl:
  assumes "list_all2 (level_rel R) ms ms'"
  shows "level_rel R (lvl ms k) (lvl ms' k)"
  using assms by (auto simp: lvl_def list_all2_conv_all_nth level_rel_def)

lemma levels_rel_ok:
  assumes "list_all2 (level_rel (sb_replaces s)) ms ms'" and "levels_ok s (lvl ms)"
  shows "levels_ok s (lvl ms')"
proof -
  note rel = levels_rel_lvl [OF assms(1)]
  have "length (ms_batches (lvl ms' i)) = length (ms_batches (lvl ms i))" for i
    using rel [of i] by (auto simp: level_rel_def dest: list_all2_lengthD)
  then have "vrec (lvl ms') k = vrec (lvl ms) k" for k
    by (intro vrec_cong)
  with assms(2) rel show ?thesis
    unfolding levels_ok_def by (metis level_rel_str level_rel_fuel)
qed

lemma levels_rel_batches:
  assumes "list_all2 (level_rel R) ms ms'"
  shows "list_all2 R (level_batches ms) (level_batches ms')"
  using assms by (induction rule: list_all2_induct) (auto simp: level_rel_def list_all2_appendI)

lemma replaces_chained:
  assumes "list_all2 (sb_replaces s) bs bs'" and "chained sb_lo sb_hi x bs y"
  shows "chained sb_lo sb_hi x bs' y"
  using assms
proof (induction arbitrary: x rule: list_all2_induct)
  case Nil
  then show ?case by simp
next
  case (Cons b bs b' bs')
  then show ?case using sb_replaces_ends [of s b b'] by simp
qed

lemma replaces_len:
  "list_all2 (sb_replaces s) bs bs' \<Longrightarrow> sum_list (map sb_len bs') \<le> sum_list (map sb_len bs)"
  by (induction rule: list_all2_induct) (auto simp: sb_replaces_def)

definition trace_inv :: "'f :: bounded_lattice Trace \<Rightarrow> bool" where
  "trace_inv t \<longleftrightarrow> spine_inv (tr_spine t)"

lemma Trace_update_inv:
  assumes inv: "trace_inv t" and upd: "Trace_update f stop dflt t = Some (r, t')"
    and f: "\<And>b r b'. b \<in> set (spine_batches (tr_spine t)) \<Longrightarrow> f b = Some (r, b') \<Longrightarrow> sb_replaces (Trace_since t) b b'"
  shows "trace_inv t'" and "Trace_since t' = Trace_since t" and "Trace_upper t' = Trace_upper t"
    and "list_all2 (sb_replaces (Trace_since t)) (spine_batches (tr_spine t)) (spine_batches (tr_spine t'))"
proof -
  let ?sp = "tr_spine t"
  obtain ms' where ms': "update_levels f stop dflt (sp_merging ?sp) = Some (r, ms')"
    and t': "t' = t\<lparr>tr_spine := ?sp\<lparr>sp_merging := ms'\<rparr>\<rparr>"
    using upd by (auto simp: Trace_update_def split: bind_splits)
  have rel: "list_all2 (level_rel (sb_replaces (sp_since ?sp))) (sp_merging ?sp) ms'"
    using f by (intro update_levels_rel [OF ms']) (auto simp: spine_batches_def Trace_since_def sb_replaces_refl)
  note bs = levels_rel_batches [OF rel]
  have "levels_ok (sp_since ?sp) (lvl ms')"
    using levels_rel_ok [OF rel] inv by (simp add: trace_inv_def spine_inv_def)
  then show "trace_inv t'"
    using inv replaces_chained [OF bs] replaces_len [OF bs]
    by (auto simp: trace_inv_def spine_inv_def t' spine_batches_def spine_len_def)
  show "Trace_since t' = Trace_since t" and "Trace_upper t' = Trace_upper t"
    by (simp_all add: t' Trace_since_def Trace_upper_def)
  show "list_all2 (sb_replaces (Trace_since t)) (spine_batches ?sp) (spine_batches (tr_spine t'))"
    using bs by (simp add: t' spine_batches_def Trace_since_def)
qed

subsection \<open>Replacing adjacent parts\<close>

lemma slice_split:
  assumes "j \<le> k" and "k \<le> length xs"
  shows "xs = take j xs @ take (k - j) (drop j xs) @ drop k xs"
  using assms by (metis append_take_drop_id drop_drop le_add_diff_inverse2)

lemma slice_ends:
  assumes "j < k" and "k \<le> length xs"
  shows "take (k - j) (drop j xs) \<noteq> []"
    and "hd (take (k - j) (drop j xs)) = xs ! j"
    and "last (take (k - j) (drop j xs)) = xs ! (k - 1)"
  using assms by (simp_all add: hd_drop_conv_nth last_conv_nth min_absorb2 diff_le_mono)

text \<open>\<open>covers_slice b i d j k\<close>: the id and the description are those of a range of parts.\<close>

definition covers_slice :: "'f SpineBatch \<Rightarrow> SpineId \<Rightarrow> 'f Description \<Rightarrow> nat \<Rightarrow> nat \<Rightarrow> bool" where
  "covers_slice b i d j k \<longleftrightarrow>
     j < k \<and> k \<le> length (sb_parts b) \<and>
     ihb_lo (sb_parts b ! j) = (sid_lo i, d_lower d) \<and>
     ihb_hi (sb_parts b ! (k - 1)) = (sid_hi i, d_upper d)"

lemma perform_subset_replacement_ok:
  assumes cov: "covers_slice b i (hb_desc res) j k" and strict: "hb_strict res"
    and perf: "perform_subset_replacement b res i (j, k) nac = Some (r, b')"
  shows "sb_replaces s b b'" and "length (sb_parts b') \<le> length (sb_parts b)"
proof -
  let ?ps = "sb_parts b" and ?new = "\<lparr>ihb_id = i, ihb_batch = res\<rparr>"
  let ?mid = "take (k - j) (drop j ?ps)"
  have range: "j < k" "k \<le> length ?ps" using cov by (auto simp: covers_slice_def)
  note split = slice_split [OF less_imp_le [OF range(1)] range(2)] and mid = slice_ends [OF range]
  let ?ps' = "take j ?ps @ ?new # drop k ?ps"
  have cases: "(r, b') = (NotAppliedTooManyUpdates, b) \<or>
      b' = b\<lparr>sb_parts := ?ps', sb_active_compaction := nac, sb_len := sum_list (map ihb_len ?ps')\<rparr> \<and> sb_len b' \<le> sb_len b"
    using perf range by (cases b) (auto simp: perform_subset_replacement_def Let_def split: if_splits)
  show "length (sb_parts b') \<le> length ?ps" using cases range by auto
  have "sb_ok b'" if ok: "sb_ok b"
  proof -
    have chain: "chained ihb_lo ihb_hi (sb_lo b) ?ps (sb_hi b)" and proper: "\<forall>p \<in> set ?ps. ihb_proper p"
      using ok by (auto simp: sb_ok_def)
    then have "chained ihb_lo ihb_hi (sb_lo b) (take j ?ps @ ?mid @ drop k ?ps) (sb_hi b)"
      using split by metis
    moreover have ends: "ihb_lo ?new = ihb_lo (hd ?mid)" "ihb_hi ?new = ihb_hi (last ?mid)"
      using cov mid by (simp_all add: covers_slice_def ihb_lo_def ihb_hi_def)
    ultimately have chain': "chained ihb_lo ihb_hi (sb_lo b) ?ps' (sb_hi b)"
      using mid(1) by (intro chained_replace)
    obtain x y where m: "chained ihb_lo ihb_hi x ?mid y"
      using chain split by (metis chained_append)
    have "\<forall>p \<in> set ?mid. ihb_proper p" using proper by (meson in_set_dropD in_set_takeD)
    then have "ihb_proper ?new"
      using chained_proper [OF m] mid(1) ends chained_ends [OF m mid(1)] strict
      by (auto simp: ihb_proper_def ihb_lo_def ihb_hi_def simp del: take_eq_Nil)
    then have "\<forall>p \<in> set ?ps'. ihb_proper p"
      using proper by (auto dest: in_set_takeD in_set_dropD)
    with chain' cases ok show ?thesis by (auto simp: sb_ok_def sb_lo_def sb_hi_def)
  qed
  with cases show "sb_replaces s b b'" by (auto simp: sb_replaces_def)
qed

subsection \<open>Finding the parts to replace\<close>

text \<open>Along a chain of proper parts, ids and frontiers increase.\<close>

lemma chained_around:
  assumes "chained l u x (as @ b # cs) y"
  shows "chained l u x as (l b)" and "chained l u (u b) cs y"
  using assms by (induction as arbitrary: x) auto

lemma list_between:
  assumes "j < k" and "k < length ps"
  shows "ps = take j ps @ ps ! j # take (k - Suc j) (drop (Suc j) ps) @ ps ! k # drop (Suc k) ps"
proof -
  have "drop (Suc j) ps = take (k - Suc j) (drop (Suc j) ps) @ drop (k - Suc j) (drop (Suc j) ps)"
    by (simp only: append_take_drop_id)
  also have "drop (k - Suc j) (drop (Suc j) ps) = ps ! k # drop (Suc k) ps"
    using assms by (simp add: Cons_nth_drop_Suc)
  finally have rest: "drop (Suc j) ps = take (k - Suc j) (drop (Suc j) ps) @ ps ! k # drop (Suc k) ps" .
  show ?thesis
    unfolding rest [symmetric] using assms by (intro id_take_nth_drop) simp
qed

lemma parts_increase:
  assumes chain: "chained ihb_lo ihb_hi x ps y" and proper: "\<forall>p \<in> set ps. ihb_proper p"
    and jk: "j < k" "k < length ps"
  shows "fst (ihb_hi (ps ! j)) \<le> fst (ihb_lo (ps ! k))" and "snd (ihb_hi (ps ! j)) \<le> snd (ihb_lo (ps ! k))"
proof -
  let ?mid = "take (k - Suc j) (drop (Suc j) ps)"
  have "chained ihb_lo ihb_hi x (take j ps @ ps ! j # ?mid @ ps ! k # drop (Suc k) ps) y"
    using chain unfolding list_between [OF jk, symmetric] .
  then have mid: "chained ihb_lo ihb_hi (ihb_hi (ps ! j)) ?mid (ihb_lo (ps ! k))"
    by (intro chained_around(1)) (rule chained_around(2))
  have "\<forall>p \<in> set ?mid. ihb_proper p" using proper by (meson in_set_dropD in_set_takeD)
  note le = chained_proper [OF mid this]
  show "snd (ihb_hi (ps ! j)) \<le> snd (ihb_lo (ps ! k))" by (rule le)
  show "fst (ihb_hi (ps ! j)) \<le> fst (ihb_lo (ps ! k))"
  proof (cases "?mid = []")
    case True
    with mid show ?thesis by simp
  next
    case False
    with le(2) show ?thesis by simp
  qed
qed

lemma find_range_from_spec:
  assumes "find_range_from desc n l u ps = (Some (i, il), Some (k, ih))"
  shows "Some (i, il) = l \<or> n \<le> i \<and> i < n + length ps \<and> ihb_lo (ps ! (i - n)) = (il, d_lower desc)"
    and "Some (k, ih) = u \<or> n \<le> k \<and> k < n + length ps \<and> ihb_hi (ps ! (k - n)) = (ih, d_upper desc)"
  using assms
proof (induction desc n l u ps rule: find_range_from.induct)
  case (1 desc n l u)
  {
    case 1 then show ?case by simp
  next
    case 2 then show ?case by simp
  }
next
  case (2 desc n l u p ps)
  let ?l = "if d_lower (hb_desc (ihb_batch p)) = d_lower desc then Some (n, sid_lo (ihb_id p)) else l"
  let ?u = "if d_upper (hb_desc (ihb_batch p)) = d_upper desc then Some (n, sid_hi (ihb_id p)) else u"
  have step: "find_range_from desc n l u (p # ps) = (if ?l \<noteq> None \<and> ?u \<noteq> None then (?l, ?u)
      else find_range_from desc (n + 1) ?l ?u ps)"
    by (simp add: Let_def)
  {
    case 1
    show ?case
    proof (cases "?l \<noteq> None \<and> ?u \<noteq> None")
      case True
      then show ?thesis using 1 step by (auto simp: ihb_lo_def split: if_splits)
    next
      case False
      have "Some (i, il) = ?l \<or> n + 1 \<le> i \<and> i < n + 1 + length ps \<and> ihb_lo (ps ! (i - (n + 1))) = (il, d_lower desc)"
        using "2.IH"(1) [OF refl refl False] 1 step False by auto
      then show ?thesis
        by (auto simp: ihb_lo_def nth_Cons' split: if_splits)
    qed
  next
    case 2
    show ?case
    proof (cases "?l \<noteq> None \<and> ?u \<noteq> None")
      case True
      then show ?thesis using 2 step by (auto simp: ihb_hi_def split: if_splits)
    next
      case False
      have "Some (k, ih) = ?u \<or> n + 1 \<le> k \<and> k < n + 1 + length ps \<and> ihb_hi (ps ! (k - (n + 1))) = (ih, d_upper desc)"
        using "2.IH"(2) [OF refl refl False] 2 step False by auto
      then show ?thesis
        by (auto simp: ihb_hi_def nth_Cons' split: if_splits)
    qed
  }
qed

lemma find_replacement_range_ok:
  assumes find: "find_replacement_range b desc = Some (i, (j, k))"
    and ok: "sb_ok b" and less: "d_lower desc < d_upper desc"
  shows "covers_slice b i desc j k"
proof -
  let ?ps = "sb_parts b"
  from find obtain u il ih where f: "find_range_from desc 0 None None ?ps = (Some (j, il), Some (u, ih))"
    and i: "i = SpineId il ih" and k: "k = u + 1"
    by (auto simp: find_replacement_range_def split: prod.splits option.splits)
  from find_range_from_spec [OF f]
  have j: "j < length ?ps" "ihb_lo (?ps ! j) = (il, d_lower desc)"
    and u: "u < length ?ps" "ihb_hi (?ps ! u) = (ih, d_upper desc)"
    by simp_all
  have "j \<le> u"
  proof (rule ccontr)
    assume "\<not> j \<le> u"
    then have "snd (ihb_hi (?ps ! u)) \<le> snd (ihb_lo (?ps ! j))"
      using parts_increase(2) [of "sb_lo b" ?ps "sb_hi b" u j] ok j(1) by (auto simp: sb_ok_def)
    with j(2) u(2) less show False by (simp add: less_le_not_le)
  qed
  with i k j u show ?thesis by (simp add: covers_slice_def)
qed

subsection \<open>Replacing a range of ids\<close>

lemma id_range_from_ends:
  "id_range_from r ids = Some i \<Longrightarrow> sid_lo i = sid_lo r \<and> sid_hi i = sid_hi (last (r # ids))"
  by (induction r ids rule: id_range_from.induct) (auto split: if_splits)

lemma id_range_ends:
  assumes "id_range ids = Some i"
  shows "\<exists>a \<in> set ids. sid_lo a = sid_lo i" and "\<exists>b \<in> set ids. sid_hi b = sid_hi i"
proof -
  from assms obtain a as where ids: "ids = a # as" by (cases ids) auto
  with assms have "sid_lo i = sid_lo a" "sid_hi i = sid_hi (last ids)"
    using id_range_from_ends [of a as i] by auto
  moreover have "a \<in> set ids" "last ids \<in> set ids" by (simp_all add: ids)
  ultimately show "\<exists>a \<in> set ids. sid_lo a = sid_lo i" and "\<exists>b \<in> set ids. sid_hi b = sid_hi i"
    by metis+
qed

definition covered_indices :: "SpineId \<Rightarrow> 'f IdHollowBatch list \<Rightarrow> nat set" where
  "covered_indices i ps = {j. j < length ps \<and> SpineId_covers i (ihb_id (ps ! j))}"

lemma covered_enumerate:
  "set (map fst (filter (\<lambda>(j, p). SpineId_covers i (ihb_id p)) (enumerate 0 ps))) = covered_indices i ps"
  "map (\<lambda>(j, p). ihb_id p) (filter (\<lambda>(j, p). SpineId_covers i (ihb_id p)) (enumerate 0 ps)) =
     map ihb_id (filter (\<lambda>p. SpineId_covers i (ihb_id p)) ps)"
proof -
  show "set (map fst (filter (\<lambda>(j, p). SpineId_covers i (ihb_id p)) (enumerate 0 ps))) = covered_indices i ps"
    by (auto simp: covered_indices_def in_set_enumerate_eq image_iff split_beta)
  have "map (\<lambda>(j, p). ihb_id p) (filter (\<lambda>(j, p). SpineId_covers i (ihb_id p)) (enumerate n ps)) =
     map ihb_id (filter (\<lambda>p. SpineId_covers i (ihb_id p)) ps)" for n
    by (induction ps arbitrary: n) auto
  then show "map (\<lambda>(j, p). ihb_id p) (filter (\<lambda>(j, p). SpineId_covers i (ihb_id p)) (enumerate 0 ps)) =
     map ihb_id (filter (\<lambda>p. SpineId_covers i (ihb_id p)) ps)" .
qed

lemma covered_range:
  fixes ps :: "'f :: bounded_lattice IdHollowBatch list" and i
  defines "J \<equiv> covered_indices i ps"
  assumes chain: "chained ihb_lo ihb_hi x ps y" and proper: "\<forall>p \<in> set ps. ihb_proper p"
    and lo: "\<exists>a \<in> J. sid_lo (ihb_id (ps ! a)) = sid_lo i" and hi: "\<exists>b \<in> J. sid_hi (ihb_id (ps ! b)) = sid_hi i"
  shows "Min J < length ps" and "Max J < length ps" and "Min J \<le> Max J"
    and "sid_lo (ihb_id (ps ! Min J)) = sid_lo i" and "sid_hi (ihb_id (ps ! Max J)) = sid_hi i"
    and "J = {Min J..Max J}"
proof -
  have fin: "finite J" and ne: "J \<noteq> {}" using lo by (auto simp: J_def covered_indices_def)
  then have mem: "Min J \<in> J" "Max J \<in> J" by auto
  then show len: "Min J < length ps" "Max J < length ps" by (auto simp: J_def covered_indices_def)
  show le: "Min J \<le> Max J" using fin mem by simp
  have incr: "sid_lo (ihb_id (ps ! a)) \<le> sid_lo (ihb_id (ps ! b))" "sid_hi (ihb_id (ps ! a)) \<le> sid_hi (ihb_id (ps ! b))"
    if "a \<le> b" "b < length ps" for a b
  proof -
    have "ihb_proper (ps ! a)" "ihb_proper (ps ! b)" using proper that by auto
    then show "sid_lo (ihb_id (ps ! a)) \<le> sid_lo (ihb_id (ps ! b))" "sid_hi (ihb_id (ps ! a)) \<le> sid_hi (ihb_id (ps ! b))"
      using parts_increase(1) [OF chain proper, of a b] that
      by (cases "a = b"; force simp: ihb_proper_def ihb_lo_def ihb_hi_def)+
  qed
  obtain a where a: "a \<in> J" "sid_lo (ihb_id (ps ! a)) = sid_lo i" using lo by blast
  have "sid_lo i \<le> sid_lo (ihb_id (ps ! Min J))" using mem by (auto simp: J_def covered_indices_def SpineId_covers_def)
  moreover have "sid_lo (ihb_id (ps ! Min J)) \<le> sid_lo i"
    using incr(1) [of "Min J" a] fin a by (auto simp: J_def covered_indices_def)
  ultimately show lo': "sid_lo (ihb_id (ps ! Min J)) = sid_lo i" by simp
  obtain b where b: "b \<in> J" "sid_hi (ihb_id (ps ! b)) = sid_hi i" using hi by blast
  have "sid_hi (ihb_id (ps ! Max J)) \<le> sid_hi i" using mem by (auto simp: J_def covered_indices_def SpineId_covers_def)
  moreover have "sid_hi i \<le> sid_hi (ihb_id (ps ! Max J))"
    using incr(2) [of b "Max J"] fin b len by auto
  ultimately show hi': "sid_hi (ihb_id (ps ! Max J)) = sid_hi i" by simp
  show "J = {Min J..Max J}"
  proof
    show "J \<subseteq> {Min J..Max J}" using fin by auto
    show "{Min J..Max J} \<subseteq> J"
    proof
      fix c assume "c \<in> {Min J..Max J}"
      then show "c \<in> J"
        using incr(1) [of "Min J" c] incr(2) [of c "Max J"] len lo' hi'
        by (auto simp: J_def covered_indices_def SpineId_covers_def)
    qed
  qed
qed

lemma filter_interval:
  assumes P: "\<And>n. n < length xs \<Longrightarrow> P (xs ! n) \<longleftrightarrow> j \<le> n \<and> n < k" and "j \<le> k" "k \<le> length xs"
  shows "filter P xs = take (k - j) (drop j xs)"
proof -
  have "filter P (take j xs) = []" "filter P (drop k xs) = []"
    using assms by (auto simp: filter_empty_conv in_set_conv_nth)
  moreover have "filter P (take (k - j) (drop j xs)) = take (k - j) (drop j xs)"
    using assms by (auto simp: filter_id_conv in_set_conv_nth)
  moreover have "filter P xs = filter P (take j xs @ take (k - j) (drop j xs) @ drop k xs)"
    using slice_split [OF assms(2,3)] by simp
  ultimately show ?thesis by simp
qed

definition covered_parts :: "SpineId \<Rightarrow> 'f SpineBatch \<Rightarrow> 'f IdHollowBatch list" where
  "covered_parts i b = filter (\<lambda>p. SpineId_covers i (ihb_id p)) (sb_parts b)"

text \<open>
  What is asked of a compaction result: its output spans the times of the parts it replaces,
  and not none. Only a result for an id range needs the former, because in the other cases the
  code compares the descriptions.
\<close>

definition res_fits :: "'f :: bounded_lattice FueledMergeRes \<Rightarrow> 'f SpineBatch \<Rightarrow> bool" where
  "res_fits res b \<longleftrightarrow>
     d_lower (hb_desc (res_output res)) < d_upper (hb_desc (res_output res)) \<and>
     (case res_input res of
        IdRange i \<Rightarrow>
          covered_parts i b \<noteq> [] \<longrightarrow>
          d_lower (hb_desc (res_output res)) = d_lower (hb_desc (ihb_batch (hd (covered_parts i b)))) \<and>
          d_upper (hb_desc (res_output res)) = d_upper (hb_desc (ihb_batch (last (covered_parts i b))))
      | _ \<Rightarrow> True)"

lemma id_range_slice:
  fixes b :: "'f :: bounded_lattice SpineBatch" and i
  defines "J \<equiv> covered_indices i (sb_parts b)"
  assumes ok: "sb_ok b" and range: "id_range (btree_set_of_list (map ihb_id (covered_parts i b))) = Some i"
  shows "covered_parts i b = take (Max J + 1 - Min J) (drop (Min J) (sb_parts b))"
    and "Min J < Max J + 1" and "Max J + 1 \<le> length (sb_parts b)"
    and "sid_lo (ihb_id (sb_parts b ! Min J)) = sid_lo i" and "sid_hi (ihb_id (sb_parts b ! Max J)) = sid_hi i"
proof -
  let ?ps = "sb_parts b"
  have chain: "chained ihb_lo ihb_hi (sb_lo b) ?ps (sb_hi b)" and proper: "\<forall>p \<in> set ?ps. ihb_proper p"
    using ok by (auto simp: sb_ok_def)
  have index: "\<exists>a \<in> J. ihb_id (?ps ! a) = x" if "x \<in> set (btree_set_of_list (map ihb_id (covered_parts i b)))" for x
  proof -
    from that obtain p where p: "p \<in> set ?ps" "SpineId_covers i (ihb_id p)" "x = ihb_id p"
      by (auto simp: covered_parts_def)
    then obtain a where "a < length ?ps" "?ps ! a = p" by (meson in_set_conv_nth)
    with p show ?thesis by (auto simp: J_def covered_indices_def)
  qed
  have ends: "\<exists>a \<in> J. sid_lo (ihb_id (?ps ! a)) = sid_lo i" "\<exists>a \<in> J. sid_hi (ihb_id (?ps ! a)) = sid_hi i"
    using id_range_ends [OF range] by (blast dest: index)+
  note r = covered_range [OF chain proper, of i, folded J_def, OF ends]
  show "sid_lo (ihb_id (?ps ! Min J)) = sid_lo i" "sid_hi (ihb_id (?ps ! Max J)) = sid_hi i"
    "Min J < Max J + 1" "Max J + 1 \<le> length ?ps"
    using r(1-5) by auto
  have iff: "SpineId_covers i (ihb_id (?ps ! n)) \<longleftrightarrow> Min J \<le> n \<and> n < Max J + 1" if "n < length ?ps" for n
  proof -
    have "SpineId_covers i (ihb_id (?ps ! n)) \<longleftrightarrow> n \<in> J" using that by (simp add: J_def covered_indices_def)
    also have "\<dots> \<longleftrightarrow> n \<in> {Min J..Max J}" by (subst r(6)) (rule refl)
    finally show ?thesis by auto
  qed
  show "covered_parts i b = take (Max J + 1 - Min J) (drop (Min J) ?ps)"
    unfolding covered_parts_def using r(2,3) by (intro filter_interval iff) auto
qed

lemma handle_id_range_unfold:
  "handle_id_range_replacement e b res i nds =
     (let ids = btree_set_of_list (map ihb_id (covered_parts i b));
          rng = (Min (covered_indices i (sb_parts b)), Max (covered_indices i (sb_parts b)) + 1)
      in if ids = [] then Some (NotAppliedNoMatch, b)
         else do {
           covered \<leftarrow> id_range ids;
           if i \<noteq> covered then Some (NotAppliedNoMatch, b)
           else do {
             replaced \<leftarrow> Merge_Res.slice (sb_parts b) rng;
             old_diffs_sum \<leftarrow> parts_diffs_sum_from e 0 replaced;
             validate_diffs_sum_match old_diffs_sum nds;
             perform_subset_replacement b (res_output res) i rng (res_new_active_compaction res)
           }
         })"
  by (simp only: handle_id_range_replacement_def Let_def covered_enumerate covered_parts_def)

lemma handle_id_range_replacement_ok:
  assumes ok: "sb_ok b" and fits: "res_fits res b" and input: "res_input res = IdRange i"
    and h: "handle_id_range_replacement e b res i nds = Some (r, b')"
  shows "sb_replaces s b b'" and "length (sb_parts b') \<le> length (sb_parts b)"
proof -
  let ?J = "covered_indices i (sb_parts b)" and ?ids = "btree_set_of_list (map ihb_id (covered_parts i b))"
  consider "b' = b" | "id_range ?ids = Some i" "perform_subset_replacement b (res_output res) i
      (Min ?J, Max ?J + 1) (res_new_active_compaction res) = Some (r, b')"
    using h by (auto simp: handle_id_range_unfold Let_def split: if_splits bind_splits)
  then have "sb_replaces s b b' \<and> length (sb_parts b') \<le> length (sb_parts b)"
  proof cases
    case 1
    then show ?thesis by (simp add: sb_replaces_refl)
  next
    case 2
    note slice = id_range_slice [OF ok 2(1)]
    note mid = slice_ends [OF slice(2,3), folded slice(1)]
    have "covers_slice b i (hb_desc (res_output res)) (Min ?J) (Max ?J + 1)"
      using slice(2-5) mid fits input by (simp add: covers_slice_def res_fits_def ihb_lo_def ihb_hi_def)
    moreover have "hb_strict (res_output res)" using fits by (simp add: res_fits_def hb_strict_def)
    ultimately show ?thesis using perform_subset_replacement_ok 2(2) by blast
  qed
  then show "sb_replaces s b b'" and "length (sb_parts b') \<le> length (sb_parts b)" by auto
qed

lemma position_of_id_Some: "position_of_id i ps = Some j \<Longrightarrow> j < length ps \<and> ihb_id (ps ! j) = i"
  by (induction ps arbitrary: j) (auto split: if_splits)

lemma construct_batch_desc:
  "construct_batch_with_runs_replaced original run_ids replacement = Some (Inr new) \<Longrightarrow>
     hb_desc new = hb_desc replacement"
  by (auto simp: construct_batch_with_runs_replaced_def HollowBatch_new_def Let_def split: if_splits bind_splits)

lemma handle_partial_batch_replacement_ok:
  assumes h: "handle_partial_batch_replacement e b res i runs nds = Some (r, b')"
    and less: "d_lower (hb_desc (res_output res)) < d_upper (hb_desc (res_output res))"
  shows "sb_replaces s b b'" and "length (sb_parts b') \<le> length (sb_parts b)"
proof -
  consider "b' = b" | j new where "position_of_id i (sb_parts b) = Some j"
      "d_lower (hb_desc (res_output res)) = d_lower (hb_desc (ihb_batch (sb_parts b ! j)))"
      "d_upper (hb_desc (res_output res)) = d_upper (hb_desc (ihb_batch (sb_parts b ! j)))"
      "hb_desc new = hb_desc (res_output res)"
      "perform_subset_replacement b new i (j, j + 1) (res_new_active_compaction res) = Some (r, b')"
    using h by (auto simp: handle_partial_batch_replacement_def Let_def dest: construct_batch_desc
        split: if_splits bind_splits option.splits sum.splits)
  then have "sb_replaces s b b' \<and> length (sb_parts b') \<le> length (sb_parts b)"
  proof cases
    case 1
    then show ?thesis by (simp add: sb_replaces_refl)
  next
    case (2 j new)
    then have "covers_slice b i (hb_desc new) j (j + 1)"
      using position_of_id_Some [OF 2(1)] by (auto simp: covers_slice_def ihb_lo_def ihb_hi_def)
    moreover have "hb_strict new" using less 2(4) by (simp add: hb_strict_def)
    ultimately show ?thesis using perform_subset_replacement_ok 2(5) by blast
  qed
  then show "sb_replaces s b b'" and "length (sb_parts b') \<le> length (sb_parts b)" by auto
qed

lemma exact_replacement_ok:
  assumes "sb_ok b" and "exact_match (hb_desc hb) b" and "d_since (hb_desc hb) \<le> s" and "hb_len hb \<le> sb_len b"
    and "hb_strict hb"
  shows "sb_replaces s b (SpineBatch_merged \<lparr>ihb_id = sb_id b, ihb_batch = hb\<rparr>)"
  using assms sb_ok_less [of b] by (auto simp: sb_replaces_def exact_match_def intro!: sb_ok_merged)

end
