(* ===== verification/Compaction.thy ===== *)
theory Compaction
  imports Trace_Inv
begin

section \<open>Compaction results and the trace\<close>

text \<open>
  Applying a compaction result keeps the invariant of the trace, changes nothing when it is
  not applied, and keeps every additive weight of the trace that the result itself keeps.
  Replacing some runs of a batch yields exactly the other runs followed by the new ones.
\<close>

subsection \<open>One spine batch\<close>

lemma perform_subset_unapplied:
  assumes "perform_subset_replacement b res i rng nac = Some (r, b')" and "\<not> ApplyMergeResult_applied r"
  shows "b' = b"
  using assms by (auto simp: perform_subset_replacement_def Let_def split: if_splits prod.splits)

lemma maybe_replace_checked_unapplied:
  assumes "maybe_replace_checked e b res = Some (r, b')" and "\<not> ApplyMergeResult_applied r"
  shows "b' = b"
  using assms
  by (auto simp: maybe_replace_checked_def handle_id_range_unfold handle_partial_batch_replacement_def
      maybe_replace_checked_classic_def Let_def dest: perform_subset_unapplied
      split: if_splits bind_splits option.splits sum.splits CompactionInput.splits prod.splits)

lemma maybe_replace_checked_classic_ok:
  assumes ok: "sb_ok b" and fits: "d_lower (hb_desc (res_output res)) < d_upper (hb_desc (res_output res))"
    and since: "sb_since b \<le> s" and r: "maybe_replace_checked_classic e b res = Some (r, b')"
  shows "sb_replaces s b b'" and "length (sb_parts b') \<le> length (sb_parts b)"
proof -
  let ?out = "res_output res"
  consider "b' = b"
    | "d_since (hb_desc ?out) \<le> sb_since b" "exact_match (hb_desc ?out) b" "hb_len ?out \<le> sb_len b"
      "b' = SpineBatch_merged \<lparr>ihb_id = sb_id b, ihb_batch = ?out\<rparr>"
    | i j k where "find_replacement_range b (hb_desc ?out) = Some (i, (j, k))"
      "perform_subset_replacement b ?out i (j, k) (res_new_active_compaction res) = Some (r, b')"
    using r by (auto simp: maybe_replace_checked_classic_def split: if_splits bind_splits option.splits prod.splits)
  then have "sb_replaces s b b' \<and> length (sb_parts b') \<le> length (sb_parts b)"
  proof cases
    case 1
    then show ?thesis by (simp add: sb_replaces_refl)
  next
    case 2
    have "length (sb_parts b) \<ge> 1" using ok by (cases "sb_parts b") (auto simp: sb_ok_def)
    with 2 exact_replacement_ok [OF ok 2(2) order_trans [OF 2(1) since] 2(3)] fits show ?thesis
      by (simp add: hb_strict_def)
  next
    case (3 i j k)
    from perform_subset_replacement_ok [OF find_replacement_range_ok [OF 3(1) ok fits] _ 3(2)] fits
    show ?thesis by (auto simp: hb_strict_def)
  qed
  then show "sb_replaces s b b'" and "length (sb_parts b') \<le> length (sb_parts b)" by auto
qed

lemma maybe_replace_checked_ok:
  assumes ok: "sb_ok b" and fits: "res_fits res b" and since: "sb_since b \<le> s"
    and r: "maybe_replace_checked e b res = Some (r, b')"
  shows "sb_replaces s b b'"
proof -
  consider "b' = b"
    | nds i where "res_input res = IdRange i" "handle_id_range_replacement e b res i nds = Some (r, b')"
    | nds i runs where "res_input res = PartialBatch i runs"
      "handle_partial_batch_replacement e b res i runs nds = Some (r, b')"
    | "res_input res = Legacy" "maybe_replace_checked_classic e b res = Some (r, b')"
    using r by (auto simp: maybe_replace_checked_def split: if_splits bind_splits CompactionInput.splits)
  then show ?thesis
  proof cases
    case 1
    then show ?thesis by (simp add: sb_replaces_refl)
  next
    case (2 nds i)
    then show ?thesis using handle_id_range_replacement_ok(1) [OF ok fits] by blast
  next
    case (3 nds i runs)
    then show ?thesis using handle_partial_batch_replacement_ok(1) fits by (auto simp: res_fits_def)
  next
    case 4
    then show ?thesis using maybe_replace_checked_classic_ok(1) [OF ok _ since] fits by (simp add: res_fits_def)
  qed
qed

lemma maybe_replace_unchecked_ok:
  assumes ok: "sb_ok b" and fits: "d_lower (hb_desc (res_output res)) < d_upper (hb_desc (res_output res))"
    and since: "sb_since b \<le> s" and r: "maybe_replace_unchecked b res = Some (r, b')"
  shows "sb_replaces s b b'"
proof -
  let ?out = "res_output res"
  consider "b' = b"
    | "d_since (hb_desc ?out) \<le> sb_since b" "exact_match (hb_desc ?out) b" "hb_len ?out \<le> sb_len b"
      "b' = SpineBatch_merged \<lparr>ihb_id = sb_id b, ihb_batch = ?out\<rparr>"
    | i j k where "find_replacement_range b (hb_desc ?out) = Some (i, (j, k))"
      "perform_subset_replacement b ?out i (j, k) (res_new_active_compaction res) = Some (r, b')"
    using r by (auto simp: maybe_replace_unchecked_def split: if_splits option.splits)
  then show ?thesis
  proof cases
    case 1
    then show ?thesis by (simp add: sb_replaces_refl)
  next
    case 2
    with exact_replacement_ok [OF ok 2(2) order_trans [OF 2(1) since] 2(3)] fits show ?thesis
      by (simp add: hb_strict_def)
  next
    case (3 i j k)
    from perform_subset_replacement_ok [OF find_replacement_range_ok [OF 3(1) ok fits] _ 3(2)] fits
    show ?thesis by (auto simp: hb_strict_def)
  qed
qed

lemma maybe_replace_with_tombstone_ok:
  assumes ok: "sb_ok b" and less: "d_lower desc < d_upper desc" and since: "d_since desc \<le> s"
    and r: "maybe_replace_with_tombstone b desc = Some (r, b')"
  shows "sb_replaces s b b'"
proof -
  let ?e = "HollowBatch_empty desc"
  have e: "hb_desc ?e = desc" "hb_len ?e = 0" "hb_strict ?e" by (simp_all add: HollowBatch_empty_def hb_strict_def)
  consider "b' = b"
    | "exact_match desc b" "b' = SpineBatch_merged \<lparr>ihb_id = sb_id b, ihb_batch = ?e\<rparr>"
    | i j k where "find_replacement_range b desc = Some (i, (j, k))"
      "perform_subset_replacement b ?e i (j, k) None = Some (r, b')"
    using r by (auto simp: maybe_replace_with_tombstone_def Let_def split: if_splits option.splits)
  then show ?thesis
  proof cases
    case 1
    then show ?thesis by (simp add: sb_replaces_refl)
  next
    case 2
    then show ?thesis using exact_replacement_ok [OF ok, of ?e s] since e by simp
  next
    case (3 i j k)
    have "covers_slice b i (hb_desc ?e) j k"
      using find_replacement_range_ok [OF 3(1) ok less] e by simp
    from perform_subset_replacement_ok [OF this e(3) 3(2)] show ?thesis by blast
  qed
qed

subsection \<open>The whole trace\<close>

lemma spine_batches_ok:
  assumes "trace_inv t" and "b \<in> set (spine_batches (tr_spine t))"
  shows "sb_ok b" and "sb_since b \<le> Trace_since t"
proof -
  from assms(2) obtain m where m: "m \<in> set (sp_merging (tr_spine t))" "b \<in> set (ms_batches m)"
    by (auto simp: spine_batches_def level_batches_def)
  then obtain k where "k < length (sp_merging (tr_spine t))" "sp_merging (tr_spine t) ! k = m"
    by (meson in_set_conv_nth)
  with m have "b \<in> set (ms_batches (lvl (sp_merging (tr_spine t)) k))" by simp
  moreover have "level_str (Trace_since t) (lvl (sp_merging (tr_spine t)) k)"
    using assms(1) by (simp add: trace_inv_def spine_inv_def levels_ok_def Trace_since_def)
  ultimately show "sb_ok b" and "sb_since b \<le> Trace_since t" by (auto simp: level_str_def)
qed

lemma update_batches_same:
  assumes "\<And>b r b'. f b = Some (r, b') \<Longrightarrow> \<not> changed r \<Longrightarrow> b' = b" and "\<And>r. changed r \<Longrightarrow> stop r"
    and "update_batches f stop dflt bs = Some (r, bs')" and "\<not> changed r"
  shows "bs' = bs"
  using assms(3,4)
proof (induction bs arbitrary: r bs')
  case Nil
  then show ?case by simp
next
  case (Cons b bs)
  then show ?case
    using assms(1,2) by (auto split: if_splits bind_splits prod.splits)
qed

lemma update_levels_same:
  assumes f: "\<And>b r b'. f b = Some (r, b') \<Longrightarrow> \<not> changed r \<Longrightarrow> b' = b" and stop: "\<And>r. changed r \<Longrightarrow> stop r"
    and "update_levels f stop dflt ms = Some (r, ms')" and "\<not> changed r" and "\<not> changed dflt"
  shows "ms' = ms"
  using assms(3,4)
proof (induction ms arbitrary: r ms')
  case Nil
  then show ?case by simp
next
  case (Cons m ms)
  from Cons.prems(1) obtain r1 bs where u: "update_batches f stop dflt (rev (ms_batches m)) = Some (r1, bs)"
    by (auto split: bind_splits prod.splits)
  have bs: "m\<lparr>ms_batches := rev bs\<rparr> = m" if "\<not> changed r1"
    using update_batches_same [of f changed stop, OF f stop u that] by simp
  show ?case
  proof (cases "stop r1")
    case True
    with Cons.prems u bs show ?thesis by auto
  next
    case False
    with Cons.prems(1) u obtain ms1 where "update_levels f stop dflt ms = Some (r, ms1)"
      "ms' = m\<lparr>ms_batches := rev bs\<rparr> # ms1"
      by (auto split: bind_splits prod.splits)
    with Cons bs stop [of r1] False show ?thesis by auto
  qed
qed

lemma Trace_update_same:
  assumes "\<And>b r b'. f b = Some (r, b') \<Longrightarrow> \<not> changed r \<Longrightarrow> b' = b" and "\<And>r. changed r \<Longrightarrow> stop r"
    and "Trace_update f stop dflt t = Some (r, t')" and "\<not> changed r" and "\<not> changed dflt"
  shows "t' = t"
  using assms(3) update_levels_same [of f changed stop, OF assms(1,2) _ assms(4,5)]
  by (auto simp: Trace_update_def split: bind_splits prod.splits)

lemma applied_matched: "ApplyMergeResult_applied r \<Longrightarrow> ApplyMergeResult_matched r"
  by (cases r) auto

subsection \<open>Weights\<close>

text \<open>
  \<open>\<mu>\<close> assigns to a hollow batch any additive quantity: the updates it holds as a multiset,
  the sum of their diffs, a projection of either.
\<close>

definition parts_weight :: "('f HollowBatch \<Rightarrow> 'a :: comm_monoid_add) \<Rightarrow> 'f IdHollowBatch list \<Rightarrow> 'a" where
  "parts_weight \<mu> ps = sum_list (map (\<lambda>p. \<mu> (ihb_batch p)) ps)"

definition trace_weight :: "('f HollowBatch \<Rightarrow> 'a :: comm_monoid_add) \<Rightarrow> 'f Trace \<Rightarrow> 'a" where
  "trace_weight \<mu> t = sum_list (map \<mu> (Trace_batches t))"

lemma parts_weight_append [simp]: "parts_weight \<mu> (xs @ ys) = parts_weight \<mu> xs + parts_weight \<mu> ys"
  by (simp add: parts_weight_def)

lemma trace_weight_batches:
  "trace_weight \<mu> t = sum_list (map (\<lambda>b. parts_weight \<mu> (sb_parts b)) (spine_batches (tr_spine t)))"
proof -
  have "sum_list (map (\<lambda>p. \<mu> (ihb_batch p)) (concat (map sb_parts bs))) =
      sum_list (map (\<lambda>b. parts_weight \<mu> (sb_parts b)) bs)" for bs
    by (induction bs) (simp_all add: parts_weight_def)
  then show ?thesis by (simp add: trace_weight_def Trace_batches_def comp_def)
qed

lemma Trace_update_weight:
  assumes "Trace_update f stop dflt t = Some (r, t')"
    and "\<And>b r b'. b \<in> set (spine_batches (tr_spine t)) \<Longrightarrow> f b = Some (r, b') \<Longrightarrow>
      parts_weight \<mu> (sb_parts b') = parts_weight \<mu> (sb_parts b)"
  shows "trace_weight \<mu> t' = trace_weight \<mu> t"
proof -
  let ?R = "\<lambda>b b'. parts_weight \<mu> (sb_parts b') = parts_weight \<mu> (sb_parts b)"
  obtain ms' where ms': "update_levels f stop dflt (sp_merging (tr_spine t)) = Some (r, ms')"
    and t': "t' = t\<lparr>tr_spine := (tr_spine t)\<lparr>sp_merging := ms'\<rparr>\<rparr>"
    using assms(1) by (auto simp: Trace_update_def split: bind_splits)
  have "list_all2 (level_rel ?R) (sp_merging (tr_spine t)) ms'"
    using assms(2) by (intro update_levels_rel [OF ms']) (auto simp: spine_batches_def)
  then have "list_all2 ?R (level_batches (sp_merging (tr_spine t))) (level_batches ms')"
    by (rule levels_rel_batches)
  then have "sum_list (map (\<lambda>b. parts_weight \<mu> (sb_parts b)) (level_batches ms')) =
      sum_list (map (\<lambda>b. parts_weight \<mu> (sb_parts b)) (level_batches (sp_merging (tr_spine t))))"
    by (induction rule: list_all2_induct) auto
  then show ?thesis by (simp add: trace_weight_batches t' spine_batches_def)
qed

text \<open>\<open>spans i b\<close>: the id range is that of the parts of \<open>b\<close> it covers.\<close>

definition spans :: "SpineId \<Rightarrow> 'f SpineBatch \<Rightarrow> bool" where
  "spans i b \<longleftrightarrow>
     covered_parts i b \<noteq> [] \<and> sid_lo (ihb_id (hd (covered_parts i b))) = sid_lo i \<and>
     sid_hi (ihb_id (last (covered_parts i b))) = sid_hi i"

lemma handle_id_range_weight:
  assumes ok: "sb_ok b" and w: "spans i b \<Longrightarrow> \<mu> (res_output res) = parts_weight \<mu> (covered_parts i b)"
    and h: "handle_id_range_replacement e b res i nds = Some (r, b')"
  shows "parts_weight \<mu> (sb_parts b') = parts_weight \<mu> (sb_parts b)"
proof -
  let ?J = "covered_indices i (sb_parts b)" and ?ids = "btree_set_of_list (map ihb_id (covered_parts i b))"
  let ?new = "\<lparr>ihb_id = i, ihb_batch = res_output res\<rparr>"
  consider "b' = b" | "id_range ?ids = Some i"
      "sb_parts b' = take (Min ?J) (sb_parts b) @ [?new] @ drop (Max ?J + 1) (sb_parts b)"
    using h by (auto simp: handle_id_range_unfold perform_subset_replacement_def Let_def split: if_splits bind_splits)
  then show ?thesis
  proof cases
    case 1
    then show ?thesis by simp
  next
    case 2
    note slice = id_range_slice [OF ok 2(1)]
    note mid = slice_ends [OF slice(2,3), folded slice(1)]
    have "spans i b" using mid slice(4,5) by (simp add: spans_def)
    then have "\<mu> (res_output res) = parts_weight \<mu> (covered_parts i b)" by (rule w)
    moreover have "sb_parts b = take (Min ?J) (sb_parts b) @ covered_parts i b @ drop (Max ?J + 1) (sb_parts b)"
      unfolding slice(1) by (rule slice_split [OF less_imp_le [OF slice(2)] slice(3)])
    then have "parts_weight \<mu> (sb_parts b) = parts_weight \<mu> (take (Min ?J) (sb_parts b)) +
        (parts_weight \<mu> (covered_parts i b) + parts_weight \<mu> (drop (Max ?J + 1) (sb_parts b)))"
      by (metis parts_weight_append)
    ultimately show ?thesis unfolding 2(2) by (simp add: parts_weight_def)
  qed
qed

subsection \<open>Replacing runs\<close>

lemma runs_nonempty: "HollowBatch_runs b = Some rs \<Longrightarrow> \<forall>r \<in> set rs. snd r \<noteq> []"
  by (auto simp: HollowBatch_runs_def Let_def dest!: set_zip_rightD split: if_splits) (meson le_trans not_le)

lemma retain_runs_filter:
  "retain_runs ids rs = Some kept \<Longrightarrow>
     kept = filter (\<lambda>r. \<forall>i. rm_id (fst r) = Some i \<longrightarrow> i \<notin> set ids) rs \<and> (\<forall>r \<in> set rs. rm_id (fst r) \<noteq> None)"
  by (induction rs arbitrary: kept) (auto split: bind_splits if_splits)

fun run_ends :: "nat \<Rightarrow> (RunMeta \<times> 'f RunPart list) list \<Rightarrow> nat list" where
  "run_ends p [] = []"
| "run_ends p (r # rs) = (p + length (snd r)) # run_ends (p + length (snd r)) rs"

lemma run_splits_ends:
  assumes "\<forall>r \<in> set rs. snd r \<noteq> []" and "i + length rs = n" and "rs \<noteq> []"
  shows "run_splits_from n i p rs @ [p + length (concat (map snd rs))] = run_ends p rs"
  using assms
proof (induction n i p rs rule: run_splits_from.induct)
  case (1 n i p)
  then show ?case by simp
next
  case (2 n i p m ps rs)
  show ?case
  proof (cases "rs = []")
    case True
    with 2 show ?thesis by auto
  next
    case False
    with 2 show ?thesis by (auto simp: add.assoc)
  qed
qed

lemma run_ranges_ends:
  assumes "\<forall>r \<in> set rs. snd r \<noteq> []"
  shows "filter (\<lambda>(s, e). s < e) (run_ranges p (run_ends p rs)) = run_ranges p (run_ends p rs)"
    and "length (run_ranges p (run_ends p rs)) = length rs"
    and "\<forall>(s, e) \<in> set (run_ranges p (run_ends p rs)). e \<le> p + length (concat (map snd rs))"
  using assms
  by (induction rs arbitrary: p) (auto, fastforce+)

lemma run_slices:
  "map (\<lambda>(s, e). take (e - s) (drop s (pre @ concat (map snd rs)))) (run_ranges (length pre) (run_ends (length pre) rs)) =
     map snd rs"
proof (induction rs arbitrary: pre)
  case Nil
  then show ?case by simp
next
  case (Cons r rs)
  from Cons [of "pre @ snd r"] show ?case by simp
qed

lemma runs_of_parts:
  assumes ne: "\<forall>r \<in> set rs. snd r \<noteq> []"
  shows "HollowBatch_runs (HollowBatch_new d (concat (map snd rs)) n (map fst rs)
    (run_splits_from (length rs) 0 0 rs)) = Some rs"
proof (cases "rs = []")
  case True
  then show ?thesis by (simp add: HollowBatch_runs_def HollowBatch_new_def)
next
  case False
  have "run_splits_from (length rs) 0 0 rs @ [length (concat (map snd rs))] = run_ends 0 rs"
    using run_splits_ends [OF ne _ False, of 0 "length rs" 0] by simp
  moreover have "map (\<lambda>(s, e). take (e - s) (drop s (concat (map snd rs)))) (run_ranges 0 (run_ends 0 rs)) = map snd rs"
    using run_slices [of "[]" rs] by simp
  moreover note run_ranges_ends [OF ne, of 0]
  ultimately show ?thesis
    by (auto simp: HollowBatch_runs_def HollowBatch_new_def zip_map_fst_snd Let_def)
qed

lemma construct_batch_runs:
  assumes "construct_batch_with_runs_replaced original run_ids replacement = Some (Inr new)"
  obtains orig repl where "HollowBatch_runs original = Some orig" and "HollowBatch_runs replacement = Some repl"
    and "HollowBatch_runs new =
      Some (filter (\<lambda>r. \<forall>i. rm_id (fst r) = Some i \<longrightarrow> i \<notin> set run_ids) orig @ repl)"
    and "set run_ids \<subseteq> set (List.map_filter (rm_id \<circ> fst) orig)" and "\<forall>r \<in> set orig. rm_id (fst r) \<noteq> None"
proof -
  from assms obtain orig kept repl where o: "HollowBatch_runs original = Some orig"
    and sub: "set run_ids \<subseteq> set (List.map_filter (rm_id \<circ> fst) orig)"
    and k: "retain_runs (btree_set_of_list run_ids) orig = Some kept" and r: "HollowBatch_runs replacement = Some repl"
    and new: "new = HollowBatch_new (hb_desc replacement) (concat (map snd (kept @ repl)))
      (sum_list (List.map_filter (rm_len \<circ> fst) (kept @ repl))) (map fst (kept @ repl))
      (run_splits_from (length (map fst (kept @ repl))) 0 0 (kept @ repl))"
    by (auto simp: construct_batch_with_runs_replaced_def Let_def split: if_splits bind_splits)
  note kept = retain_runs_filter [OF k]
  have "\<forall>x \<in> set (kept @ repl). snd x \<noteq> []"
    using kept runs_nonempty [OF o] runs_nonempty [OF r] by auto
  from runs_of_parts [OF this] have "HollowBatch_runs new = Some (kept @ repl)"
    by (simp only: new length_map)
  with o r kept sub show ?thesis by (intro that [of orig repl]) simp_all
qed

subsection \<open>Sums of diffs over runs\<close>

text \<open>The value of a run whose statistics are known.\<close>

definition run_value :: "'d :: monoid_add ext \<Rightarrow> RunMeta \<times> 'f RunPart list \<Rightarrow> 'd" where
  "run_value e r = (case diffs_sum e (snd r) of Some (Some x) \<Rightarrow> x | _ \<Rightarrow> 0)"

definition run_known :: "'d :: monoid_add ext \<Rightarrow> RunMeta \<times> 'f RunPart list \<Rightarrow> bool" where
  "run_known e r \<longleftrightarrow> (\<exists>x. diffs_sum e (snd r) = Some (Some x))"

lemma diffs_sum_from_append:
  "diffs_sum_from e a (xs @ ys) =
     (case diffs_sum_from e a xs of Some (Some b) \<Rightarrow> diffs_sum_from e b ys | r \<Rightarrow> r)"
  by (induction e a xs rule: diffs_sum_from.induct) (auto split: bind_splits option.splits)

lemma diffs_sum_from_shift:
  "diffs_sum_from e a ps = (case diffs_sum e ps of Some (Some x) \<Rightarrow> Some (Some (a + x)) | r \<Rightarrow> r)"
proof -
  have "diffs_sum_from e (a + b) ps =
      (case diffs_sum_from e b ps of Some (Some x) \<Rightarrow> Some (Some (a + x)) | r \<Rightarrow> r)" for b
  proof (induction ps arbitrary: b)
    case Nil
    then show ?case by simp
  next
    case (Cons p ps)
    show ?case
    proof (cases "RunPart_diffs_sum e p")
      case None
      then show ?thesis by simp
    next
      case (Some d)
      with Cons show ?thesis by (cases d) (simp_all add: add.assoc)
    qed
  qed
  from this [of 0] show ?thesis by (simp add: diffs_sum_def)
qed

lemma runs_diffs_sum_from_eq:
  "runs_diffs_sum_from e a rs = Some (Some v) \<longleftrightarrow>
     (\<forall>r \<in> set rs. \<not> bounds_truncated e (fst r) \<and> run_known e r) \<and> v = a + sum_list (map (run_value e) rs)"
  by (induction e a rs rule: runs_diffs_sum_from.induct)
    (auto simp: run_known_def run_value_def add.assoc split: bind_splits option.splits if_splits)

lemma diffs_sum_concat:
  assumes "diffs_sum e (concat (map snd rs)) = Some (Some x)"
  shows "(\<forall>r \<in> set rs. run_known e r) \<and> x = sum_list (map (run_value e) rs)"
proof -
  have "diffs_sum_from e a (concat (map snd rs)) = Some (Some v) \<Longrightarrow>
      (\<forall>r \<in> set rs. run_known e r) \<and> v = a + sum_list (map (run_value e) rs)" for a v
    by (induction rs arbitrary: a v)
      (auto simp: diffs_sum_from_append diffs_sum_from_shift [of e] run_known_def run_value_def add.assoc
        split: option.splits)
  from this [of 0 x] assms show ?thesis by (simp add: diffs_sum_def)
qed

lemma diffs_sum_for_runs_from_eq:
  fixes e :: "'d :: comm_monoid_add ext"
  assumes "diffs_sum_for_runs_from e ids a rs = Some (Some v)" and "distinct (map (rm_id \<circ> fst) rs)"
  shows "v = a + sum_list (map (run_value e) (filter (\<lambda>r. \<exists>i \<in> set ids. rm_id (fst r) = Some i) rs))"
  using assms
proof (induction e ids a rs rule: diffs_sum_for_runs_from.induct)
  case (1 e ids a)
  then show ?case by (simp split: if_splits)
next
  case (2 e ids a m run rs)
  from "2.prems" obtain i where i: "rm_id m = Some i" by (auto split: option.splits)
  have other: "rm_id (fst r) \<noteq> Some i" if "r \<in> set rs" for r
    using "2.prems"(2) i that by force
  have same: "filter (\<lambda>r. \<exists>j \<in> set (filter (\<lambda>j. j \<noteq> i) ids). rm_id (fst r) = Some j) rs =
      filter (\<lambda>r. \<exists>j \<in> set ids. rm_id (fst r) = Some j) rs"
    using other by (intro filter_cong) auto
  show ?case
  proof (cases "i \<in> set ids")
    case True
    with "2.prems"(1) i obtain x where "diffs_sum e run = Some (Some x)"
      "diffs_sum_for_runs_from e (filter (\<lambda>j. j \<noteq> i) ids) (a + x) rs = Some (Some v)" "\<not> bounds_truncated e m"
      by (auto split: bind_splits option.splits if_splits)
    with "2.IH"(1) [OF i True] "2.prems"(2) i True same show ?thesis
      by (auto simp: run_value_def add.assoc)
  next
    case False
    with "2.prems" "2.IH"(2) [OF i False] i show ?thesis by auto
  qed
qed

lemma sum_list_filter_split:
  fixes h :: "'a \<Rightarrow> 'b :: comm_monoid_add"
  shows "sum_list (map h xs) = sum_list (map h (filter (\<lambda>x. \<not> P x) xs)) + sum_list (map h (filter P xs))"
  by (induction xs) (auto simp: ac_simps)

subsection \<open>Steps of a trace\<close>

lemma level_str_mono: "level_str s m \<Longrightarrow> s \<le> s' \<Longrightarrow> level_str s' m"
  by (auto simp: level_str_def intro: order_trans)

lemma Trace_downgrade_since_inv [persist_inv]:
  "trace_inv t \<Longrightarrow> Trace_since t \<le> s \<Longrightarrow> trace_inv (Trace_downgrade_since s t)"
  by (auto simp: trace_inv_def spine_inv_def levels_ok_def Trace_downgrade_since_def Trace_since_def
      spine_batches_def spine_len_def intro: level_str_mono)

lemma Trace_push_batch_ok:
  assumes "trace_inv t" and "hb_fits (tr_spine t) hb"
  obtains reqs t' where "Trace_push_batch hb t = Some (reqs, t')" and "trace_inv t'"
    and "Trace_since t' = Trace_since t" and "Trace_upper t' = d_upper (hb_desc hb)"
    and "filter (\<lambda>b. hb_len b \<noteq> 0) (Trace_batches t') = filter (\<lambda>b. hb_len b \<noteq> 0) (Trace_batches t @ [hb])"
proof -
  have data: "map ihb_batch (spine_data sp) = filter (\<lambda>b. hb_len b \<noteq> 0) (map ihb_batch (concat (map sb_parts (spine_batches sp))))"
    for sp :: "'a Spine"
    by (simp add: spine_data_def batches_data_def batch_data_def [abs_def] filter_map filter_concat comp_def)
  obtain sp' log' where "Spine_insert (tr_spine t) hb (Enabled []) = Some (sp', log')" "spine_inv sp'"
    "spine_data sp' = spine_data (tr_spine t) @ hb_entry (tr_spine t) hb"
    "sp_since sp' = sp_since (tr_spine t)" "sp_upper sp' = d_upper (hb_desc hb)"
    using assms by (auto simp: trace_inv_def intro: Spine_insert_ok)
  then show ?thesis
    using data [of sp'] data [of "tr_spine t"]
    by (intro that [of "remove_redundant_merge_reqs (SpineLog_reqs log')" "t\<lparr>tr_spine := sp'\<rparr>"])
      (auto simp: Trace_push_batch_def trace_inv_def Trace_since_def Trace_upper_def Trace_batches_def hb_entry_def)
qed

lemma Trace_exert_ok:
  assumes "trace_inv t" and "fuel \<le> 2 ^ 60"
  obtains reqs did t' where "Trace_exert fuel t = Some ((reqs, did), t')" and "trace_inv t'"
    and "Trace_since t' = Trace_since t" and "Trace_upper t' = Trace_upper t"
proof -
  have inv: "spine_inv (tr_spine t)" using assms(1) by (simp add: trace_inv_def)
  obtain did sp' log' where "Spine_exert (tr_spine t) fuel (Enabled []) = Some ((did, sp'), log')" "spine_inv sp'"
    "sp_since sp' = sp_since (tr_spine t)" "sp_upper sp' = sp_upper (tr_spine t)"
    by (rule Spine_exert_ok [OF inv assms(2)])
  then show ?thesis
    by (intro that [of "remove_redundant_merge_reqs (SpineLog_reqs log')" did "t\<lparr>tr_spine := sp'\<rparr>"])
      (auto simp: Trace_exert_def trace_inv_def Trace_since_def Trace_upper_def)
qed

lemma claim_body_replaces: "claim_body i c b = Some (r, b') \<Longrightarrow> sb_replaces s b b'"
  by (auto simp: claim_body_def sb_replaces_def sb_ok_def sb_lo_def sb_hi_def split: if_splits)

lemma claim_compaction_inv [persist_inv]:
  assumes "trace_inv t" and "claim_compaction i c t = Some t'"
  shows "trace_inv t'" and "Trace_since t' = Trace_since t" and "Trace_upper t' = Trace_upper t"
proof -
  from assms(2) obtain r where "Trace_update (claim_body i c) (\<lambda>r. r) False t = Some (r, t')"
    by (auto simp: claim_compaction_def)
  from Trace_update_inv [OF assms(1) this claim_body_replaces]
  show "trace_inv t'" and "Trace_since t' = Trace_since t" and "Trace_upper t' = Trace_upper t" by auto
qed

end
