(* ===== verification/Trace_Props.thy ===== *)
theory Trace_Props
  imports Compaction
begin

section \<open>Properties of the trace\<close>

text \<open>
  The step relation of a trace as the state machine of a shard drives it, its reachability
  theorem, and what compaction may and may not change.
\<close>

subsection \<open>Steps and reachable traces\<close>

inductive trace_step :: "'d :: monoid_add ext \<Rightarrow> 'f :: bounded_lattice Trace \<Rightarrow> 'f Trace \<Rightarrow> bool"
  for e where
  push: "\<lbrakk>hb_fits (tr_spine t) hb; Trace_push_batch hb t = Some (reqs, t')\<rbrakk> \<Longrightarrow> trace_step e t t'"
| push_no_reqs: "\<lbrakk>hb_fits (tr_spine t) hb; push_batch_no_merge_reqs hb t = Some t'\<rbrakk> \<Longrightarrow> trace_step e t t'"
| exert: "\<lbrakk>fuel \<le> 2 ^ 60; Trace_exert fuel t = Some (out, t')\<rbrakk> \<Longrightarrow> trace_step e t t'"
| downgrade: "Trace_since t \<le> s \<Longrightarrow> trace_step e t (Trace_downgrade_since s t)"
| claim: "claim_compaction i c t = Some t' \<Longrightarrow> trace_step e t t'"
| merge_checked: "\<lbrakk>\<forall>b \<in> set (spine_batches (tr_spine t)). res_fits res b;
    apply_merge_res_checked e res t = Some (r, t')\<rbrakk> \<Longrightarrow> trace_step e t t'"
| merge_unchecked: "\<lbrakk>d_lower (hb_desc (res_output res)) < d_upper (hb_desc (res_output res));
    apply_merge_res_unchecked res t = Some (r, t')\<rbrakk> \<Longrightarrow> trace_step e t t'"
| tombstone: "\<lbrakk>d_lower desc < d_upper desc; d_since desc \<le> Trace_since t;
    apply_tombstone_merge desc t = Some (r, t')\<rbrakk> \<Longrightarrow> trace_step e t t'"

inductive trace_reachable :: "'d :: monoid_add ext \<Rightarrow> 'f :: bounded_lattice Trace \<Rightarrow> bool" for e where
  init: "trace_reachable e Trace_default"
| step: "\<lbrakk>trace_reachable e t; trace_step e t t'\<rbrakk> \<Longrightarrow> trace_reachable e t'"

lemma trace_inv_default [persist_inv]: "trace_inv Trace_default"
  by (simp add: trace_inv_def Trace_default_def spine_inv_new)

lemma push_batch_no_merge_reqs_ok [persist_inv]:
  assumes "trace_inv t" and "hb_fits (tr_spine t) hb" and "push_batch_no_merge_reqs hb t = Some t'"
  shows "trace_inv t'"
proof -
  obtain sp' log' where "Spine_insert (tr_spine t) hb Disabled = Some (sp', log')" "spine_inv sp'"
    using assms by (auto simp: trace_inv_def intro: Spine_insert_ok)
  with assms(3) show ?thesis by (auto simp: push_batch_no_merge_reqs_def trace_inv_def)
qed

lemma apply_merge_res_checked_inv [persist_inv]:
  assumes "trace_inv t" and "\<forall>b \<in> set (spine_batches (tr_spine t)). res_fits res b"
    and "apply_merge_res_checked e res t = Some (r, t')"
  shows "trace_inv t'" and "Trace_since t' = Trace_since t" and "Trace_upper t' = Trace_upper t"
  using Trace_update_inv [OF assms(1) assms(3) [unfolded apply_merge_res_checked_def]]
    maybe_replace_checked_ok spine_batches_ok [OF assms(1)] assms(2)
  by blast+

lemma apply_merge_res_unchecked_inv [persist_inv]:
  assumes "trace_inv t" and "d_lower (hb_desc (res_output res)) < d_upper (hb_desc (res_output res))"
    and "apply_merge_res_unchecked res t = Some (r, t')"
  shows "trace_inv t'" and "Trace_since t' = Trace_since t" and "Trace_upper t' = Trace_upper t"
  using Trace_update_inv [OF assms(1) assms(3) [unfolded apply_merge_res_unchecked_def]]
    maybe_replace_unchecked_ok spine_batches_ok [OF assms(1)] assms(2)
  by blast+

lemma apply_tombstone_merge_inv [persist_inv]:
  assumes "trace_inv t" and "d_lower desc < d_upper desc" and "d_since desc \<le> Trace_since t"
    and "apply_tombstone_merge desc t = Some (r, t')"
  shows "trace_inv t'" and "Trace_since t' = Trace_since t" and "Trace_upper t' = Trace_upper t"
  using Trace_update_inv [OF assms(1) assms(4) [unfolded apply_tombstone_merge_def]]
    maybe_replace_with_tombstone_ok [OF _ assms(2,3)] spine_batches_ok [OF assms(1)]
  by blast+

lemma trace_step_inv [persist_inv]: "trace_step e t t' \<Longrightarrow> trace_inv t \<Longrightarrow> trace_inv t'"
proof (induction rule: trace_step.induct)
  case (push t hb reqs t')
  then show ?case by (auto elim: Trace_push_batch_ok)
next
  case (exert fuel t out t')
  from exert(3,1) show ?case by (rule Trace_exert_ok) (use exert(2) in simp)
qed (auto intro: persist_inv)

lemma trace_reachable_inv: "trace_reachable e t \<Longrightarrow> trace_inv t"
  by (induction rule: trace_reachable.induct) (auto intro: persist_inv)

text \<open>
  C5: Every trace reachable by appending batches, maintenance, downgrading the since,
  claiming compactions and applying compaction results passes \<open>validate\<close>, and appending a
  batch that starts at its upper succeeds: it returns, moves the upper to the batch's upper,
  leaves the since alone and adds exactly that batch to the non-empty batches of the trace.
\<close>

theorem trace_reachable_ok:
  assumes "trace_reachable e t" and "hb_fits (tr_spine t) hb"
  shows "Trace_validate t = Inr () \<and>
    (\<exists>reqs t'. Trace_push_batch hb t = Some (reqs, t') \<and>
       Trace_upper t' = d_upper (hb_desc hb) \<and> Trace_since t' = Trace_since t \<and>
       filter (\<lambda>b. hb_len b \<noteq> 0) (Trace_batches t') = filter (\<lambda>b. hb_len b \<noteq> 0) (Trace_batches t @ [hb]))"
proof -
  note inv = trace_reachable_inv [OF assms(1)]
  have "Trace_validate t = Inr ()"
    using inv by (simp add: Trace_validate_def trace_inv_def spine_inv_validate)
  moreover obtain reqs t' where "Trace_push_batch hb t = Some (reqs, t')"
    "Trace_since t' = Trace_since t" "Trace_upper t' = d_upper (hb_desc hb)"
    "filter (\<lambda>b. hb_len b \<noteq> 0) (Trace_batches t') = filter (\<lambda>b. hb_len b \<noteq> 0) (Trace_batches t @ [hb])"
    using inv assms(2) by (rule Trace_push_batch_ok)
  ultimately show ?thesis by blast
qed

text \<open>
  A sample trace: two batches of two updates, merged into one spine batch by maintenance. In
  the sample environment diffs are integers, statistics count nothing and every inline part
  decodes.
\<close>

definition sample_ext :: "int ext" where
  "sample_ext =
     \<lparr>ext_uuid = letters_uuid, ext_decode_diff = (\<lambda>_. 0), ext_inline_diffs = (\<lambda>_. Some 0),
      ext_encode_bool = (\<lambda>b. [if b then 1 else 0]), ext_decode_bool = (\<lambda>b. Some (b = [1])),
      ext_hashed = (\<lambda>_. 0)\<rparr>"

definition sample_t1 :: "ts_frontier Trace" where
  "sample_t1 = snd (the (Trace_push_batch (sample_batch (At 0) (At 3) 2) Trace_default))"

definition sample_t2 :: "ts_frontier Trace" where
  "sample_t2 = snd (the (Trace_push_batch (sample_batch (At 3) (At 5) 2) sample_t1))"

definition sample_trace :: "ts_frontier Trace" where
  "sample_trace = snd (the (Trace_exert 8 sample_t2))"

lemma the_snd: "x \<noteq> None \<Longrightarrow> x = Some (fst (the x), snd (the x))"
  by auto

lemma sample_reachable: "trace_reachable sample_ext sample_trace"
proof -
  have p1: "Trace_push_batch (sample_batch (At 0) (At 3) 2) Trace_default \<noteq> None" by code_simp
  have f1: "hb_fits (tr_spine Trace_default) (sample_batch (At 0) (At 3) 2)" by code_simp
  have r1: "trace_reachable sample_ext sample_t1"
    by (rule trace_reachable.step [OF trace_reachable.init trace_step.push [OF f1 the_snd [OF p1, folded sample_t1_def]]])
  have p2: "Trace_push_batch (sample_batch (At 3) (At 5) 2) sample_t1 \<noteq> None" by code_simp
  have f2: "hb_fits (tr_spine sample_t1) (sample_batch (At 3) (At 5) 2)" by code_simp
  have r2: "trace_reachable sample_ext sample_t2"
    by (rule trace_reachable.step [OF r1 trace_step.push [OF f2 the_snd [OF p2, folded sample_t2_def]]])
  have p3: "Trace_exert 8 sample_t2 \<noteq> None" by code_simp
  have "8 \<le> (2 ^ 60 :: nat)" by simp
  then show ?thesis
    by (rule trace_reachable.step [OF r2 trace_step.exert [OF _ the_snd [OF p3, folded sample_trace_def]]])
qed

theorem trace_reachable_ok_witness:
  "Trace_validate sample_trace = Inr () \<and>
    (\<exists>reqs t'. Trace_push_batch (sample_batch (At 5) (At 9) 1) sample_trace = Some (reqs, t') \<and>
       Trace_upper t' = At 9)"
proof -
  have "hb_fits (tr_spine sample_trace) (sample_batch (At 5) (At 9) 1)" by code_simp
  moreover have "d_upper (hb_desc (sample_batch (At 5) (At 9) 1)) = At 9"
    by (simp add: sample_batch_def HollowBatch_new_run_def)
  ultimately show ?thesis
    using trace_reachable_ok [OF sample_reachable, of "sample_batch (At 5) (At 9) 1"] by auto
qed

subsection \<open>Compaction results\<close>

text \<open>
  C7: Applying the result of compacting an id range keeps the total of every additive
  quantity of the trace's batches (the multiset of updates, any sum over them), provided the
  output has the total of the parts it replaces; a result that is not applied leaves the
  trace as it was.
\<close>

theorem compaction_keeps_weight:
  fixes \<mu> :: "'f :: bounded_lattice HollowBatch \<Rightarrow> 'a :: comm_monoid_add"
  assumes "trace_reachable e t" and input: "res_input res = IdRange i"
    and w: "\<forall>b \<in> set (spine_batches (tr_spine t)). spans i b \<longrightarrow> \<mu> (res_output res) = parts_weight \<mu> (covered_parts i b)"
    and app: "apply_merge_res_checked e res t = Some (r, t')"
  shows "trace_weight \<mu> t' = trace_weight \<mu> t \<and> (ApplyMergeResult_applied r \<or> t' = t)"
proof
  note inv = trace_reachable_inv [OF assms(1)]
  show "trace_weight \<mu> t' = trace_weight \<mu> t"
  proof (rule Trace_update_weight [OF app [unfolded apply_merge_res_checked_def]])
    fix b r b'
    assume b: "b \<in> set (spine_batches (tr_spine t))" and "maybe_replace_checked e b res = Some (r, b')"
    then consider "b' = b" | nds where "handle_id_range_replacement e b res i nds = Some (r, b')"
      using input by (auto simp: maybe_replace_checked_def split: if_splits bind_splits)
    then show "parts_weight \<mu> (sb_parts b') = parts_weight \<mu> (sb_parts b)"
      using w b spine_batches_ok(1) [OF inv b] handle_id_range_weight by cases blast+
  qed
  show "ApplyMergeResult_applied r \<or> t' = t"
    using Trace_update_same [of "\<lambda>b. maybe_replace_checked e b res" ApplyMergeResult_applied,
        OF _ applied_matched app [unfolded apply_merge_res_checked_def]] maybe_replace_checked_unapplied
    by force
qed

definition sample_res :: "ts_frontier FueledMergeRes" where
  "sample_res = \<lparr>res_output = sample_batch (At 0) (At 5) 4, res_input = IdRange (SpineId 0 2),
     res_new_active_compaction = None\<rparr>"

theorem compaction_keeps_weight_witness:
  "\<exists>r t'. apply_merge_res_checked sample_ext sample_res sample_trace = Some (r, t') \<and>
     r = AppliedExact \<and> trace_weight hb_len t' = trace_weight hb_len sample_trace"
proof -
  have "map_option fst (apply_merge_res_checked sample_ext sample_res sample_trace) = Some AppliedExact"
    by code_simp
  then obtain t' where t': "apply_merge_res_checked sample_ext sample_res sample_trace = Some (AppliedExact, t')"
    by auto
  have "list_all (\<lambda>b. spans (SpineId 0 2) b \<longrightarrow>
      hb_len (res_output sample_res) = parts_weight hb_len (covered_parts (SpineId 0 2) b)) (spine_batches (tr_spine sample_trace))"
    by code_simp
  then have "\<forall>b \<in> set (spine_batches (tr_spine sample_trace)). spans (SpineId 0 2) b \<longrightarrow>
      hb_len (res_output sample_res) = parts_weight hb_len (covered_parts (SpineId 0 2) b)"
    by (simp add: list_all_iff)
  from compaction_keeps_weight [OF sample_reachable _ this t'] t' show ?thesis
    by (auto simp: sample_res_def)
qed

text \<open>
  C24: The merge requests handed to the compactor are a minimal cover: every request of the
  spine is covered by a kept one with the same since, kept requests are among the original
  ones, and no kept request covers another.
\<close>

theorem remove_redundant_merge_reqs_spec:
  "set (remove_redundant_merge_reqs reqs) \<subseteq> set reqs \<and>
   (\<forall>q \<in> set reqs. \<exists>r \<in> set (remove_redundant_merge_reqs reqs). req_covers r q) \<and>
   sorted_wrt (\<lambda>a b. \<not> req_covers a b \<and> \<not> req_covers b a) (remove_redundant_merge_reqs reqs)"
  using stage_merge_reqs_spec [of "[]" "rev reqs"]
  by (simp add: remove_redundant_merge_reqs_def incomparable_def)

definition sample_req :: "nat \<Rightarrow> nat \<Rightarrow> ts_frontier FueledMergeReq" where
  "sample_req a b = \<lparr>req_id = SpineId a b, req_desc = Description_new (At 0) (At 5) (At 0), req_inputs = []\<rparr>"

theorem remove_redundant_merge_reqs_spec_witness:
  "remove_redundant_merge_reqs [sample_req 0 2, sample_req 0 3] = [sample_req 0 3] \<and>
   (\<exists>r \<in> set (remove_redundant_merge_reqs [sample_req 0 2, sample_req 0 3]). req_covers r (sample_req 0 2))"
proof -
  have "remove_redundant_merge_reqs [sample_req 0 2, sample_req 0 3] = [sample_req 0 3]" by code_simp
  with remove_redundant_merge_reqs_spec [of "[sample_req 0 2, sample_req 0 3]"] show ?thesis by simp
qed

text \<open>
  C23: Replacing runs of a batch yields exactly the runs that were not named, in their order,
  followed by the runs of the replacement; in particular the recomputed split points describe
  those runs.
\<close>

theorem replaced_runs:
  assumes "construct_batch_with_runs_replaced original run_ids replacement = Some (Inr new)"
  shows "\<exists>orig repl. HollowBatch_runs original = Some orig \<and> HollowBatch_runs replacement = Some repl \<and>
    HollowBatch_runs new = Some (filter (\<lambda>r. \<forall>i. rm_id (fst r) = Some i \<longrightarrow> i \<notin> set run_ids) orig @ repl) \<and>
    hb_desc new = hb_desc replacement"
  by (rule construct_batch_runs [OF assms]) (use construct_batch_desc [OF assms] in blast)

definition sample_runs :: "ts_frontier HollowBatch" where
  "sample_runs = HollowBatch_new (Description_new (At 0) (At 3) (At 0))
     [sample_part 1, sample_part 2, sample_part 3] 3
     [RunMeta_default\<lparr>rm_id := Some [1]\<rparr>, RunMeta_default\<lparr>rm_id := Some [2]\<rparr>] [1]"

theorem replaced_runs_witness:
  "\<exists>new. construct_batch_with_runs_replaced sample_runs [[1]] (sample_batch (At 0) (At 3) 1) = Some (Inr new) \<and>
     map_option (map snd) (HollowBatch_runs new) =
       Some [[sample_part 2, sample_part 3], [Single (Inline [] None None None)]]"
proof -
  have "map_option isl (construct_batch_with_runs_replaced sample_runs [[1]] (sample_batch (At 0) (At 3) 1)) = Some False"
    by code_simp
  then obtain new where new: "construct_batch_with_runs_replaced sample_runs [[1]] (sample_batch (At 0) (At 3) 1) = Some (Inr new)"
    by (auto simp: isl_def) (metis sum.exhaust)
  have "map_option (map (\<lambda>r. (rm_id (fst r), snd r))) (HollowBatch_runs sample_runs) =
      Some [(Some [1], [sample_part 1]), (Some [2], [sample_part 2, sample_part 3])]"
    and "map_option (map snd) (HollowBatch_runs (sample_batch (At 0) (At 3) 1)) = Some [[Single (Inline [] None None None)]]"
    by code_simp+
  with replaced_runs [OF new] new show ?thesis by (auto simp: map_eq_Cons_conv)
qed

end
