(* ===== verification/Flat_Props.thy ===== *)
theory Flat_Props
  imports Flat Trace_Props "HOL-Library.Multiset"
begin

section \<open>Flattening round trips\<close>

subsection \<open>Maps and sorted lists built by insertion\<close>

lemma set_btree_insert: "btree_get m k = None \<Longrightarrow> set (btree_insert k v m) = insert (k, v) (set m)"
  by (induction k v m rule: btree_insert.induct) (auto split: if_splits)

lemma btree_ext_set:
  assumes "btree_wf m" and "btree_wf m'" and "set m = set m'"
  shows "m = m'"
  using btree_ext [OF assms(1,2)] map_of_inject_set [OF btree_wf_distinct [OF assms(1)] btree_wf_distinct [OF assms(2)]] assms(3)
  by blast

lemma set_btree_inserts:
  assumes "distinct (map fst es)" and "\<forall>e \<in> set es. btree_get m (fst e) = None"
  shows "set (foldl (\<lambda>m e. btree_insert (fst e) (snd e) m) m es) = set m \<union> set es"
  using assms
proof (induction es arbitrary: m)
  case (Cons e es)
  let ?m = "btree_insert (fst e) (snd e) m"
  have "btree_get ?m (fst x) = None" if "x \<in> set es" for x
    using Cons.prems that by (cases "fst x = fst e") (simp_all, metis image_eqI)
  then have "set (foldl (\<lambda>m e. btree_insert (fst e) (snd e) m) ?m es) = set ?m \<union> set es"
    using Cons.prems(1) by (intro Cons.IH) auto
  moreover have "set ?m = insert e (set m)" using Cons.prems(2) set_btree_insert [of m "fst e"] by simp
  ultimately show ?case by simp
qed simp

lemma distinct_keys_mset: "btree_wf m \<Longrightarrow> mset es = mset m \<Longrightarrow> distinct (map fst es)"
  by (metis btree_wf_distinct mset_eq_imp_distinct_iff mset_map)

lemma btree_of_list_mset:
  assumes "btree_wf m" and "mset es = mset m"
  shows "btree_of_list es = m"
  using assms(1) set_btree_inserts [OF distinct_keys_mset [OF assms], of "[]"] btree_wf_of_list [of es] mset_eq_setD [OF assms(2)]
  by (intro btree_ext_set) (auto simp: btree_of_list_def)

lemma strictly_sorted_unique:
  assumes "sorted_wrt R xs" and "sorted_wrt R ys" and "set xs = set ys" and "asymp R"
  shows "xs = ys"
  using assms
proof (induction xs arbitrary: ys)
  case (Cons x xs)
  then obtain y ys' where ys: "ys = y # ys'" by (cases ys) auto
  have irrefl: "\<not> R z z" for z using Cons.prems(4) by (metis asympD)
  have "x = y"
  proof (rule ccontr)
    assume "x \<noteq> y"
    with Cons.prems(3) ys have "x \<in> set ys'" "y \<in> set xs" by auto
    with Cons.prems(1,2) ys have "R y x" "R x y" by auto
    with Cons.prems(4) show False by (metis asympD)
  qed
  have "set xs = set ys'"
  proof -
    have "x \<notin> set xs" "y \<notin> set ys'" using Cons.prems(1,2) ys irrefl by auto
    with Cons.prems(3) ys \<open>x = y\<close> show ?thesis by auto
  qed
  then have "xs = ys'"
    using Cons.IH [of ys'] Cons.prems(1,2,4) ys by simp
  with \<open>x = y\<close> ys show ?case by simp
qed simp

lemma mset_cset_insert: "\<forall>x \<in> set xs. c k x \<noteq> Equal \<Longrightarrow> mset (cset_insert c k xs) = add_mset k (mset xs)"
  by (induction xs) (auto split: Ordering.splits)

lemma mset_cset_inserts:
  assumes "sorted_wrt (\<lambda>a b. c b a \<noteq> Equal) ks" and "\<forall>k \<in> set ks. \<forall>x \<in> set xs. c k x \<noteq> Equal"
  shows "mset (foldl (\<lambda>s k. cset_insert c k s) xs ks) = mset xs + mset ks"
  using assms
proof (induction ks arbitrary: xs)
  case (Cons k ks)
  have "mset (cset_insert c k xs) = add_mset k (mset xs)" using Cons.prems(2) by (simp add: mset_cset_insert)
  moreover from this have "set (cset_insert c k xs) = insert k (set xs)" by (metis set_mset_mset set_mset_add_mset_insert)
  ultimately show ?case using Cons.IH [of "cset_insert c k xs"] Cons.prems by simp
qed simp

lemma mset_insert_by [simp]: "mset (insert_by c x xs) = add_mset x (mset xs)"
  by (induction xs) auto

lemma mset_sort_by [simp]: "mset (sort_by c xs) = mset xs"
proof -
  have "mset (foldr (insert_by c) xs ys) = mset xs + mset ys" for ys by (induction xs) auto
  then show ?thesis by (simp add: sort_by_def)
qed

lemma set_sort_by [simp]: "set (sort_by c xs) = set xs"
  by (rule mset_eq_setD [OF mset_sort_by])

lemma set_insert_by [simp]: "set (insert_by c x xs) = insert x (set xs)"
  by (induction xs) auto

text \<open>Sorting by a key whose values are pairwise comparable and different sorts strictly.\<close>

definition comparable :: "('a \<Rightarrow> 'f :: order) \<Rightarrow> 'a \<Rightarrow> 'a \<Rightarrow> bool" where
  "comparable f a b \<longleftrightarrow> f a < f b \<or> f b < f a"

lemma sorted_insert_by:
  assumes "sorted_wrt (\<lambda>a b. f b < f a) xs" and "\<forall>y \<in> set xs. comparable f x y"
  shows "sorted_wrt (\<lambda>a b. f b < f a) (insert_by (\<lambda>a b. cmp_reverse (compare_chains (f a) (f b))) x xs)"
  using assms
proof (induction xs)
  case (Cons y ys)
  let ?c = "\<lambda>a b. cmp_reverse (compare_chains (f a) (f b))"
  from Cons.prems(2) have "f x < f y \<or> f y < f x" by (simp add: comparable_def)
  then show ?case
  proof
    assume "f x < f y"
    then show ?thesis using Cons by (auto simp: compare_chains_def)
  next
    assume "f y < f x"
    moreover from this have "\<not> f x < f y" by auto
    ultimately show ?thesis using Cons.prems(1) by (auto simp: compare_chains_def)
  qed
qed simp

lemma sorted_sort_by:
  assumes "sorted_wrt (comparable f) xs"
  shows "sorted_wrt (\<lambda>a b. f b < f a) (sort_by (\<lambda>a b. cmp_reverse (compare_chains (f a) (f b))) xs)"
  using assms
proof (induction xs)
  case (Cons x xs)
  let ?c = "\<lambda>a b. cmp_reverse (compare_chains (f a) (f b))"
  have "sort_by ?c (x # xs) = insert_by ?c x (sort_by ?c xs)" by (simp add: sort_by_def)
  then show ?case using Cons by (simp add: sorted_insert_by)
qed (simp add: sort_by_def)

lemma sorted_wrt_distinct: "sorted_wrt R xs \<Longrightarrow> (\<And>x. \<not> R x x) \<Longrightarrow> distinct xs"
  by (induction xs) auto

lemma distinct_pairwise:
  "\<lbrakk>distinct xs; \<And>a b. a \<in> set xs \<Longrightarrow> b \<in> set xs \<Longrightarrow> a \<noteq> b \<Longrightarrow> R a b\<rbrakk> \<Longrightarrow> sorted_wrt R xs"
  by (induction xs) auto

text \<open>Whatever list of batches with the same elements is sorted, the stack is the ascending list.\<close>

lemma legacy_stack_sorted:
  fixes ls :: "'f :: order HollowBatch list"
  assumes "sorted_wrt (\<lambda>a b. d_lower (hb_desc a) < d_lower (hb_desc b)) ls" and "mset ls' = mset ls"
  shows "legacy_stack ls' = ls"
proof -
  let ?f = "\<lambda>b :: 'f HollowBatch. d_lower (hb_desc b)"
  have distinct: "distinct ls'"
    unfolding mset_eq_imp_distinct_iff [OF assms(2)] using assms(1) by (rule sorted_wrt_distinct) auto
  have "comparable ?f a b" if "a \<in> set ls" "b \<in> set ls" "a \<noteq> b" for a b
    using that assms(1) by (induction ls) (auto simp: comparable_def)
  then have "sorted_wrt (comparable ?f) ls'"
    using distinct mset_eq_setD [OF assms(2)] by (intro distinct_pairwise) auto
  then have "sorted_wrt (\<lambda>a b. ?f a < ?f b) (legacy_stack ls')"
    by (simp add: legacy_stack_def sorted_wrt_rev sorted_sort_by)
  moreover have "set (legacy_stack ls') = set ls"
    using mset_eq_setD [OF assms(2)] by (simp add: legacy_stack_def)
  moreover have "asymp (\<lambda>a b. ?f a < ?f b)" by (auto intro: asympI)
  ultimately show ?thesis using assms(1) by (intro strictly_sorted_unique)
qed

subsection \<open>What flattening inserts\<close>

abbreviation lower_of :: "'f IdHollowBatch \<Rightarrow> 'f" where
  "lower_of p \<equiv> d_lower (hb_desc (ihb_batch p))"

abbreviation upper_of :: "'f IdHollowBatch \<Rightarrow> 'f" where
  "upper_of p \<equiv> d_upper (hb_desc (ihb_batch p))"

definition hollow_entries :: "'f IdHollowBatch list \<Rightarrow> (SpineId \<times> 'f HollowBatch) list" where
  "hollow_entries ps = map (\<lambda>p. (ihb_id p, ihb_batch p)) (filter (\<lambda>p. lower_of p = upper_of p) ps)"

definition legacy_entries :: "'f IdHollowBatch list \<Rightarrow> 'f HollowBatch list" where
  "legacy_entries ps = map ihb_batch (filter (\<lambda>p. lower_of p \<noteq> upper_of p) ps)"

definition fueled_entries :: "'f SpineBatch list \<Rightarrow> (SpineId \<times> 'f ThinMerge) list" where
  "fueled_entries bs = map (\<lambda>b. (sb_id b, ThinMerge_fueled b)) (filter (\<lambda>b. sb_active_compaction b \<noteq> None) bs)"

definition fueling_entries :: "'f MergeState \<Rightarrow> (SpineId \<times> 'f ThinMerge) list" where
  "fueling_entries m =
     (case ms_merge m of None \<Rightarrow> [] | Some im \<Rightarrow> [(ifm_id im, ThinMerge_fueling (ifm_merge im))])"

definition merge_entries :: "'f MergeState list \<Rightarrow> (SpineId \<times> 'f ThinMerge) list" where
  "merge_entries ms = concat (map (\<lambda>m. fueled_entries (ms_batches m) @ fueling_entries m) ms)"

fun thin_entries :: "nat \<Rightarrow> 'f MergeState list \<Rightarrow> (SpineId \<times> 'f ThinSpineBatch) list" where
  "thin_entries l [] = []"
| "thin_entries l (m # ms) = map (\<lambda>b. (sb_id b, thin_spine_batch l b)) (ms_batches m) @ thin_entries (Suc l) ms"

definition levels_parts :: "'f MergeState list \<Rightarrow> 'f IdHollowBatch list" where
  "levels_parts ms = concat (map (\<lambda>m. concat (map sb_parts (ms_batches m))) ms)"

abbreviation btree_inserts :: "('k :: linorder \<times> 'v) list \<Rightarrow> ('k, 'v) btree_map \<Rightarrow> ('k, 'v) btree_map" where
  "btree_inserts es m \<equiv> foldl (\<lambda>m e. btree_insert (fst e) (snd e) m) m es"

lemma btree_get_inserts:
  "k \<notin> fst ` set es \<Longrightarrow> btree_get (btree_inserts es m) k = btree_get m k"
  by (induction es arbitrary: m) auto

definition flat_add ::
  "('f \<Rightarrow> 'f \<Rightarrow> Ordering) \<Rightarrow> 'f IdHollowBatch list \<Rightarrow> (SpineId \<times> 'f ThinSpineBatch) list
     \<Rightarrow> (SpineId \<times> 'f ThinMerge) list \<Rightarrow> 'f FlatTrace \<Rightarrow> 'f FlatTrace" where
  "flat_add el ps ss mm ft =
     ft\<lparr>ft_legacy_batches := foldl (\<lambda>s k. cset_insert (HollowBatch_cmp el) k s) (ft_legacy_batches ft) (legacy_entries ps),
        ft_hollow_batches := btree_inserts (hollow_entries ps) (ft_hollow_batches ft),
        ft_spine_batches := btree_inserts ss (ft_spine_batches ft),
        ft_merges := btree_inserts mm (ft_merges ft)\<rparr>"

lemma flat_add_add: "flat_add el qs tt nn (flat_add el ps ss mm ft) = flat_add el (ps @ qs) (ss @ tt) (mm @ nn) ft"
  by (simp add: flat_add_def legacy_entries_def hollow_entries_def)

lemma flat_add_none: "flat_add el [] [] [] ft = ft"
  by (simp add: flat_add_def legacy_entries_def hollow_entries_def)

lemma push_parts_add: "push_parts el ps ft = flat_add el ps [] [] ft"
  by (induction ps arbitrary: ft) (simp_all add: flat_add_def legacy_entries_def hollow_entries_def Let_def)

lemma push_spine_batch_add:
  "push_spine_batch el l b ft = flat_add el (sb_parts b) [(sb_id b, thin_spine_batch l b)] [] ft"
  by (simp add: push_spine_batch_def push_parts_add Let_def) (simp add: flat_add_def)

lemma record_merge_add:
  "btree_get (ft_merges ft) i = None \<Longrightarrow> record_merge i m ft = Some (flat_add el [] [] [(i, m)] ft)"
  by (simp add: record_merge_def flat_add_def legacy_entries_def hollow_entries_def)

lemma flat_add_merges [simp]: "ft_merges (flat_add el ps ss [] ft) = ft_merges ft"
  by (simp add: flat_add_def)

lemma fueled_entries_simps [simp]:
  "fueled_entries [] = []"
  "fueled_entries (b # bs) =
     (if sb_active_compaction b \<noteq> None then (sb_id b, ThinMerge_fueled b) # fueled_entries bs else fueled_entries bs)"
  by (simp_all add: fueled_entries_def)

definition unrecorded :: "'f FlatTrace \<Rightarrow> (SpineId \<times> 'f ThinMerge) list \<Rightarrow> bool" where
  "unrecorded ft mm \<longleftrightarrow> distinct (map fst mm) \<and> (\<forall>e \<in> set mm. btree_get (ft_merges ft) (fst e) = None)"

lemma unrecorded_append:
  "unrecorded ft (mm @ nn) \<Longrightarrow> unrecorded ft mm \<and> unrecorded (flat_add el ps ss mm ft) nn"
proof -
  assume a: "unrecorded ft (mm @ nn)"
  have "btree_get (ft_merges (flat_add el ps ss mm ft)) (fst e) = None" if "e \<in> set nn" for e
  proof -
    have "fst e \<notin> fst ` set mm" using a that by (auto simp: unrecorded_def)
    with a that show ?thesis by (simp add: unrecorded_def flat_add_def btree_get_inserts)
  qed
  with a show ?thesis by (simp add: unrecorded_def)
qed

lemma flatten_batches_add:
  assumes "unrecorded ft (fueled_entries bs)"
  shows "flatten_batches el l bs ft =
    Some (flat_add el (concat (map sb_parts bs)) (map (\<lambda>b. (sb_id b, thin_spine_batch l b)) bs) (fueled_entries bs) ft)"
  using assms
proof (induction bs arbitrary: ft)
  case (Cons b bs)
  let ?mm = "fueled_entries [b]"
  have step: "(let ft1 = push_spine_batch el l b ft
      in if sb_active_compaction b \<noteq> None then record_merge (sb_id b) (ThinMerge_fueled b) ft1 else Some ft1) =
    Some (flat_add el (sb_parts b) [(sb_id b, thin_spine_batch l b)] ?mm ft)"
    using Cons.prems
    by (cases "sb_active_compaction b")
      (simp_all add: push_spine_batch_add unrecorded_def record_merge_add [where el = el] flat_add_add)
  have "unrecorded ft (?mm @ fueled_entries bs)" using Cons.prems by (cases "sb_active_compaction b") simp_all
  then have "unrecorded (flat_add el (sb_parts b) [(sb_id b, thin_spine_batch l b)] ?mm ft) (fueled_entries bs)"
    using unrecorded_append by blast
  from Cons.IH [OF this] step show ?case
    by (simp add: Let_def flat_add_add)
qed (simp add: flat_add_none)

lemma flatten_levels_add:
  assumes "unrecorded ft (merge_entries ms)"
  shows "flatten_levels el l ms ft = Some (flat_add el (levels_parts ms) (thin_entries l ms) (merge_entries ms) ft)"
  using assms
proof (induction ms arbitrary: l ft)
  case (Cons m ms)
  let ?ps = "concat (map sb_parts (ms_batches m))" and ?ss = "map (\<lambda>b. (sb_id b, thin_spine_batch l b)) (ms_batches m)"
  let ?f = "fueled_entries (ms_batches m)" and ?g = "fueling_entries m"
  let ?ft1 = "flat_add el ?ps ?ss ?f ft"
  have all: "unrecorded ft (?f @ ?g @ merge_entries ms)" using Cons.prems by (simp add: merge_entries_def)
  then have f: "unrecorded ft ?f" and rest: "unrecorded ?ft1 (?g @ merge_entries ms)"
    using unrecorded_append by blast+
  then have g: "unrecorded ?ft1 ?g" and ms: "unrecorded (flat_add el [] [] ?g ?ft1) (merge_entries ms)"
    using unrecorded_append by blast+
  have "(case ms_merge m of Some im \<Rightarrow> record_merge (ifm_id im) (ThinMerge_fueling (ifm_merge im)) ?ft1 | None \<Rightarrow> Some ?ft1) =
    Some (flat_add el [] [] ?g ?ft1)"
    using g by (cases "ms_merge m")
      (auto simp: fueling_entries_def unrecorded_def record_merge_add [where el = el] flat_add_none)
  with flatten_batches_add [OF f, of el l] Cons.IH [OF ms, of "Suc l"] show ?case
    by (simp add: flat_add_add merge_entries_def levels_parts_def)
qed (simp add: flat_add_none merge_entries_def levels_parts_def)

subsection \<open>The entries in the order of their ids\<close>

fun thin_desc :: "nat \<Rightarrow> 'f MergeState list \<Rightarrow> (SpineId \<times> 'f ThinSpineBatch) list" where
  "thin_desc l [] = []"
| "thin_desc l (m # ms) = thin_desc (Suc l) ms @ map (\<lambda>b. (sb_id b, thin_spine_batch l b)) (ms_batches m)"

fun level_merges :: "'f SpineBatch list \<Rightarrow> (SpineId \<times> 'f ThinMerge) list \<Rightarrow> (SpineId \<times> 'f ThinMerge) list" where
  "level_merges [] g = g"
| "level_merges (b # bs) g = fueled_entries [b] @ g @ fueled_entries bs"

fun merge_desc :: "'f MergeState list \<Rightarrow> (SpineId \<times> 'f ThinMerge) list" where
  "merge_desc [] = []"
| "merge_desc (m # ms) = merge_desc ms @ level_merges (ms_batches m) (fueling_entries m)"

definition batches_parts :: "'f MergeState list \<Rightarrow> 'f IdHollowBatch list" where
  "batches_parts ms = concat (map sb_parts (level_batches ms))"

lemma mset_levels_parts: "mset (levels_parts ms) = mset (batches_parts ms)"
  by (induction ms) (simp_all add: levels_parts_def batches_parts_def)

lemma mset_thin_entries: "mset (thin_entries l ms) = mset (thin_desc l ms)"
  by (induction ms arbitrary: l) simp_all

lemma mset_level_merges: "mset (level_merges bs g) = mset (fueled_entries bs) + mset g"
  by (cases bs) simp_all

lemma mset_merge_entries: "mset (merge_entries ms) = mset (merge_desc ms)"
  by (induction ms) (simp_all add: merge_entries_def mset_level_merges)

lemma map_fst_thin_desc: "map fst (thin_desc l ms) = map sb_id (level_batches ms)"
  by (induction ms arbitrary: l) simp_all

lemma chained_sorted:
  fixes x :: "'a :: order"
  assumes "chained l u x bs y" and "\<forall>b \<in> set bs. l b \<le> u b"
  shows "sorted_wrt (\<lambda>a b. u a \<le> l b) bs" and "\<forall>b \<in> set bs. x \<le> l b \<and> u b \<le> y"
proof -
  have "sorted_wrt (\<lambda>a b. u a \<le> l b) bs \<and> (\<forall>b \<in> set bs. x \<le> l b \<and> u b \<le> y)"
    using assms
  proof (induction bs arbitrary: x)
    case (Cons b bs)
    then have "u b \<le> y" by (auto intro: chained_le)
    with Cons.IH [of "u b"] Cons.prems show ?case by (auto intro: order_trans)
  qed simp
  then show "sorted_wrt (\<lambda>a b. u a \<le> l b) bs" and "\<forall>b \<in> set bs. x \<le> l b \<and> u b \<le> y" by blast+
qed

text \<open>Ids that cover consecutive ranges are increasing.\<close>

lemma ids_sorted:
  assumes "chained (\<lambda>b. sid_lo (f b)) (\<lambda>b. sid_hi (f b)) x bs y" and "\<forall>b \<in> set bs. sid_lo (f b) < sid_hi (f b)"
  shows "sorted_wrt (<) (map f bs)"
proof -
  have "sorted_wrt (\<lambda>a b. sid_hi (f a) \<le> sid_lo (f b)) bs"
    using assms by (intro chained_sorted(1) [OF assms(1)]) (auto intro: less_imp_le)
  then have "sorted_wrt (\<lambda>a b. f a < f b) bs"
    using assms(2) by (induction bs) (auto simp: less_SpineId_def)
  then show ?thesis by (simp add: sorted_wrt_map)
qed

lemma btree_wf_map_filter:
  "sorted_wrt (<) (map f xs) \<Longrightarrow> btree_wf (map (\<lambda>x. (f x, g x)) (filter P xs))"
  by (auto simp: btree_wf_def comp_def sorted_wrt_map sorted_wrt_filter)

abbreviation sb_chained :: "nat \<Rightarrow> 'f SpineBatch list \<Rightarrow> nat \<Rightarrow> bool" where
  "sb_chained \<equiv> chained (\<lambda>b. sid_lo (sb_id b)) (\<lambda>b. sid_hi (sb_id b))"

lemma sb_chained_fst: "chained sb_lo sb_hi x bs y \<Longrightarrow> sb_chained (fst x) bs (fst y)"
  by (induction bs arbitrary: x) (auto simp: sb_lo_def sb_hi_def)

definition within :: "nat \<Rightarrow> nat \<Rightarrow> (SpineId \<times> 'v) list \<Rightarrow> bool" where
  "within x y es \<longleftrightarrow> (\<forall>e \<in> set es. x \<le> sid_lo (fst e) \<and> sid_lo (fst e) < sid_hi (fst e) \<and> sid_hi (fst e) \<le> y)"

lemma btree_wf_within_append:
  assumes "btree_wf as" and "within x y as" and "btree_wf bs" and "within y z bs" and "x \<le> y" and "y \<le> z"
  shows "btree_wf (as @ bs)" and "within x z (as @ bs)"
proof -
  have "fst a < fst b" if "a \<in> set as" "b \<in> set bs" for a b
    using assms(2,4) that by (force simp: within_def less_SpineId_def)
  with assms(1,3) show "btree_wf (as @ bs)" by (auto simp: btree_wf_def sorted_wrt_append)
  show "within x z (as @ bs)" using assms(2,4-6) by (fastforce simp: within_def)
qed

lemma level_str_cases:
  assumes "level_str s m"
  obtains "m = MergeState_default"
  | b where "m = \<lparr>ms_batches = [b], ms_merge = None\<rparr>" "sb_ok b"
  | b c im where "m = \<lparr>ms_batches = [b, c], ms_merge = Some im\<rparr>" "sb_ok b" "sb_ok c"
      "ifm_id im = SpineId (sid_lo (sb_id b)) (sid_hi (sb_id c))"
proof -
  have "length (ms_batches m) \<le> 2" using assms by (simp add: level_str_def)
  then consider "ms_batches m = []" | b where "ms_batches m = [b]" | b c where "ms_batches m = [b, c]"
    by (cases "ms_batches m" rule: remdups_adj.cases) auto
  then show ?thesis
  proof cases
    case 1
    with level_str_vacant [OF assms] that(1) show ?thesis by blast
  next
    case (2 b)
    with level_str_merge [OF assms] assms that(2) [of b] show ?thesis by (cases m) (auto simp: level_str_def)
  next
    case (3 b c)
    with assms obtain im where "ms_merge m = Some im" by (auto simp: level_str_def)
    with 3 assms that(3) [of b c im] show ?thesis by (cases m) (auto simp: level_str_def MergeState_id_def)
  qed
qed

lemma level_merges_wf:
  assumes "level_str s m" and "sb_chained x (ms_batches m) y"
  shows "btree_wf (level_merges (ms_batches m) (fueling_entries m)) \<and>
    within x y (level_merges (ms_batches m) (fueling_entries m)) \<and> x \<le> y"
  using assms(1)
proof (cases rule: level_str_cases)
  case 1
  with assms(2) show ?thesis by (simp add: fueling_entries_def within_def)
next
  case (2 b)
  with assms(2) sb_ok_less [of b] show ?thesis by (auto simp: fueling_entries_def within_def btree_wf_def)
next
  case (3 b c im)
  with assms(2) sb_ok_less [of b] sb_ok_less [of c] show ?thesis
    by (auto simp: fueling_entries_def within_def btree_wf_def less_SpineId_def)
qed

lemma merge_desc_wf:
  assumes "sb_chained x (level_batches ms) y" and "\<forall>m \<in> set ms. level_str s m"
  shows "btree_wf (merge_desc ms) \<and> within x y (merge_desc ms) \<and> x \<le> y"
  using assms
proof (induction ms arbitrary: y)
  case Nil
  then show ?case by (simp add: within_def)
next
  case (Cons m ms)
  then obtain z where "sb_chained x (level_batches ms) z" "sb_chained z (ms_batches m) y"
    by (auto simp: chained_append)
  moreover from this Cons have "btree_wf (merge_desc ms) \<and> within x z (merge_desc ms) \<and> x \<le> z" by simp
  ultimately show ?case
    using level_merges_wf [of s m z y] Cons.prems(2)
      btree_wf_within_append [of "merge_desc ms" x z "level_merges (ms_batches m) (fueling_entries m)" y] by auto
qed

text \<open>What the invariant of a trace says of the levels and of the parts in the order of the batches.\<close>

lemma trace_inv_levels:
  assumes "trace_inv t"
  shows "\<forall>m \<in> set (sp_merging (tr_spine t)). level_str (Trace_since t) m"
    and "\<forall>b \<in> set (spine_batches (tr_spine t)). sb_ok b"
    and "sb_chained 0 (spine_batches (tr_spine t)) (sp_next_id (tr_spine t))"
proof -
  have "level_str (Trace_since t) (lvl (sp_merging (tr_spine t)) k)" for k
    using assms by (simp add: trace_inv_def spine_inv_def levels_ok_def Trace_since_def)
  then show lv: "\<forall>m \<in> set (sp_merging (tr_spine t)). level_str (Trace_since t) m"
    by (metis in_set_conv_nth lvl_nth)
  then show "\<forall>b \<in> set (spine_batches (tr_spine t)). sb_ok b"
    by (auto simp: spine_batches_def level_batches_def level_str_def)
  show "sb_chained 0 (spine_batches (tr_spine t)) (sp_next_id (tr_spine t))"
    using assms sb_chained_fst [of "(0, bot)"] by (fastforce simp: trace_inv_def spine_inv_def)
qed

lemma trace_inv_parts:
  assumes "trace_inv t"
  defines "P \<equiv> batches_parts (sp_merging (tr_spine t))"
  shows "\<forall>p \<in> set P. ihb_proper p"
    and "sorted_wrt (<) (map ihb_id P)"
    and "sorted_wrt (\<lambda>a b. d_lower (hb_desc a) < d_lower (hb_desc b)) (legacy_entries P)"
    and "sum_list (map ihb_len P) = spine_len (tr_spine t)"
proof -
  note ok = trace_inv_levels(2) [OF assms(1)]
  have P: "P = concat (map sb_parts (spine_batches (tr_spine t)))"
    by (simp add: P_def batches_parts_def spine_batches_def)
  show proper: "\<forall>p \<in> set P. ihb_proper p" using ok unfolding P by (auto simp: sb_ok_def)
  have ch: "chained ihb_lo ihb_hi (0, bot) P (sp_next_id (tr_spine t), sp_upper (tr_spine t))"
    unfolding P using assms(1) ok by (intro chained_concat_parts) (auto simp: trace_inv_def spine_inv_def)
  show "sorted_wrt (<) (map ihb_id P)"
    using chained_fst [OF ch] proper by (intro ids_sorted) (auto simp: ihb_proper_def)
  have "sorted_wrt (\<lambda>a b. upper_of a \<le> lower_of b) P"
    using chained_snd [OF ch] proper by (intro chained_sorted(1)) (auto simp: ihb_proper_def)
  then show "sorted_wrt (\<lambda>a b. d_lower (hb_desc a) < d_lower (hb_desc b)) (legacy_entries P)"
    using proper
    by (induction P) (auto simp: legacy_entries_def ihb_proper_def sorted_wrt_map intro: less_le_trans)
  show "sum_list (map ihb_len P) = spine_len (tr_spine t)"
    using sum_len_parts [OF ok] unfolding P by (simp add: spine_len_def)
qed

lemma trace_inv_flat_wf:
  assumes "trace_inv t"
  defines "ms \<equiv> sp_merging (tr_spine t)"
  shows "btree_wf (hollow_entries (batches_parts ms))" and "btree_wf (thin_desc 0 ms)" and "btree_wf (merge_desc ms)"
proof -
  note parts = trace_inv_parts [OF assms(1)] and levels = trace_inv_levels [OF assms(1)]
  have chain: "sb_chained 0 (level_batches ms) (sp_next_id (tr_spine t))" and ok: "\<forall>b \<in> set (level_batches ms). sb_ok b"
    using levels by (simp_all add: spine_batches_def ms_def)
  show "btree_wf (merge_desc ms)" using merge_desc_wf [OF chain] levels(1) by (simp add: ms_def)
  have less: "\<forall>b \<in> set (level_batches ms). sid_lo (sb_id b) < sid_hi (sb_id b)" using ok sb_ok_less by blast
  show "btree_wf (thin_desc 0 ms)"
    using ids_sorted [OF chain less] by (simp add: btree_wf_def map_fst_thin_desc)
  show "btree_wf (hollow_entries (batches_parts ms))"
    unfolding hollow_entries_def ms_def using parts(2) by (rule btree_wf_map_filter)
qed

lemma HollowBatch_cmp_lower:
  assumes "\<And>a b. el a b = Equal \<Longrightarrow> a = b" and "HollowBatch_cmp el x y = Equal"
  shows "d_lower (hb_desc x) = d_lower (hb_desc y)"
  using assms by (auto simp: HollowBatch_cmp_def split: if_splits)

definition flat_form :: "'f Trace \<Rightarrow> 'f HollowBatch list \<Rightarrow> 'f FlatTrace" where
  "flat_form t L =
     (let ms = sp_merging (tr_spine t) in
      \<lparr>ft_since = Trace_since t, ft_legacy_batches = L, ft_hollow_batches = hollow_entries (batches_parts ms),
       ft_spine_batches = thin_desc 0 ms, ft_merges = merge_desc ms\<rparr>)"

definition flat_legacy :: "('f \<Rightarrow> 'f \<Rightarrow> Ordering) \<Rightarrow> 'f Trace \<Rightarrow> 'f HollowBatch list" where
  "flat_legacy el t =
     foldl (\<lambda>s k. cset_insert (HollowBatch_cmp el) k s) [] (legacy_entries (levels_parts (sp_merging (tr_spine t))))"

lemma flatten_levels_ok:
  fixes t :: "'f :: bounded_lattice Trace"
  assumes inv: "trace_inv t" and el: "\<And>a b. el a b = Equal \<Longrightarrow> a = b"
  shows "mset (flat_legacy el t) = mset (legacy_entries (batches_parts (sp_merging (tr_spine t))))"
    and "flatten_levels el 0 (sp_merging (tr_spine t))
       \<lparr>ft_since = sp_since (tr_spine t), ft_legacy_batches = [], ft_hollow_batches = [],
        ft_spine_batches = [], ft_merges = []\<rparr> = Some (flat_form t (flat_legacy el t))"
proof -
  let ?ms = "sp_merging (tr_spine t)" and ?P = "batches_parts (sp_merging (tr_spine t))"
  let ?c = "HollowBatch_cmp el" and ?f = "\<lambda>b :: 'f HollowBatch. d_lower (hb_desc b)"
  note parts = trace_inv_parts [OF inv] and wf = trace_inv_flat_wf [OF inv]
  have mh: "mset (hollow_entries (levels_parts ?ms)) = mset (hollow_entries ?P)"
    by (simp add: hollow_entries_def mset_levels_parts)
  have ml: "mset (legacy_entries (levels_parts ?ms)) = mset (legacy_entries ?P)"
    by (simp add: legacy_entries_def mset_levels_parts)
  have "distinct (map ?f (legacy_entries ?P))"
    using parts(3) by (intro sorted_wrt_distinct [of "(<)"]) (auto simp: sorted_wrt_map)
  then have "distinct (map ?f (legacy_entries (levels_parts ?ms)))"
    using ml by (metis mset_eq_imp_distinct_iff mset_map)
  then have "sorted_wrt (\<lambda>a b. ?c b a \<noteq> Equal) (legacy_entries (levels_parts ?ms))"
    using HollowBatch_cmp_lower [OF el] by (intro distinct_pairwise) (auto simp: distinct_map inj_on_def)
  then show "mset (flat_legacy el t) = mset (legacy_entries ?P)"
    using mset_cset_inserts [of ?c _ "[]"] ml by (simp add: flat_legacy_def)
  show "flatten_levels el 0 ?ms
       \<lparr>ft_since = sp_since (tr_spine t), ft_legacy_batches = [], ft_hollow_batches = [],
        ft_spine_batches = [], ft_merges = []\<rparr> = Some (flat_form t (flat_legacy el t))"
    using distinct_keys_mset [OF wf(3) mset_merge_entries] flatten_levels_add [of _ ?ms el 0]
      btree_of_list_mset [OF wf(3) mset_merge_entries] btree_of_list_mset [OF wf(2) mset_thin_entries]
      btree_of_list_mset [OF wf(1) mh]
    by (simp add: unrecorded_def flat_add_def flat_form_def flat_legacy_def Trace_since_def btree_of_list_def Let_def)
qed

lemma flatten_ok:
  assumes "trace_inv t" and "tr_roundtrip_structure t" and "\<And>a b. el a b = Equal \<Longrightarrow> a = b"
  shows "flatten el t = Some (flat_form t (flat_legacy el t))"
  using flatten_levels_ok(2) [OF assms(1,3)] assms(2) by (simp add: flatten_def)

subsection \<open>Reading the entries back\<close>

lemma hollow_entries_simps [simp]:
  "hollow_entries [] = []"
  "hollow_entries (p # ps) = (if lower_of p = upper_of p then [(ihb_id p, ihb_batch p)] else []) @ hollow_entries ps"
  "hollow_entries (ps @ qs) = hollow_entries ps @ hollow_entries qs"
  by (simp_all add: hollow_entries_def)

lemma legacy_entries_simps [simp]:
  "legacy_entries [] = []"
  "legacy_entries (p # ps) = (if lower_of p = upper_of p then [] else [ihb_batch p]) @ legacy_entries ps"
  "legacy_entries (ps @ qs) = legacy_entries ps @ legacy_entries qs"
  by (simp_all add: legacy_entries_def)

lemma hollow_entries_fresh: "\<forall>q \<in> set qs. ihb_id q \<noteq> i \<Longrightarrow> btree_get (hollow_entries qs) i = None \<and> btree_remove i (hollow_entries qs) = hollow_entries qs"
  by (induction qs) (auto simp: btree_remove_def)

text \<open>A batch that reads as empty must carry nothing else, which well-formed batches do not.\<close>

lemma HollowBatch_wf_empty:
  assumes "HollowBatch_wf b" and "hb_parts b = []" and "hb_run_splits b = []" and "hb_len b = 0"
  shows "HollowBatch_empty (hb_desc b) = b"
  using assms by (cases b) (simp add: HollowBatch_wf_def HollowBatch_empty_def)

lemma match_empty_same:
  assumes "HollowBatch_wf b"
  shows "match_empty (hb_desc b) b legacy = (b, legacy)"
proof -
  have "roll_in_empty (d_upper (hb_desc b)) (d_upper (hb_desc b)) legacy = (d_upper (hb_desc b), legacy)"
    by (cases legacy) simp_all
  moreover have "HollowBatch_empty (Description_new (d_lower (hb_desc b)) (d_upper (hb_desc b)) (d_since (hb_desc b))) =
    HollowBatch_empty (hb_desc b)"
    by (cases "hb_desc b") (simp add: HollowBatch_empty_def)
  ultimately show ?thesis using HollowBatch_wf_empty [OF assms] by (auto simp: match_empty_def)
qed

lemma pop_batch_ok:
  assumes "\<forall>q \<in> set qs. ihb_id q \<noteq> ihb_id p" and "HollowBatch_wf (ihb_batch p)"
  shows "pop_batch (ihb_id p) (Some (hb_desc (ihb_batch p))) (hollow_entries (p # qs), legacy_entries (p # qs)) =
    Inr (p, hollow_entries qs, legacy_entries qs)"
  using hollow_entries_fresh [OF assms(1)] match_empty_same [OF assms(2)]
  by (cases "lower_of p = upper_of p") (simp_all add: pop_batch_def btree_remove_def)

lemma pop_batches_ok:
  assumes "sorted_wrt (<) (map ihb_id (ps @ qs))" and "\<forall>p \<in> set ps. HollowBatch_wf (ihb_batch p)"
  shows "pop_batches (zip (map ihb_id ps) (map Some (map (hb_desc \<circ> ihb_batch) ps)))
      (hollow_entries (ps @ qs), legacy_entries (ps @ qs)) =
    Inr (ps, hollow_entries qs, legacy_entries qs)"
  using assms
proof (induction ps)
  case (Cons p ps)
  then have "\<forall>q \<in> set (ps @ qs). ihb_id p < ihb_id q" by (simp add: ball_Un)
  then have "\<forall>q \<in> set (ps @ qs). ihb_id q \<noteq> ihb_id p" by (metis less_irrefl)
  from pop_batch_ok [OF this] Cons show ?case by simp
qed simp

lemma parts_tile_ok:
  assumes "sb_ok b"
  shows "parts_tile (sb_id b) (sb_parts b)"
proof -
  have "adjacent_ids ps" if "chained ihb_lo ihb_hi x ps y" for x y and ps :: "'a IdHollowBatch list"
    using that by (induction ps arbitrary: x rule: adjacent_ids.induct) (auto simp: ihb_lo_def ihb_hi_def)
  moreover have "chained ihb_lo ihb_hi (sb_lo b) (sb_parts b) (sb_hi b)" "sb_parts b \<noteq> []"
    using assms by (simp_all add: sb_ok_def)
  ultimately show ?thesis
    using chained_ends [of ihb_lo ihb_hi "sb_lo b" "sb_parts b" "sb_hi b"]
    by (auto simp: parts_tile_def ihb_lo_def ihb_hi_def sb_lo_def sb_hi_def)
qed

text \<open>A spine batch is read back when its level has room for it.\<close>

lemma unflatten_batch_ok:
  assumes ok: "sb_ok b" and wf: "\<forall>p \<in> set (sb_parts b). HollowBatch_wf (ihb_batch p)"
    and ids: "sorted_wrt (<) (map ihb_id (sb_parts b @ qs))"
    and get: "Option.bind (btree_get merges (sb_id b)) tm_active_compaction = sb_active_compaction b"
    and level: "l < length ms" and push: "try_push_batch (ms ! l) b = Inr m"
  shows "unflatten_batch (sb_id b) (thin_spine_batch l b)
      \<lparr>us_pop = (hollow_entries (sb_parts b @ qs), legacy_entries (sb_parts b @ qs)), us_merges = merges, us_merging = ms\<rparr> =
    (let (m', merges') = restore_merge m (btree_remove (sb_id b) merges)
     in Inr \<lparr>us_pop = (hollow_entries qs, legacy_entries qs), us_merges = merges', us_merging = ms[l := m']\<rparr>)"
proof -
  have "sum_list (map (\<lambda>p. hb_len (ihb_batch p)) (sb_parts b)) = sb_len b" using ok by (simp add: sb_ok_def)
  moreover have "try_push_batch (ms ! l) \<lparr>sb_id = sb_id b, sb_desc = sb_desc b, sb_parts = sb_parts b,
      sb_active_compaction = sb_active_compaction b, sb_len = sb_len b\<rparr> = Inr m"
    using push by (cases b) simp
  ultimately show ?thesis
    using pop_batches_ok [OF ids wf] parts_tile_ok [OF ok] get level
    by (simp add: unflatten_batch_def thin_spine_batch_def Let_def del: map_map)
qed

lemma btree_fresh: "k \<notin> fst ` set m \<Longrightarrow> btree_get m k = None \<and> btree_remove k m = m"
  by (induction m) (auto simp: btree_remove_def)

lemma later_fresh: "\<forall>e \<in> set m. y \<le> sid_lo (fst e) \<Longrightarrow> sid_lo k < y \<Longrightarrow> k \<notin> fst ` set m"
  by auto

lemma fueled_get:
  "k \<notin> fst ` set m \<Longrightarrow> sb_id b = k \<Longrightarrow>
     Option.bind (btree_get (fueled_entries [b] @ m) k) tm_active_compaction = sb_active_compaction b \<and>
     btree_remove k (fueled_entries [b] @ m) = m"
  using btree_fresh [of k m] by (cases "sb_active_compaction b") (auto simp: ThinMerge_fueled_def btree_remove_def)

lemma unflatten_level_ok:
  assumes "level_str s m" and chain: "chained sb_lo sb_hi x (ms_batches m) y"
    and wf: "\<forall>b \<in> set (ms_batches m). \<forall>p \<in> set (sb_parts b). HollowBatch_wf (ihb_batch p)"
    and ids: "sorted_wrt (<) (map ihb_id (concat (map sb_parts (ms_batches m)) @ qs))"
    and fresh: "\<forall>e \<in> set rest. fst y \<le> sid_lo (fst e)"
    and level: "l < length ms" "ms ! l = MergeState_default"
  shows "unflatten_batches (map (\<lambda>b. (sb_id b, thin_spine_batch l b)) (ms_batches m) @ tail)
      \<lparr>us_pop = (hollow_entries (concat (map sb_parts (ms_batches m)) @ qs), legacy_entries (concat (map sb_parts (ms_batches m)) @ qs)),
       us_merges = level_merges (ms_batches m) (fueling_entries m) @ rest, us_merging = ms\<rparr> =
    unflatten_batches tail
      \<lparr>us_pop = (hollow_entries qs, legacy_entries qs), us_merges = rest, us_merging = ms[l := m]\<rparr>"
  using assms(1)
proof (cases rule: level_str_cases)
  case 1
  moreover have "ms[l := MergeState_default] = ms" using level by (metis list_update_id)
  ultimately show ?thesis by (simp add: fueling_entries_def)
next
  case (2 b)
  have "sb_id b \<notin> fst ` set rest" using chain sb_ok_less [OF 2(2)] 2(1) by (intro later_fresh [OF fresh]) (auto simp: sb_hi_def)
  moreover have "try_push_batch (ms ! l) b = Inr m"
    using 2 level by (simp add: try_push_batch_def MergeState_default_def BATCHES_PER_LEVEL_def)
  ultimately show ?thesis
    using unflatten_batch_ok [OF 2(2), of qs "fueled_entries [b] @ rest" l ms m] 2(1) wf ids level
      fueled_get [of "sb_id b" rest b] btree_fresh [of "sb_id b" rest]
    by (simp add: fueling_entries_def restore_merge_def MergeState_id_def del: fueled_entries_simps(2))
next
  case (3 b c im)
  let ?i = "SpineId (sid_lo (sb_id b)) (sid_hi (sb_id c))" and ?ps = "sb_parts c @ qs"
  let ?m1 = "\<lparr>ms_batches = [b], ms_merge = None\<rparr>" and ?m2 = "\<lparr>ms_batches = [b, c], ms_merge = None\<rparr>"
  let ?g = "(?i, ThinMerge_fueling (ifm_merge im))"
  note less = sb_ok_less [OF 3(2)] sb_ok_less [OF 3(3)]
  have adj: "sb_hi b = sb_lo c" using chain 3(1) by simp
  have rest: "sb_id b \<notin> fst ` set rest" "sb_id c \<notin> fst ` set rest" "?i \<notin> fst ` set rest"
    using chain less 3(1) by (auto intro!: later_fresh [OF fresh] simp: sb_hi_def sb_lo_def)
  have ne: "sb_id b \<noteq> ?i" "sb_id c \<noteq> ?i" "sb_id b \<noteq> sb_id c"
    using adj less by (cases "sb_id b"; cases "sb_id c"; auto simp: sb_hi_def sb_lo_def)+
  have fb: "sb_id b \<notin> fst ` set (?g # fueled_entries [c] @ rest)" using rest ne by auto
  have push: "try_push_batch (ms ! l) b = Inr ?m1" "try_push_batch (ms[l := ?m1] ! l) c = Inr ?m2"
    using level adj by (simp_all add: try_push_batch_def MergeState_default_def BATCHES_PER_LEVEL_def sb_hi_def sb_lo_def)
  have "unflatten_batch (sb_id b) (thin_spine_batch l b)
      \<lparr>us_pop = (hollow_entries (sb_parts b @ ?ps), legacy_entries (sb_parts b @ ?ps)),
       us_merges = fueled_entries [b] @ ?g # fueled_entries [c] @ rest, us_merging = ms\<rparr> =
    Inr \<lparr>us_pop = (hollow_entries ?ps, legacy_entries ?ps), us_merges = ?g # fueled_entries [c] @ rest,
          us_merging = ms[l := ?m1]\<rparr>"
    using unflatten_batch_ok [OF 3(2) _ _ _ level(1) push(1), of ?ps] 3(1) wf ids fueled_get [OF fb refl] btree_fresh [OF fb]
    by (simp add: restore_merge_def MergeState_id_def del: fueled_entries_simps(2))
  moreover have "unflatten_batch (sb_id c) (thin_spine_batch l c)
      \<lparr>us_pop = (hollow_entries ?ps, legacy_entries ?ps), us_merges = ?g # fueled_entries [c] @ rest,
       us_merging = ms[l := ?m1]\<rparr> =
    Inr \<lparr>us_pop = (hollow_entries qs, legacy_entries qs), us_merges = rest, us_merging = ms[l := m]\<rparr>"
  proof -
    have g: "Option.bind (btree_get (?g # fueled_entries [c] @ rest) (sb_id c)) tm_active_compaction = sb_active_compaction c"
      "btree_remove (sb_id c) (?g # fueled_entries [c] @ rest) = ?g # rest"
      using fueled_get [OF rest(2) refl] ne by (simp_all add: btree_remove_def del: fueled_entries_simps(2))
    have "restore_merge ?m2 (?g # rest) = (m, rest)"
      using 3(1,4) btree_fresh [OF rest(3)]
      by (cases im; cases "ifm_merge im") (simp add: restore_merge_def MergeState_id_def ThinMerge_fueling_def btree_remove_def)
    moreover have "l < length (ms[l := ?m1])" using level by simp
    ultimately show ?thesis
      using unflatten_batch_ok [OF 3(3) _ _ g(1) _ push(2), of qs] g(2) 3(1) wf ids
      by (simp add: sorted_wrt_append del: fueled_entries_simps(2))
  qed
  ultimately show ?thesis
    using 3(1,4) by (simp add: fueling_entries_def del: fueled_entries_simps(2))
qed

text \<open>All levels, from the highest down: levels \<open>0\<close> to \<open>j - 1\<close> are still to be read.\<close>

lemma thin_desc_append: "thin_desc l (xs @ ys) = thin_desc (l + length xs) ys @ thin_desc l xs"
  by (induction xs arbitrary: l) simp_all

lemma merge_desc_append: "merge_desc (xs @ ys) = merge_desc ys @ merge_desc xs"
  by (induction xs) simp_all

lemma batches_parts_snoc: "batches_parts (ms @ [m]) = concat (map sb_parts (ms_batches m)) @ batches_parts ms"
  by (simp add: batches_parts_def)

lemma unflatten_levels_ok:
  fixes ms :: "'f :: bounded_lattice MergeState list"
  assumes "\<forall>m \<in> set ms. level_str s m" and "chained sb_lo sb_hi x (level_batches ms) y"
    and "\<forall>p \<in> set (batches_parts ms). HollowBatch_wf (ihb_batch p)"
    and "sorted_wrt (<) (map ihb_id (batches_parts ms))"
  shows "unflatten_batches (thin_desc 0 ms)
      \<lparr>us_pop = (hollow_entries (batches_parts ms), legacy_entries (batches_parts ms)),
       us_merges = merge_desc ms, us_merging = replicate (length ms) MergeState_default @ upper\<rparr> =
    Inr \<lparr>us_pop = ([], []), us_merges = [], us_merging = ms @ upper\<rparr>"
  using assms
proof (induction ms arbitrary: x upper rule: rev_induct)
  case Nil
  then show ?case by (simp add: batches_parts_def)
next
  case (snoc m ms)
  obtain z where z: "chained sb_lo sb_hi x (ms_batches m) z" "chained sb_lo sb_hi z (level_batches ms) y"
    using snoc.prems(2) by (auto simp: chained_append)
  let ?ms = "replicate (length (ms @ [m])) MergeState_default @ upper"
  have ids: "sorted_wrt (<) (map ihb_id (concat (map sb_parts (ms_batches m)) @ batches_parts ms))"
    using snoc.prems(4) by (simp add: batches_parts_snoc)
  have "sb_chained (fst z) (level_batches ms) (fst y)"
    using z(2) by (rule sb_chained_fst)
  then have "within (fst z) (fst y) (merge_desc ms)" using merge_desc_wf snoc.prems(1) by (metis UnI1 set_append)
  then have fresh: "\<forall>e \<in> set (merge_desc ms). fst z \<le> sid_lo (fst e)" by (simp add: within_def)
  have upd: "?ms[length ms := m] = replicate (length ms) MergeState_default @ m # upper"
    by (simp add: list_update_append replicate_append_same [symmetric] del: replicate_append_same)
  have wf: "\<forall>b \<in> set (ms_batches m). \<forall>p \<in> set (sb_parts b). HollowBatch_wf (ihb_batch p)"
    using snoc.prems(3) by (auto simp: batches_parts_snoc)
  have "?ms ! length ms = MergeState_default" by (simp add: nth_append del: replicate_Suc)
  moreover have "unflatten_batches (thin_desc 0 ms)
      \<lparr>us_pop = (hollow_entries (batches_parts ms), legacy_entries (batches_parts ms)),
       us_merges = merge_desc ms, us_merging = replicate (length ms) MergeState_default @ m # upper\<rparr> =
    Inr \<lparr>us_pop = ([], []), us_merges = [], us_merging = ms @ m # upper\<rparr>"
    using snoc.prems z(2) by (intro snoc.IH) (auto simp: batches_parts_snoc sorted_wrt_append)
  ultimately show ?case
    using unflatten_level_ok [OF _ z(1) wf ids fresh, of s "length ms" ?ms "thin_desc 0 ms"] snoc.prems(1) upd
    by (simp add: thin_desc_append merge_desc_append batches_parts_snoc)
qed

subsection \<open>The round trip\<close>

text \<open>The flat form has no place for vacant levels above the highest batch; they are dropped.\<close>

definition trim_levels :: "'f MergeState list \<Rightarrow> 'f MergeState list" where
  "trim_levels ms = rev (dropWhile is_vacant (rev ms))"

definition Trace_trim :: "'f Trace \<Rightarrow> 'f Trace" where
  "Trace_trim t = t\<lparr>tr_spine := (tr_spine t)\<lparr>sp_merging := trim_levels (sp_merging (tr_spine t))\<rparr>\<rparr>"

lemma trim_levels_split:
  assumes "\<forall>m \<in> set ms. level_str s m"
  obtains k where "ms = trim_levels ms @ replicate k MergeState_default"
proof -
  let ?v = "takeWhile is_vacant (rev ms)"
  have "\<forall>m \<in> set ?v. m = MergeState_default"
    using assms level_str_vacant by (metis is_vacant_def set_rev set_takeWhileD)
  then have "?v = replicate (length ?v) MergeState_default" by (intro replicate_eqI) auto
  moreover have "rev ms = ?v @ dropWhile is_vacant (rev ms)" by simp
  ultimately have "ms = trim_levels ms @ replicate (length ?v) MergeState_default"
    unfolding trim_levels_def by (metis rev_append rev_replicate rev_rev_ident)
  then show ?thesis by (rule that)
qed

lemma trim_levels_last: "trim_levels ms \<noteq> [] \<Longrightarrow> ms_batches (last (trim_levels ms)) \<noteq> []"
  unfolding trim_levels_def by (metis hd_dropWhile is_vacant_def last_rev rev_is_Nil_conv)

lemma level_lists_trim:
  assumes "\<forall>m \<in> set ms. level_str s m"
  shows "level_batches (trim_levels ms) = level_batches ms" and "thin_desc 0 (trim_levels ms) = thin_desc 0 ms"
    and "merge_desc (trim_levels ms) = merge_desc ms" and "lvl (trim_levels ms) = lvl ms"
    and "set (trim_levels ms) \<subseteq> set ms" and "length (trim_levels ms) \<le> length ms"
proof -
  obtain k where k: "ms = trim_levels ms @ replicate k MergeState_default" using assms by (rule trim_levels_split)
  have "thin_desc l (replicate k MergeState_default) = []" "merge_desc (replicate k MergeState_default) = []" for l
    by (induction k arbitrary: l) (auto simp: fueling_entries_def)
  note vacant = this
  show "thin_desc 0 (trim_levels ms) = thin_desc 0 ms"
    using arg_cong [OF k, of "thin_desc 0"] vacant by (simp add: thin_desc_append)
  show "merge_desc (trim_levels ms) = merge_desc ms"
    using arg_cong [OF k, of merge_desc] vacant by (simp add: merge_desc_append)
  show "level_batches (trim_levels ms) = level_batches ms"
    using arg_cong [OF k, of level_batches] by simp
  have "lvl (xs @ replicate k MergeState_default) = lvl xs" for xs :: "'a MergeState list"
    by (auto simp: lvl_def fun_eq_iff nth_append)
  then show "lvl (trim_levels ms) = lvl ms" using arg_cong [OF k, of lvl] by metis
  show "set (trim_levels ms) \<subseteq> set ms" "length (trim_levels ms) \<le> length ms"
    using arg_cong [OF k, of set] arg_cong [OF k, of length] by auto
qed

lemma Trace_trim_simps [simp]:
  "Trace_since (Trace_trim t) = Trace_since t" "Trace_upper (Trace_trim t) = Trace_upper t"
  "tr_roundtrip_structure (Trace_trim t) = tr_roundtrip_structure t"
  by (simp_all add: Trace_trim_def Trace_since_def Trace_upper_def)

lemma Trace_trim_ok:
  assumes "trace_inv t"
  shows "trace_inv (Trace_trim t)" and "spine_batches (tr_spine (Trace_trim t)) = spine_batches (tr_spine t)"
proof -
  note trim = level_lists_trim [OF trace_inv_levels(1) [OF assms]]
  show sb: "spine_batches (tr_spine (Trace_trim t)) = spine_batches (tr_spine t)"
    using trim(1) by (simp add: Trace_trim_def spine_batches_def)
  show "trace_inv (Trace_trim t)"
    using assms sb trim(4) by (simp add: trace_inv_def spine_inv_def Trace_trim_def spine_len_def)
qed

lemma check_total_len_ok: "n + sum_list (map hb_len bs) \<le> MAX_TOTAL_LEN \<Longrightarrow> check_total_len bs n = Inr ()"
  by (induction bs arbitrary: n) (auto simp: MAX_TOTAL_LEN_def usize_bits_def)

lemma flat_levels_ok:
  assumes "ms \<noteq> [] \<Longrightarrow> ms_batches (last ms) \<noteq> []" and "length ms \<le> MAX_LEVELS"
  shows "flat_levels (thin_desc 0 ms) = length ms"
proof (cases ms rule: rev_cases)
  case (snoc ms' m)
  then obtain b bs where "ms_batches m = b # bs" using assms(1) by (cases "ms_batches m") auto
  with snoc assms(2) show ?thesis
    by (simp add: thin_desc_append flat_levels_def thin_spine_batch_def MAX_LEVELS_def usize_bits_def)
qed (simp add: flat_levels_def)

lemma flat_end_ok:
  assumes "chained sb_lo sb_hi (0, bot) (level_batches ms) (j, u)"
  shows "flat_end (thin_desc 0 ms) = (u, j)"
proof (cases "level_batches ms = []")
  case True
  with assms map_fst_thin_desc [of 0 ms] show ?thesis by (simp add: flat_end_def)
next
  case False
  define g :: "SpineId \<times> 'a ThinSpineBatch \<Rightarrow> 'a \<times> nat" where "g = (\<lambda>e. (d_upper (tsb_desc (snd e)), sid_hi (fst e)))"
  define h :: "'a SpineBatch \<Rightarrow> 'a \<times> nat" where "h = (\<lambda>b. (sb_upper b, sid_hi (sb_id b)))"
  have eq: "map g (thin_desc l ms) = map h (level_batches ms)" for l
    by (induction ms arbitrary: l) (simp_all add: thin_spine_batch_def g_def h_def)
  then have ne: "thin_desc 0 ms \<noteq> []" using False by (metis map_is_Nil_conv)
  have "g (last (thin_desc 0 ms)) = last (map g (thin_desc 0 ms))" using ne by (simp add: last_map)
  also have "\<dots> = h (last (level_batches ms))" unfolding eq using False by (rule last_map)
  also have "\<dots> = (u, j)" using chained_ends [OF assms False] by (simp add: h_def sb_hi_def)
  finally show ?thesis using ne by (simp add: flat_end_def g_def split_beta Let_def)
qed

lemma Trace_batches_parts: "Trace_batches t = map ihb_batch (batches_parts (sp_merging (tr_spine t)))"
  by (simp add: Trace_batches_def batches_parts_def spine_batches_def)

lemma unflatten_flat_form:
  assumes inv: "trace_inv t" and rt: "tr_roundtrip_structure t"
    and wf: "\<forall>b \<in> set (Trace_batches t). HollowBatch_wf b"
    and len: "spine_len (tr_spine t) \<le> MAX_TOTAL_LEN" and lv: "length (sp_merging (tr_spine t)) \<le> MAX_LEVELS"
    and L: "mset L = mset (legacy_entries (batches_parts (sp_merging (tr_spine t))))"
  shows "unflatten (flat_form t L) = Some (Inr (Trace_trim t))"
proof -
  let ?ms = "sp_merging (tr_spine t)" and ?P = "batches_parts (sp_merging (tr_spine t))" and ?T = "trim_levels (sp_merging (tr_spine t))"
  note levels = trace_inv_levels(1) [OF inv] and parts = trace_inv_parts [OF inv]
  note trim = level_lists_trim [OF levels]
  have chain: "chained sb_lo sb_hi (0, bot) (level_batches ?ms) (sp_next_id (tr_spine t), sp_upper (tr_spine t))"
    using inv by (simp add: trace_inv_def spine_inv_def spine_batches_def)
  have lT: "\<forall>m \<in> set ?T. level_str (Trace_since t) m" using levels trim(5) by blast
  have P: "batches_parts ?T = ?P" by (simp add: batches_parts_def trim(1))
  have "sum_list (map hb_len (legacy_entries ps)) + sum_list (map hb_len (map snd (hollow_entries ps))) =
      sum_list (map ihb_len ps)" for ps :: "'a IdHollowBatch list"
    by (induction ps) auto
  moreover have "sum_list (map hb_len L) = sum_list (map hb_len (legacy_entries ?P))"
    using L by (metis mset_map sum_mset_sum_list)
  ultimately have total: "check_total_len (L @ map snd (hollow_entries ?P)) 0 = Inr ()"
    using parts(4) len by (intro check_total_len_ok) (simp add: comp_def)
  have lvls: "flat_levels (thin_desc 0 ?ms) = length ?T"
    using flat_levels_ok [of ?T] trim_levels_last trim(2,6) lv by fastforce
  have stack: "legacy_stack L = legacy_entries ?P" using parts(3) L by (rule legacy_stack_sorted)
  have batches: "unflatten_batches (thin_desc 0 ?ms)
      \<lparr>us_pop = (hollow_entries ?P, legacy_entries ?P), us_merges = merge_desc ?ms,
       us_merging = replicate (length ?T) MergeState_default\<rparr> =
    Inr \<lparr>us_pop = ([], []), us_merges = [], us_merging = ?T\<rparr>"
    using unflatten_levels_ok [OF lT chain [folded trim(1)], of "[]"] wf parts(2) trim P
    by (auto simp: Trace_batches_parts)
  have "thin_desc 0 ?ms = [] \<Longrightarrow> L = []"
    using L map_fst_thin_desc [of 0 ?ms] by (auto simp: batches_parts_def)
  then have rt': "thin_desc 0 ?ms \<noteq> [] \<or> L = []" by blast
  have eff: "sp_effort (tr_spine t) = 1" using inv by (simp add: trace_inv_def spine_inv_def)
  have "Trace_trim t = \<lparr>tr_spine = \<lparr>sp_effort = 1, sp_next_id = sp_next_id (tr_spine t), sp_since = Trace_since t,
      sp_upper = sp_upper (tr_spine t), sp_merging = ?T\<rparr>, tr_roundtrip_structure = True\<rparr>"
    using rt eff by (cases t; cases "tr_spine t") (simp add: Trace_trim_def Trace_since_def)
  moreover have "Trace_validate (Trace_trim t) = Inr ()"
    using Trace_trim_ok(1) [OF inv] by (simp add: Trace_validate_def trace_inv_def spine_inv_validate)
  ultimately show ?thesis
    using total lvls stack batches rt' flat_end_ok [OF chain] trim(6) lv
    by (simp add: unflatten_def flat_form_def unflatten_finish_def Let_def)
qed

text \<open>
  C13: What is written down of a trace reads back as that trace. Flattening a reachable trace does
  not panic, and unflattening the result gives the trace itself, up to vacant levels above its
  highest batch: the same spine batches, merges in progress, claimed compactions, since and
  upper. The comparison of frontiers only has to tell different frontiers apart.
\<close>

theorem flatten_unflatten:
  assumes "trace_reachable e t" and "tr_roundtrip_structure t"
    and "\<forall>b \<in> set (Trace_batches t). HollowBatch_wf b"
    and "spine_len (tr_spine t) \<le> MAX_TOTAL_LEN" and "length (sp_merging (tr_spine t)) \<le> MAX_LEVELS"
    and "\<And>a b. el a b = Equal \<Longrightarrow> a = b"
  shows "\<exists>ft. flatten el t = Some ft \<and> unflatten ft = Some (Inr (Trace_trim t)) \<and>
    spine_batches (tr_spine (Trace_trim t)) = spine_batches (tr_spine t)"
proof -
  note inv = trace_reachable_inv [OF assms(1)]
  show ?thesis
    using flatten_ok [OF inv assms(2,6)] unflatten_flat_form [OF inv assms(2-5) flatten_levels_ok(1) [OF inv assms(6)]]
      Trace_trim_ok(2) [OF inv]
    by simp
qed

text \<open>Witness: the sample trace, with the comparison of \<open>u64\<close> frontiers as lists of elements.\<close>

fun ts_elements :: "ts_frontier \<Rightarrow> u64 list" where
  "ts_elements (At t) = [t]"
| "ts_elements Closed = []"

definition ts_elements_cmp :: "ts_frontier \<Rightarrow> ts_frontier \<Rightarrow> Ordering" where
  "ts_elements_cmp a b = cmp_of (ts_elements a) (ts_elements b)"

lemma ts_elements_cmp_eq: "ts_elements_cmp a b = Equal \<Longrightarrow> a = b"
  by (cases a; cases b) (auto simp: ts_elements_cmp_def cmp_of_def split: if_splits)

theorem flatten_unflatten_witness:
  "length (Trace_batches sample_trace) = 2 \<and>
    (\<exists>ft. flatten ts_elements_cmp sample_trace = Some ft \<and> unflatten ft = Some (Inr (Trace_trim sample_trace)))"
proof -
  have "tr_roundtrip_structure sample_trace" "spine_len (tr_spine sample_trace) \<le> MAX_TOTAL_LEN"
    "length (sp_merging (tr_spine sample_trace)) \<le> MAX_LEVELS" "length (Trace_batches sample_trace) = 2"
    by code_simp+
  moreover have "list_all HollowBatch_wf (Trace_batches sample_trace)" by code_simp
  ultimately show ?thesis
    using flatten_unflatten [OF sample_reachable, where el = ts_elements_cmp] ts_elements_cmp_eq
    by (auto simp: list_all_iff)
qed

end
