(* ===== verification/State_Diff_Props.thy ===== *)
theory State_Diff_Props
  imports State_Diff Flat_Props
begin

section \<open>Diffs reproduce the version they were made from\<close>

subsection \<open>Ordered keys\<close>

text \<open>
  What the walk over two maps and the maps themselves rely on: a comparison that is total and
  transitive, and that tells the keys in use apart.
\<close>

definition cmp_preorder :: "('k \<Rightarrow> 'k \<Rightarrow> Ordering) \<Rightarrow> bool" where
  "cmp_preorder c \<longleftrightarrow>
     (\<forall>a b. c b a = cmp_reverse (c a b)) \<and>
     (\<forall>a b d. c a b \<noteq> Greater \<longrightarrow> c b d \<noteq> Greater \<longrightarrow> c a d \<noteq> Greater)"

definition sorted_keys :: "('k \<Rightarrow> 'k \<Rightarrow> Ordering) \<Rightarrow> ('k \<times> 'v) list \<Rightarrow> bool" where
  "sorted_keys c m \<longleftrightarrow> sorted_wrt (\<lambda>a b. c (fst a) (fst b) = Less) m"

text \<open>An entry of the result: the new one, or an old one that counts as equal to it.\<close>

definition entry_eq :: "('v \<Rightarrow> 'v \<Rightarrow> bool) \<Rightarrow> ('k \<times> 'v) set \<Rightarrow> 'k \<times> 'v \<Rightarrow> 'k \<times> 'v \<Rightarrow> bool" where
  "entry_eq eq S e e' \<longleftrightarrow> fst e = fst e' \<and> (snd e = snd e' \<or> e \<in> S \<and> eq (snd e) (snd e'))"

lemma cmp_reverse_fixed: "x = cmp_reverse x \<Longrightarrow> x = Equal"
  by (cases x) auto

locale key_order =
  fixes c :: "'k \<Rightarrow> 'k \<Rightarrow> Ordering" and K :: "'k set"
  assumes preorder: "cmp_preorder c"
    and distinguishes: "\<lbrakk>a \<in> K; b \<in> K; c a b = Equal\<rbrakk> \<Longrightarrow> a = b"
begin

lemma flip: "c b a = cmp_reverse (c a b)"
  using preorder unfolding cmp_preorder_def by blast

lemma not_greater_trans: "c a b \<noteq> Greater \<Longrightarrow> c b d \<noteq> Greater \<Longrightarrow> c a d \<noteq> Greater"
  using preorder unfolding cmp_preorder_def by blast

lemma refl: "c a a = Equal"
  using cmp_reverse_fixed [OF flip [of a a]] .

lemma less_trans: "c a b = Less \<Longrightarrow> c b d = Less \<Longrightarrow> c a d = Less"
proof -
  assume ab: "c a b = Less" and bd: "c b d = Less"
  have "c a d \<noteq> Greater" using ab bd by (intro not_greater_trans [of a b d]) simp_all
  moreover have "c a d \<noteq> Equal"
  proof
    assume "c a d = Equal"
    then have "c d a \<noteq> Greater" using flip [of d a] by simp
    with ab have "c d b \<noteq> Greater" by (intro not_greater_trans [of d a b]) simp_all
    with flip [of d b] bd show False by simp
  qed
  ultimately show ?thesis by (cases "c a d") auto
qed

lemma equal_cong:
  assumes "c a b = Equal"
  shows "c a d = c b d" and "c d a = c d b"
proof -
  have ba: "c b a = Equal" using flip [of b a] assms by simp
  have ab: "c a b \<noteq> Greater" "c b a \<noteq> Greater" using assms ba by simp_all
  have "c a d = Greater \<longleftrightarrow> c b d = Greater"
    using not_greater_trans [OF ab(1), of d] not_greater_trans [OF ab(2), of d] by blast
  moreover have "c d a = Greater \<longleftrightarrow> c d b = Greater"
    using not_greater_trans [OF _ ab(1), of d] not_greater_trans [OF _ ab(2), of d] by blast
  moreover have "c a d = cmp_reverse (c d a)" "c b d = cmp_reverse (c d b)" by (rule flip)+
  ultimately show "c a d = c b d" and "c d a = c d b" by (cases "c d a"; cases "c d b"; simp)+
qed

lemma greater_less: "c a b = Greater \<longleftrightarrow> c b a = Less"
  using flip [of b a] by (cases "c a b") auto

lemma insert_between:
  assumes "\<forall>e \<in> set xs. c (fst e) k = Less" and "\<forall>e \<in> set ys. c k (fst e) = Less"
  shows "cmap_insert c k v (xs @ ys) = (None, xs @ (k, v) # ys)"
  using assms
proof (induction xs)
  case Nil
  then show ?case by (cases ys) auto
next
  case (Cons e xs)
  then have "c k (fst e) = Greater" by (simp add: greater_less)
  with Cons show ?case by (cases e) simp
qed

lemma replace_at:
  assumes "\<forall>e \<in> set xs. c (fst e) k = Less"
  shows "cmap_insert c k v (xs @ (k, w) # ys) = (Some w, xs @ (k, v) # ys)"
    and "cmap_remove c k (xs @ (k, w) # ys) = (Some w, xs @ ys)"
proof -
  have "\<forall>e \<in> set xs. c k (fst e) = Greater" using assms by (simp add: greater_less)
  then show "cmap_insert c k v (xs @ (k, w) # ys) = (Some w, xs @ (k, v) # ys)"
    and "cmap_remove c k (xs @ (k, w) # ys) = (Some w, xs @ ys)"
    by (induction xs) (auto simp: refl)
qed

lemma sorted_keys_mid:
  "sorted_keys c (xs @ e # ys) \<longleftrightarrow>
     sorted_keys c (xs @ ys) \<and> (\<forall>x \<in> set xs. c (fst x) (fst e) = Less) \<and> (\<forall>y \<in> set ys. c (fst e) (fst y) = Less)"
  unfolding sorted_keys_def sorted_wrt_append by auto

lemma sorted_keys_prefix: "sorted_keys c (xs @ ys) \<Longrightarrow> sorted_keys c xs"
  by (simp add: sorted_keys_def sorted_wrt_append)

lemma apply_delete:
  assumes "eq v v" and "sorted_keys c (kept @ (k, v) # fs)"
  shows "apply_diffs_map c eq name (field_diff k (Delete v) # ds) (kept @ (k, v) # fs) = apply_diffs_map c eq name ds (kept @ fs)"
  using replace_at(2) [of kept k v fs] assms by (simp add: apply_diffs_map_def apply_diff_map_def opt_eq_def sorted_keys_mid)

lemma apply_insert:
  assumes "sorted_keys c (kept @ (k, v) # fs)"
  shows "apply_diffs_map c eq name (field_diff k (Insert v) # ds) (kept @ fs) = apply_diffs_map c eq name ds (kept @ (k, v) # fs)"
  using insert_between [of kept k fs v] assms by (simp add: apply_diffs_map_def apply_diff_map_def sorted_keys_mid)

lemma apply_update:
  assumes "eq v v" and "sorted_keys c (kept @ (k, v) # fs)"
  shows "apply_diffs_map c eq name (field_diff k (Update v w) # ds) (kept @ (k, v) # fs) = apply_diffs_map c eq name ds (kept @ (k, w) # fs)"
  using replace_at(1) [of kept k w v fs] assms by (simp add: apply_diffs_map_def apply_diff_map_def opt_eq_def sorted_keys_mid)

lemma sorted_keys_between:
  assumes "sorted_keys c (xs @ (k, v) # ys)" and "sorted_keys c (xs @ (k', v') # ys')" and "c k' k = Less"
  shows "sorted_keys c (xs @ (k', v') # (k, v) # ys)"
proof -
  have "\<forall>y \<in> set ys. c k' (fst y) = Less" using assms(1,3) less_trans by (auto simp: sorted_keys_mid)
  with assms show ?thesis by (auto simp: sorted_keys_mid [of xs "(k', v')"] sorted_keys_mid [of xs "(k, v)"])
qed

lemma apply_walk:
  fixes eq :: "'v \<Rightarrow> 'v \<Rightarrow> bool"
  assumes eq: "\<And>v. eq v v" and "set fs \<subseteq> S" and "fst ` set fs \<subseteq> K" and "fst ` set ts \<subseteq> K"
    and "sorted_keys c (kept @ fs)" and "sorted_keys c (kept @ ts)"
  shows "\<exists>r. apply_diffs_map c eq name (diff_field_sorted_iter c eq fs ts) (kept @ fs) =
      (Inr (kept @ r) :: 'f diff_error + _) \<and> list_all2 (entry_eq eq S) r ts"
  using assms(2-)
proof (induction "length fs + length ts" arbitrary: fs ts kept rule: less_induct)
  case less
  let ?go = "\<lambda>fs ts m. apply_diffs_map c eq name (diff_field_sorted_iter c eq fs ts) m :: 'f diff_error + _"
  have IH: "\<exists>r. ?go fs' ts' (kept' @ fs') = Inr (kept' @ r) \<and> list_all2 (entry_eq eq S) r ts'"
    if "length fs' + length ts' < length fs + length ts" "set fs' \<subseteq> set fs" "set ts' \<subseteq> set ts"
      "sorted_keys c (kept' @ fs')" "sorted_keys c (kept' @ ts')" for fs' ts' kept'
    using less.hyps [OF that(1) _ _ _ that(4,5)] that(2,3) less.prems(1,2,3) by blast
  have keep: "\<exists>r. ?go fs' ts' (kept @ e # fs') = Inr (kept @ r) \<and> list_all2 (entry_eq eq S) r (t # ts')"
    if a: "length fs' + length ts' < length fs + length ts" "set fs' \<subseteq> set fs" "ts = t # ts'"
      "sorted_keys c (kept @ e # fs')" "sorted_keys c (kept @ e # ts')" "entry_eq eq S e t" for e fs' ts' t
  proof -
    obtain r where "?go fs' ts' ((kept @ [e]) @ fs') = Inr ((kept @ [e]) @ r)" "list_all2 (entry_eq eq S) r ts'"
      using IH [of fs' ts' "kept @ [e]"] a by auto
    with a(6) show ?thesis by (intro exI [of _ "e # r"]) simp
  qed
  consider "fs = []" "ts = []"
    | k v ts' where "fs = []" "ts = (k, v) # ts'"
    | k v fs' where "fs = (k, v) # fs'" "ts = []"
    | k v fs' k' v' ts' where "fs = (k, v) # fs'" "ts = (k', v') # ts'"
    by (cases fs; cases ts) auto
  then show ?case
  proof cases
    case 1
    then show ?thesis by (simp add: apply_diffs_map_def)
  next
    case (2 k v ts')
    have s: "sorted_keys c (kept @ [(k, v)])" using less.prems(5) 2 sorted_keys_prefix [of "kept @ [(k, v)]" ts'] by simp
    with keep [of "[]" ts' "(k, v)" "(k, v)"] less.prems(5) 2 show ?thesis
      by (simp add: entry_eq_def apply_insert [where fs = "[]", simplified])
  next
    case (3 k v fs')
    with IH [of fs' "[]" kept] less.prems(4,5) show ?thesis
      by (auto simp: sorted_keys_mid apply_delete [where eq = eq, OF eq])
  next
    case (4 k v fs' k' v' ts')
    show ?thesis
    proof (cases "c k k'")
      case Less
      with 4 IH [of fs' ts kept] less.prems(4,5) show ?thesis
        by (auto simp: sorted_keys_mid apply_delete [where eq = eq, OF eq])
    next
      case Greater
      then have "sorted_keys c (kept @ (k', v') # fs)"
        using less.prems(4,5) 4 sorted_keys_between by (simp add: greater_less)
      with 4 Greater keep [of fs ts' "(k', v')" "(k', v')"] less.prems(5) show ?thesis
        by (simp add: entry_eq_def apply_insert)
    next
      case Equal
      then have k: "k' = k" using distinguishes less.prems(2,3) 4 by auto
      have s: "sorted_keys c (kept @ (k, v) # fs')" "sorted_keys c (kept @ (k, w) # fs')" "sorted_keys c (kept @ (k, w) # ts')" for w
        using less.prems(4,5) 4 k by (auto simp: sorted_keys_mid)
      have sub: "set fs' \<subseteq> set fs" "length fs' + length ts' < length fs + length ts" using 4 by auto
      show ?thesis
      proof (cases "eq v v'")
        case True
        then have "entry_eq eq S (k, v) (k, v')" using less.prems(1) 4 by (simp add: entry_eq_def)
        from keep [OF sub(2,1) _ s(1,3) this] 4 Equal k True show ?thesis by simp
      next
        case False
        have "entry_eq eq S (k, v') (k, v')" by (simp add: entry_eq_def)
        from keep [OF sub(2,1) _ s(2,3) this] 4 Equal k False s(1) show ?thesis
          by (simp add: apply_update [where eq = eq, OF eq])
      qed
    qed
  qed
qed

end

subsection \<open>The orders in use\<close>

lemma cmp_of_preorder: "cmp_preorder (cmp_of :: 'a :: linorder \<Rightarrow> 'a \<Rightarrow> Ordering)"
  unfolding cmp_preorder_def by (auto simp: cmp_of_def split: if_splits)

lemma cmp_of_equal [simp]: "cmp_of a b = Equal \<longleftrightarrow> a = b"
  by (simp add: cmp_of_def)

interpretation std: key_order "cmp_of :: 'a :: linorder \<Rightarrow> 'a \<Rightarrow> Ordering" UNIV
  by unfold_locales (simp_all add: cmp_of_preorder)

interpretation unit_keys: key_order unit_cmp UNIV
  by unfold_locales (auto simp: cmp_preorder_def unit_cmp_def)

lemma preorder_key_order: "cmp_preorder c \<Longrightarrow> key_order c {}"
  by (simp add: key_order_def)

lemmas preorder_flip = key_order.flip [OF preorder_key_order]
lemmas preorder_cong = key_order.equal_cong [OF preorder_key_order]
lemmas preorder_trans = key_order.not_greater_trans [OF preorder_key_order]
lemmas preorder_less = key_order.less_trans [OF preorder_key_order]

lemma cmp_preorderI:
  "\<lbrakk>\<And>a b. c b a = cmp_reverse (c a b);
    \<And>a b d. c a b \<noteq> Greater \<Longrightarrow> c b d \<noteq> Greater \<Longrightarrow> c a d \<noteq> Greater\<rbrakk> \<Longrightarrow> cmp_preorder c"
  unfolding cmp_preorder_def by blast

lemma preorder_on: "cmp_preorder c \<Longrightarrow> cmp_preorder (\<lambda>a b. c (f a) (f b))"
  unfolding cmp_preorder_def by blast

lemma lex_trans:
  assumes c: "cmp_preorder c" and "cmp_tuple [c a b, x] \<noteq> Greater" and "cmp_tuple [c b d, y] \<noteq> Greater"
    and rest: "x \<noteq> Greater \<Longrightarrow> y \<noteq> Greater \<Longrightarrow> z \<noteq> Greater"
  shows "cmp_tuple [c a d, z] \<noteq> Greater"
proof -
  consider "c a b = Equal" "c b d = Equal" "x \<noteq> Greater" "y \<noteq> Greater"
    | "c a b = Equal" "c b d = Less" | "c a b = Less" "c b d = Equal" | "c a b = Less" "c b d = Less"
    using assms(2,3) by (cases "c a b"; cases "c b d"; cases x; cases y) simp_all
  then show ?thesis
  proof cases
    case 1
    then show ?thesis using preorder_cong(1) [OF c 1(1), of d] rest by simp
  next
    case 2
    then show ?thesis using preorder_cong(1) [OF c 2(1), of d] by simp
  next
    case 3
    then show ?thesis using preorder_cong(2) [OF c 3(2), of a] by simp
  next
    case 4
    then show ?thesis using preorder_less [OF c 4] by simp
  qed
qed

lemma lex_flip:
  "cmp_preorder c \<Longrightarrow> y = cmp_reverse x \<Longrightarrow> cmp_tuple [c b a, y] = cmp_reverse (cmp_tuple [c a b, x])"
  using preorder_flip [of c b a] by (cases "c a b"; cases x) simp_all

lemma cmp_tuple_Cons: "cmp_tuple (x # xs) = cmp_tuple [x, cmp_tuple xs]"
  by simp

lemma preorder_tuple:
  assumes "\<forall>c \<in> set cs. cmp_preorder c"
  shows "cmp_preorder (\<lambda>a b. cmp_tuple (map (\<lambda>c. c a b) cs))"
  using assms
proof (induction cs)
  case Nil
  then show ?case by (simp add: cmp_preorder_def)
next
  case (Cons c cs)
  then have c: "cmp_preorder c" and IH: "cmp_preorder (\<lambda>a b. cmp_tuple (map (\<lambda>c. c a b) cs))" by simp_all
  have "cmp_preorder (\<lambda>a b. cmp_tuple [c a b, cmp_tuple (map (\<lambda>c. c a b) cs)])"
    by (rule cmp_preorderI) (rule lex_flip [OF c preorder_flip [OF IH]], rule lex_trans [OF c _ _ preorder_trans [OF IH]])
  then show ?case by (simp only: list.map cmp_tuple_Cons [of _ "map _ _"])
qed

lemma preorder_list:
  assumes c: "cmp_preorder c"
  shows "cmp_preorder (cmp_list c)"
proof (rule cmp_preorderI)
  show "cmp_list c bs as = cmp_reverse (cmp_list c as bs)" for as bs
  proof (induction as arbitrary: bs)
    case Nil
    then show ?case by (cases bs) simp_all
  next
    case (Cons a as)
    then show ?case using lex_flip [OF c, of "cmp_list c (tl bs) as" "cmp_list c as (tl bs)" "hd bs" a] by (cases bs) simp_all
  qed
  show "cmp_list c as bs \<noteq> Greater \<Longrightarrow> cmp_list c bs ds \<noteq> Greater \<Longrightarrow> cmp_list c as ds \<noteq> Greater" for as bs ds
  proof (induction as arbitrary: bs ds)
    case Nil
    then show ?case by (cases ds) auto
  next
    case (Cons a as)
    then obtain b bs' d ds' where *: "bs = b # bs'" "ds = d # ds'" by (cases bs; cases ds) auto
    with Cons show ?case
      using lex_trans [OF c, of a b "cmp_list c as bs'" d "cmp_list c bs' ds'" "cmp_list c as ds'"] by simp
  qed
qed

lemma preorder_option:
  assumes c: "cmp_preorder c"
  shows "cmp_preorder (cmp_option c)"
proof (rule cmp_preorderI)
  show "cmp_option c b a = cmp_reverse (cmp_option c a b)" for a b
    by (cases a; cases b) (auto intro: preorder_flip [OF c])
  show "cmp_option c a b \<noteq> Greater \<Longrightarrow> cmp_option c b d \<noteq> Greater \<Longrightarrow> cmp_option c a d \<noteq> Greater" for a b d
    by (cases a; cases b; cases d) (auto dest: preorder_trans [OF c])
qed

text \<open>The orders of parts and batches, from the comparison of frontiers.\<close>

lemma HollowBatchPart_preorder:
  assumes "cmp_preorder el"
  shows "cmp_preorder (HollowBatchPart_cmp el)"
proof -
  let ?cs = "[\<lambda>a b. cmp_of (hbp_key a) (hbp_key b), \<lambda>a b. cmp_of (hbp_meta a) (hbp_meta b),
    \<lambda>a b. cmp_of (hbp_encoded_size_bytes a) (hbp_encoded_size_bytes b), \<lambda>a b. cmp_of (hbp_key_lower a) (hbp_key_lower b),
    \<lambda>a b. cmp_of (hbp_structured_key_lower a) (hbp_structured_key_lower b), \<lambda>a b. cmp_of (hbp_stats a) (hbp_stats b),
    \<lambda>a b. cmp_option el (hbp_ts_rewrite a) (hbp_ts_rewrite b), \<lambda>a b. cmp_of (hbp_diffs_sum a) (hbp_diffs_sum b),
    \<lambda>a b. cmp_of (map_option BatchColumnarFormat_key (hbp_format a)) (map_option BatchColumnarFormat_key (hbp_format b)),
    \<lambda>a b. cmp_of (hbp_schema_id a) (hbp_schema_id b), \<lambda>a b. cmp_of (hbp_deprecated_schema_id a) (hbp_deprecated_schema_id b)]"
  have "cmp_preorder (\<lambda>a b. cmp_tuple (map (\<lambda>c. c a b) ?cs))"
    using assms preorder_on [OF cmp_of_preorder, of "\<lambda>a. map_option BatchColumnarFormat_key (hbp_format a)"]
    by (intro preorder_tuple) (simp add: preorder_on cmp_of_preorder preorder_option)
  then show ?thesis by (simp add: HollowBatchPart_cmp_def [abs_def])
qed

lemma BatchPart_preorder:
  assumes "cmp_preorder el"
  shows "cmp_preorder (BatchPart_cmp el)"
proof -
  let ?cs = "[\<lambda>a b. cmp_of (inline_updates a) (inline_updates b), \<lambda>a b. cmp_option el (inline_ts_rewrite a) (inline_ts_rewrite b),
    \<lambda>a b. cmp_of (inline_schema_id a) (inline_schema_id b),
    \<lambda>a b. cmp_of (inline_deprecated_schema_id a) (inline_deprecated_schema_id b)]"
  let ?c = "\<lambda>a b. cmp_tuple (map (\<lambda>c. c a b) ?cs)"
  have i: "cmp_preorder ?c"
    using assms by (intro preorder_tuple) (simp add: preorder_on cmp_of_preorder preorder_option)
  note h = HollowBatchPart_preorder [OF assms]
  show ?thesis
  proof (rule cmp_preorderI)
    show "BatchPart_cmp el b a = cmp_reverse (BatchPart_cmp el a b)" for a b
      using preorder_flip [OF i, of b a]
      by (cases a; cases b) (auto simp del: cmp_tuple.simps intro: preorder_flip [OF h])
    show "BatchPart_cmp el a b \<noteq> Greater \<Longrightarrow> BatchPart_cmp el b d \<noteq> Greater \<Longrightarrow> BatchPart_cmp el a d \<noteq> Greater" for a b d
      using preorder_trans [OF i, of a b d]
      by (cases a; cases b; cases d) (auto simp del: cmp_tuple.simps dest: preorder_trans [OF h])
  qed
qed

lemma RunPart_preorder:
  assumes "cmp_preorder el"
  shows "cmp_preorder (RunPart_cmp el)"
proof (rule cmp_preorderI)
  note h = BatchPart_preorder [OF assms]
  have r: "cmp_preorder HollowRunRef_cmp"
    unfolding HollowRunRef_cmp_def [abs_def] by (rule preorder_on [OF cmp_of_preorder])
  show "RunPart_cmp el b a = cmp_reverse (RunPart_cmp el a b)" for a b
    by (cases a; cases b) (auto intro: preorder_flip [OF h] preorder_flip [OF r])
  show "RunPart_cmp el a b \<noteq> Greater \<Longrightarrow> RunPart_cmp el b d \<noteq> Greater \<Longrightarrow> RunPart_cmp el a d \<noteq> Greater" for a b d
    by (cases a; cases b; cases d) (auto dest: preorder_trans [OF h] preorder_trans [OF r])
qed

lemma RunMeta_preorder: "cmp_preorder RunMeta_cmp"
proof -
  let ?cs = "[\<lambda>a b. cmp_of (map_option RunOrder_key (rm_order a)) (map_option RunOrder_key (rm_order b)),
    \<lambda>a b. cmp_of (rm_schema a) (rm_schema b), \<lambda>a b. cmp_of (rm_deprecated_schema a) (rm_deprecated_schema b),
    \<lambda>a b. cmp_of (rm_id a) (rm_id b), \<lambda>a b. cmp_of (rm_len a) (rm_len b), \<lambda>a b. cmp_of (rm_meta a) (rm_meta b)]"
  have "cmp_preorder (\<lambda>a b. cmp_tuple (map (\<lambda>c. c a b) ?cs))"
    using preorder_on [OF cmp_of_preorder, of "\<lambda>a. map_option RunOrder_key (rm_order a)"]
    by (intro preorder_tuple) (simp add: preorder_on cmp_of_preorder)
  then show ?thesis by (simp add: RunMeta_cmp_def [abs_def])
qed

lemma HollowBatch_preorder:
  assumes "cmp_preorder el"
  shows "cmp_preorder (HollowBatch_cmp el)"
proof -
  let ?cs = "[\<lambda>a b. el (d_lower (hb_desc a)) (d_lower (hb_desc b)), \<lambda>a b. el (d_upper (hb_desc a)) (d_upper (hb_desc b)),
    \<lambda>a b. el (d_since (hb_desc a)) (d_since (hb_desc b)), \<lambda>a b. cmp_list (RunPart_cmp el) (hb_parts a) (hb_parts b),
    \<lambda>a b. cmp_of (hb_len a) (hb_len b), \<lambda>a b. cmp_of (hb_run_splits a) (hb_run_splits b),
    \<lambda>a b. cmp_list RunMeta_cmp (hb_run_meta a) (hb_run_meta b)]"
  have "cmp_preorder (\<lambda>a b. cmp_tuple (map (\<lambda>c. c a b) ?cs))"
    using assms preorder_on [OF assms, of "\<lambda>a. d_lower (hb_desc a)"] preorder_on [OF assms, of "\<lambda>a. d_upper (hb_desc a)"]
      preorder_on [OF assms, of "\<lambda>a. d_since (hb_desc a)"]
    by (intro preorder_tuple) (simp add: preorder_on cmp_of_preorder preorder_list RunPart_preorder RunMeta_preorder)
  then show ?thesis by (simp add: HollowBatch_cmp_def [abs_def])
qed

text \<open>
  The order of references to runs only looks at their keys, which are made fresh for every run;
  batches are told apart when equal keys mean the same reference.
\<close>

definition run_refs_by_key :: "'f HollowBatch set \<Rightarrow> bool" where
  "run_refs_by_key B \<longleftrightarrow>
     (\<forall>b \<in> B. \<forall>b' \<in> B. \<forall>r r'. Many r \<in> set (hb_parts b) \<longrightarrow> Many r' \<in> set (hb_parts b') \<longrightarrow>
        hrr_key r = hrr_key r' \<longrightarrow> r = r')"

definition elements_ok :: "('f \<Rightarrow> 'f \<Rightarrow> Ordering) \<Rightarrow> bool" where
  "elements_ok el \<longleftrightarrow> cmp_preorder el \<and> (\<forall>a b. el a b = Equal \<longrightarrow> a = b)"

lemma cmp_tuple_Equal: "cmp_tuple xs = Equal \<longleftrightarrow> (\<forall>x \<in> set xs. x = Equal)"
  by (induction xs) auto

lemma cmp_option_Equal: "\<forall>a b. c a b = Equal \<longrightarrow> a = b \<Longrightarrow> cmp_option c x y = Equal \<Longrightarrow> x = y"
  by (cases x; cases y) auto

lemma cmp_list_Equal: "cmp_list c xs ys = Equal \<Longrightarrow> list_all2 (\<lambda>a b. c a b = Equal) xs ys"
  by (induction c xs ys rule: cmp_list.induct) (auto split: if_splits)

lemma BatchColumnarFormat_key_inj: "BatchColumnarFormat_key a = BatchColumnarFormat_key b \<Longrightarrow> a = b"
  by (cases a; cases b) auto

lemma RunOrder_key_inj: "RunOrder_key a = RunOrder_key b \<Longrightarrow> a = b"
  by (cases a; cases b) auto

lemma map_option_inj: "(\<And>a b. g a = g b \<Longrightarrow> a = b) \<Longrightarrow> map_option g x = map_option g y \<Longrightarrow> x = y"
  by (cases x; cases y) auto

lemma HollowBatchPart_cmp_Equal:
  assumes "elements_ok el" and "HollowBatchPart_cmp el a b = Equal"
  shows "a = b"
proof -
  have "cmp_option el x y = Equal \<Longrightarrow> x = y" for x y using assms(1) by (intro cmp_option_Equal [of el]) (auto simp: elements_ok_def)
  moreover have "map_option BatchColumnarFormat_key x = map_option BatchColumnarFormat_key y \<Longrightarrow> x = y" for x y
    by (rule map_option_inj [OF BatchColumnarFormat_key_inj])
  ultimately show ?thesis
    using assms(2) by (cases a; cases b) (simp add: HollowBatchPart_cmp_def cmp_tuple_Equal del: cmp_tuple.simps)
qed

lemma BatchPart_cmp_Equal:
  assumes "elements_ok el" and "BatchPart_cmp el a b = Equal"
  shows "a = b"
proof -
  have "cmp_option el x y = Equal \<Longrightarrow> x = y" for x y using assms(1) by (intro cmp_option_Equal [of el]) (auto simp: elements_ok_def)
  with assms HollowBatchPart_cmp_Equal [OF assms(1)] show ?thesis
    by (cases a; cases b) (auto simp add: cmp_tuple_Equal simp del: cmp_tuple.simps)
qed

lemma RunMeta_cmp_Equal:
  assumes "RunMeta_cmp a b = Equal"
  shows "a = b"
proof -
  have "map_option RunOrder_key x = map_option RunOrder_key y \<Longrightarrow> x = y" for x y
    by (rule map_option_inj [OF RunOrder_key_inj])
  then show ?thesis
    using assms by (cases a; cases b) (simp add: RunMeta_cmp_def cmp_tuple_Equal del: cmp_tuple.simps)
qed

lemma HollowBatch_cmp_Equal:
  assumes el: "elements_ok el" and refs: "run_refs_by_key B" "a \<in> B" "b \<in> B" and eq: "HollowBatch_cmp el a b = Equal"
  shows "a = b"
proof -
  have e: "el x y = Equal \<Longrightarrow> x = y" for x y using el by (simp add: elements_ok_def)
  have all: "el (d_lower (hb_desc a)) (d_lower (hb_desc b)) = Equal" "el (d_upper (hb_desc a)) (d_upper (hb_desc b)) = Equal"
    "el (d_since (hb_desc a)) (d_since (hb_desc b)) = Equal" "cmp_list (RunPart_cmp el) (hb_parts a) (hb_parts b) = Equal"
    "hb_len a = hb_len b" "hb_run_splits a = hb_run_splits b" "cmp_list RunMeta_cmp (hb_run_meta a) (hb_run_meta b) = Equal"
    using eq by (simp_all add: HollowBatch_cmp_def cmp_tuple_Equal del: cmp_tuple.simps)
  have "p = q" if "p \<in> set (hb_parts a)" "q \<in> set (hb_parts b)" "RunPart_cmp el p q = Equal" for p q
    using that refs BatchPart_cmp_Equal [OF el] unfolding run_refs_by_key_def
    by (cases p rule: RunPart.exhaust; cases q rule: RunPart.exhaust) (auto simp: HollowRunRef_cmp_def)
  then have "list_all2 (=) (hb_parts a) (hb_parts b)"
    using list.rel_mono_strong [OF cmp_list_Equal [OF all(4)]] by blast
  moreover have "list_all2 (=) (hb_run_meta a) (hb_run_meta b)"
    using cmp_list_Equal [OF all(7)] RunMeta_cmp_Equal by (auto elim: list_all2_mono)
  moreover have "hb_desc a = hb_desc b" using e [OF all(1)] e [OF all(2)] e [OF all(3)] by simp
  ultimately show ?thesis using all(5,6) by (cases a; cases b) (simp add: list.rel_eq)
qed

lemma HollowBatch_key_order:
  assumes "elements_ok el" and "run_refs_by_key B"
  shows "key_order (HollowBatch_cmp el) B"
  using assms HollowBatch_cmp_Equal [OF assms] by unfold_locales (auto simp: elements_ok_def HollowBatch_preorder)

end
