(* ===== verification/Diff_Roundtrip.thy ===== *)
theory Diff_Roundtrip
  imports State_Diff_Props
begin

section \<open>Applying the diff between two versions gives the second\<close>

text \<open>
  The diff of every field, the diff of the flat form of the trace, and the whole state. Two
  traces count as the same when they differ in vacant levels above their highest batch only,
  since those are not written down.
\<close>

subsection \<open>Single fields and maps\<close>

lemma apply_single_ok: "apply_diffs_single name (diff_field_single a b) a = Inr b"
  by (simp add: apply_diffs_single_def diff_field_single_def apply_diff_single_def)

lemma force_apply_single_ok: "force_apply_diffs_single name (diff_field_single a b) a = Inr b"
  by (simp add: force_apply_diffs_single_def diff_field_single_def force_apply_diff_single_def)

lemma apply_option_ok:
  "apply_diffs_single_option name (diff_field_sorted_iter unit_cmp (=) (option_entries a) (option_entries b)) a = Inr b"
  by (cases a; cases b)
    (simp_all add: apply_diffs_single_option_def apply_diff_single_option_def unit_cmp_def)

lemma entry_eq_same: "list_all2 (entry_eq (=) S) r ts \<longleftrightarrow> r = ts"
  by (induction r ts rule: list_induct2') (auto simp: entry_eq_def prod_eq_iff)

lemma btree_wf_sorted_keys: "btree_wf m \<Longrightarrow> sorted_keys cmp_of m"
  by (auto simp: btree_wf_def sorted_keys_def sorted_wrt_map cmp_of_def elim: sorted_wrt_mono_rel [rotated])

lemma apply_map_ok:
  assumes "btree_wf a" and "btree_wf b"
  shows "apply_map name (diff_map a b) a = (Inr b :: 'f diff_error + _)"
  using std.apply_walk [of "(=)" a "set a" b "[]" name] btree_wf_sorted_keys [OF assms(1)] btree_wf_sorted_keys [OF assms(2)]
  by (auto simp: entry_eq_same)

context key_order
begin

lemma sorted_cset_insert:
  assumes "sorted_wrt (\<lambda>a b. c a b = Less) xs"
  shows "sorted_wrt (\<lambda>a b. c a b = Less) (cset_insert c k xs)" and "set (cset_insert c k xs) \<subseteq> insert k (set xs)"
proof -
  show sub: "set (cset_insert c k xs) \<subseteq> insert k (set xs)" for xs
    by (induction xs) (auto split: Ordering.splits)
  show "sorted_wrt (\<lambda>a b. c a b = Less) (cset_insert c k xs)"
    using assms
  proof (induction xs)
    case (Cons x xs)
    show ?case
    proof (cases "c k x")
      case Less
      with Cons.prems show ?thesis by (auto intro: less_trans)
    next
      case Greater
      then have "c x k = Less" by (simp add: greater_less)
      with Cons Greater sub [of xs] show ?thesis by auto
    qed (use Cons.prems in simp)
  qed simp
qed

lemma sorted_cset_inserts:
  "sorted_wrt (\<lambda>a b. c a b = Less) xs \<Longrightarrow> sorted_wrt (\<lambda>a b. c a b = Less) (foldl (\<lambda>s k. cset_insert c k s) xs ks)"
  by (induction ks arbitrary: xs) (auto intro: sorted_cset_insert)

end

lemma flat_legacy_sorted:
  assumes "cmp_preorder el"
  shows "sorted_keys (HollowBatch_cmp el) (unit_entries (flat_legacy el t))"
  using key_order.sorted_cset_inserts [OF preorder_key_order [OF HollowBatch_preorder [OF assms]], of "[]"]
  by (simp add: flat_legacy_def sorted_keys_def sorted_wrt_map)

subsection \<open>Descriptions of parts only matter for their time ranges\<close>

definition same_range :: "'f Description \<Rightarrow> 'f Description \<Rightarrow> bool" where
  "same_range d d' \<longleftrightarrow> d_lower d = d_lower d' \<and> d_upper d = d_upper d'"

definition thin_sim :: "'f ThinSpineBatch \<Rightarrow> 'f ThinSpineBatch \<Rightarrow> bool" where
  "thin_sim a b \<longleftrightarrow>
     tsb_level a = tsb_level b \<and> tsb_desc a = tsb_desc b \<and> tsb_parts a = tsb_parts b \<and>
     list_all2 same_range (tsb_descs a) (tsb_descs b)"

definition entry_sim :: "SpineId \<times> 'f ThinSpineBatch \<Rightarrow> SpineId \<times> 'f ThinSpineBatch \<Rightarrow> bool" where
  "entry_sim e e' \<longleftrightarrow> fst e = fst e' \<and> thin_sim (snd e) (snd e')"

lemma pop_batch_cong: "rel_option same_range x y \<Longrightarrow> pop_batch i x st = pop_batch i y st"
proof (induction rule: option.rel_induct)
  case (Some d d')
  then have eqs: "d_lower d = d_lower d'" "d_upper d = d_upper d'" by (simp_all add: same_range_def)
  show ?case unfolding pop_batch_def match_empty_def option.case eqs by (rule refl)
qed simp

lemma pop_batches_cong:
  "list_all2 (rel_option same_range) ds ds' \<Longrightarrow> pop_batches (zip is ds) st = pop_batches (zip is ds') st"
proof (induction ds ds' arbitrary: "is" st rule: list_all2_induct)
  case (Cons x xs y ys)
  then show ?case using pop_batch_cong [of x y] by (cases "is") (auto split: sum.splits)
qed simp

lemma unflatten_batch_cong:
  assumes "thin_sim a b"
  shows "unflatten_batch i a st = unflatten_batch i b st"
proof -
  have eqs: "tsb_level a = tsb_level b" "tsb_desc a = tsb_desc b" "tsb_parts a = tsb_parts b"
    and len: "length (tsb_descs a) = length (tsb_descs b)"
    using assms by (auto simp: thin_sim_def dest: list_all2_lengthD)
  have "list_all2 (rel_option same_range)
      (map Some (tsb_descs a) @ replicate n None) (map Some (tsb_descs b) @ replicate n None)" for n
    using assms by (intro list_all2_appendI) (auto simp: thin_sim_def list.rel_map list_all2_conv_all_nth)
  note pop = pop_batches_cong [OF this]
  show ?thesis unfolding unflatten_batch_def Let_def eqs len pop by (rule refl)
qed

lemma unflatten_batches_cong:
  "list_all2 entry_sim es es' \<Longrightarrow> unflatten_batches es st = unflatten_batches es' st"
proof (induction es es' arbitrary: st rule: list_all2_induct)
  case (Cons x xs y ys)
  then show ?case
    using unflatten_batch_cong [of "snd x" "snd y"] by (cases x; cases y) (auto simp: entry_sim_def split: sum.splits)
qed simp

lemma unflatten_cong:
  assumes sim: "list_all2 entry_sim es es'"
  shows "unflatten (ft\<lparr>ft_spine_batches := es\<rparr>) = unflatten (ft\<lparr>ft_spine_batches := es'\<rparr>)"
proof -
  have levels: "flat_levels es = flat_levels es'"
    using sim by (auto simp: flat_levels_def entry_sim_def thin_sim_def split: list.splits)
  have ne: "(es \<noteq> []) = (es' \<noteq> [])" using sim by auto
  have ends: "flat_end es = flat_end es'"
  proof (cases "es = []")
    case False
    then have "entry_sim (last es) (last es')"
      using sim ne list_all2_lengthD [OF sim] by (simp add: last_conv_nth list_all2_conv_all_nth)
    with sim False show ?thesis by (auto simp: flat_end_def entry_sim_def thin_sim_def split: prod.splits)
  qed (use sim in simp)
  show ?thesis
  proof (cases ft)
    case (fields s l h sb m)
    show ?thesis
      unfolding fields unflatten_def Let_def FlatTrace.simps levels ne ends unflatten_batches_cong [OF sim] by (rule refl)
  qed
qed

subsection \<open>The trace\<close>

definition same_trace :: "'f Trace \<Rightarrow> 'f Trace \<Rightarrow> bool" where
  "same_trace t t' \<longleftrightarrow> Trace_trim t = Trace_trim t'"

lemma Trace_trim_idem [simp]: "Trace_trim (Trace_trim t) = Trace_trim t"
  by (simp add: Trace_trim_def trim_levels_def)

lemma levels_parts_trim:
  assumes "\<forall>m \<in> set ms. level_str s m"
  shows "levels_parts (trim_levels ms) = levels_parts ms"
proof -
  obtain k where k: "ms = trim_levels ms @ replicate k MergeState_default" using assms by (rule trim_levels_split)
  have "levels_parts (replicate k MergeState_default) = []" by (simp add: levels_parts_def)
  then show ?thesis using arg_cong [OF k, of levels_parts] by (simp add: levels_parts_def)
qed

lemma flat_form_trim:
  assumes "trace_inv t"
  shows "flat_form (Trace_trim t) (flat_legacy el (Trace_trim t)) = flat_form t (flat_legacy el t)"
  using level_lists_trim [OF trace_inv_levels(1) [OF assms]] levels_parts_trim [OF trace_inv_levels(1) [OF assms]]
  by (simp add: flat_form_def flat_legacy_def batches_parts_def Trace_trim_def Trace_since_def Let_def)

text \<open>A trace that can be written down and read back.\<close>

definition storable :: "'f :: bounded_lattice Trace \<Rightarrow> bool" where
  "storable t \<longleftrightarrow>
     trace_inv t \<and> tr_roundtrip_structure t \<and> list_all HollowBatch_wf (Trace_batches t) \<and>
     spine_len (tr_spine t) \<le> MAX_TOTAL_LEN \<and> length (sp_merging (tr_spine t)) \<le> MAX_LEVELS"

abbreviation flat_of :: "('f \<Rightarrow> 'f \<Rightarrow> Ordering) \<Rightarrow> 'f Trace \<Rightarrow> 'f FlatTrace" where
  "flat_of el t \<equiv> flat_form t (flat_legacy el t)"

lemma storable_flat:
  assumes "storable t" and "elements_ok el"
  shows "flatten el t = Some (flat_of el t)" and "unflatten (flat_of el t) = Some (Inr (Trace_trim t))"
  using assms flatten_ok [of t el] unflatten_flat_form [of t] flatten_levels_ok(1) [of t el]
  by (auto simp: storable_def elements_ok_def list_all_iff)

lemma storable_trim:
  assumes "storable t"
  shows "storable (Trace_trim t)"
proof -
  have inv: "trace_inv t" using assms by (simp add: storable_def)
  show ?thesis
    using assms Trace_trim_ok [OF inv] level_lists_trim(6) [OF trace_inv_levels(1) [OF inv]]
    by (simp add: storable_def Trace_batches_def spine_len_def) (simp add: Trace_trim_def)
qed

lemma same_trace_flat:
  assumes "trace_inv t" and "trace_inv t'" and "same_trace t t'"
  shows "flat_of el t = flat_of el t'"
  using flat_form_trim [OF assms(1), of el] flat_form_trim [OF assms(2), of el] assms(3) by (simp add: same_trace_def)

text \<open>Two versions of a trace use a spine id for the same time range.\<close>

definition same_ranges :: "'f Trace \<Rightarrow> 'f Trace \<Rightarrow> bool" where
  "same_ranges f t \<longleftrightarrow>
     (\<forall>p \<in> set (batches_parts (sp_merging (tr_spine f))). \<forall>q \<in> set (batches_parts (sp_merging (tr_spine t))).
        ihb_id p = ihb_id q \<longrightarrow> same_range (hb_desc (ihb_batch p)) (hb_desc (ihb_batch q)))"

lemma thin_desc_parts:
  "(i, e) \<in> set (thin_desc l ms) \<Longrightarrow> \<exists>ps. set ps \<subseteq> set (batches_parts ms) \<and>
     tsb_parts e = map ihb_id ps \<and> tsb_descs e = map (hb_desc \<circ> ihb_batch) ps"
proof (induction ms arbitrary: l)
  case (Cons m ms)
  then consider "(i, e) \<in> set (thin_desc (Suc l) ms)" | b where "b \<in> set (ms_batches m)" "e = thin_spine_batch l b"
    by auto
  then show ?case
  proof cases
    case 1
    from Cons.IH [OF this] show ?thesis by (auto simp: batches_parts_def)
  next
    case (2 b)
    then show ?thesis by (intro exI [of _ "sb_parts b"]) (auto simp: batches_parts_def thin_spine_batch_def)
  qed
qed simp

lemma thin_sim_of_eq:
  assumes ranges: "same_ranges f t" and e: "e \<in> set (ft_spine_batches (flat_of el f))"
    and e': "e' \<in> set (ft_spine_batches (flat_of el t))"
    and "fst e = fst e'" and eq: "ThinSpineBatch_eq (snd e) (snd e')"
  shows "entry_sim e e'"
proof -
  have f: "(fst e, snd e) \<in> set (thin_desc 0 (sp_merging (tr_spine f)))" "(fst e', snd e') \<in> set (thin_desc 0 (sp_merging (tr_spine t)))"
    using e e' by (simp_all add: flat_form_def Let_def)
  obtain ps where ps: "set ps \<subseteq> set (batches_parts (sp_merging (tr_spine f)))"
      "tsb_parts (snd e) = map ihb_id ps" "tsb_descs (snd e) = map (hb_desc \<circ> ihb_batch) ps"
    using thin_desc_parts [OF f(1)] by blast
  obtain qs where qs: "set qs \<subseteq> set (batches_parts (sp_merging (tr_spine t)))"
      "tsb_parts (snd e') = map ihb_id qs" "tsb_descs (snd e') = map (hb_desc \<circ> ihb_batch) qs"
    using thin_desc_parts [OF f(2)] by blast
  have "map ihb_id ps = map ihb_id qs" using eq ps qs by (simp add: ThinSpineBatch_eq_def)
  then have "list_all2 (=) (map ihb_id ps) (map ihb_id qs)" by (simp only: list.rel_eq)
  then have "list_all2 (\<lambda>p q. ihb_id p = ihb_id q) ps qs" by (simp only: list.rel_map)
  then have "list_all2 (\<lambda>p q. same_range (hb_desc (ihb_batch p)) (hb_desc (ihb_batch q))) ps qs"
    by (rule list.rel_mono_strong) (use ranges ps(1) qs(1) in \<open>auto simp: same_ranges_def\<close>)
  with eq ps qs assms(4) show ?thesis
    by (simp add: entry_sim_def thin_sim_def ThinSpineBatch_eq_def list.rel_map comp_def)
qed

text \<open>The part of a diff that concerns the trace.\<close>

definition trace_diff :: "('f \<Rightarrow> 'f \<Rightarrow> Ordering) \<Rightarrow> 'f Trace \<Rightarrow> 'f Trace \<Rightarrow> 'f StateDiff \<Rightarrow> bool" where
  "trace_diff el f t d \<longleftrightarrow>
     (let F = flat_of el f; T = flat_of el t in
      sd_since d = diff_field_single (Trace_since f) (Trace_since t) \<and>
      sd_legacy_batches d = diff_field_sorted_iter (HollowBatch_cmp el) (=)
        (unit_entries (ft_legacy_batches F)) (unit_entries (ft_legacy_batches T)) \<and>
      sd_hollow_batches d = diff_map (ft_hollow_batches F) (ft_hollow_batches T) \<and>
      sd_spine_batches d = diff_field_sorted_iter cmp_of ThinSpineBatch_eq (ft_spine_batches F) (ft_spine_batches T) \<and>
      sd_merges d = diff_map (ft_merges F) (ft_merges T))"

lemma flat_form_simps [simp]:
  "ft_since (flat_form t L) = Trace_since t" "ft_legacy_batches (flat_form t L) = L"
  "ft_hollow_batches (flat_form t L) = hollow_entries (batches_parts (sp_merging (tr_spine t)))"
  "ft_spine_batches (flat_form t L) = thin_desc 0 (sp_merging (tr_spine t))"
  "ft_merges (flat_form t L) = merge_desc (sp_merging (tr_spine t))"
  by (simp_all add: flat_form_def Let_def)

lemma flat_legacy_batches:
  assumes "storable t" and "elements_ok el"
  shows "set (flat_legacy el t) \<subseteq> set (Trace_batches t)"
proof -
  have "set (flat_legacy el t) = set (legacy_entries (batches_parts (sp_merging (tr_spine t))))"
    using flatten_levels_ok(1) [of t el] assms by (auto simp: storable_def elements_ok_def dest: mset_eq_setD)
  also have "\<dots> \<subseteq> set (Trace_batches t)" by (auto simp: legacy_entries_def Trace_batches_parts)
  finally show ?thesis .
qed

lemma apply_legacy_ok:
  assumes "storable f" and "storable t" and "elements_ok el"
    and "run_refs_by_key (set (Trace_batches f) \<union> set (Trace_batches t))"
  shows "apply_diffs_map (HollowBatch_cmp el) (=) name
      (diff_field_sorted_iter (HollowBatch_cmp el) (=) (unit_entries (flat_legacy el f)) (unit_entries (flat_legacy el t)))
      (unit_entries (flat_legacy el f)) = (Inr (unit_entries (flat_legacy el t)) :: 'f diff_error + _)"
proof -
  let ?fs = "unit_entries (flat_legacy el f)" and ?ts = "unit_entries (flat_legacy el t)"
  have "\<exists>r. apply_diffs_map (HollowBatch_cmp el) (=) name (diff_field_sorted_iter (HollowBatch_cmp el) (=) ?fs ?ts) ([] @ ?fs) =
      (Inr ([] @ r) :: 'f diff_error + _) \<and> list_all2 (entry_eq (=) (set ?fs)) r ?ts"
  proof (rule key_order.apply_walk [OF HollowBatch_key_order [OF assms(3,4)]])
    show "fst ` set ?fs \<subseteq> set (Trace_batches f) \<union> set (Trace_batches t)" "fst ` set ?ts \<subseteq> set (Trace_batches f) \<union> set (Trace_batches t)"
      using flat_legacy_batches [OF assms(1,3)] flat_legacy_batches [OF assms(2,3)] by auto
    show "sorted_keys (HollowBatch_cmp el) ([] @ ?fs)" "sorted_keys (HollowBatch_cmp el) ([] @ ?ts)"
      using flat_legacy_sorted [of el] assms(3) by (simp_all add: elements_ok_def)
  qed simp_all
  then show ?thesis by (auto simp: entry_eq_same)
qed

lemma apply_spine_batches_ok:
  assumes "storable f" and "storable t" and "same_ranges f t"
  shows "\<exists>es. apply_diffs_map cmp_of ThinSpineBatch_eq name
      (diff_field_sorted_iter cmp_of ThinSpineBatch_eq (thin_desc 0 (sp_merging (tr_spine f))) (thin_desc 0 (sp_merging (tr_spine t))))
      (thin_desc 0 (sp_merging (tr_spine f))) = (Inr es :: 'f diff_error + _) \<and>
    list_all2 entry_sim es (thin_desc 0 (sp_merging (tr_spine t)))"
proof -
  let ?fs = "thin_desc 0 (sp_merging (tr_spine f))" and ?ts = "thin_desc 0 (sp_merging (tr_spine t))"
  have sorted: "sorted_keys cmp_of ?fs" "sorted_keys cmp_of ?ts"
    using trace_inv_flat_wf(2) assms(1,2) by (auto simp: storable_def intro: btree_wf_sorted_keys)
  obtain es where es: "apply_diffs_map cmp_of ThinSpineBatch_eq name (diff_field_sorted_iter cmp_of ThinSpineBatch_eq ?fs ?ts) ?fs =
      (Inr es :: 'f diff_error + _)" "list_all2 (entry_eq ThinSpineBatch_eq (set ?fs)) es ?ts"
    using std.apply_walk [where eq = ThinSpineBatch_eq and fs = ?fs and ts = ?ts and S = "set ?fs" and kept = "[]" and name = name] sorted
    by (auto simp: ThinSpineBatch_eq_def)
  have "thin_sim b b" for b :: "'a ThinSpineBatch" by (simp add: thin_sim_def same_range_def list.rel_refl)
  then have "entry_sim e e'" if "e' \<in> set ?ts" "entry_eq ThinSpineBatch_eq (set ?fs) e e'" for e e'
    using that thin_sim_of_eq [OF assms(3), of e _ e'] by (auto simp: entry_eq_def entry_sim_def)
  then have "list_all2 entry_sim es ?ts" using list.rel_mono_strong [OF es(2)] by blast
  with es(1) show ?thesis by blast
qed

lemma apply_flat_ok:
  assumes f: "storable f" and t: "storable t" and el: "elements_ok el" and "same_ranges f t"
    and "run_refs_by_key (set (Trace_batches f) \<union> set (Trace_batches t))" and d: "trace_diff el f t d"
  shows "\<exists>F1 es. apply_flat_contents el d (flat_of el f) = Inr F1 \<and>
    apply_flat_structure d F1 = Inr ((flat_of el t)\<lparr>ft_spine_batches := es\<rparr>) \<and>
    list_all2 entry_sim es (ft_spine_batches (flat_of el t))"
proof -
  let ?F = "flat_of el f" and ?T = "flat_of el t"
  let ?F1 = "?F\<lparr>ft_since := Trace_since t, ft_legacy_batches := flat_legacy el t\<rparr>"
  have inv: "trace_inv f" "trace_inv t" using f t by (simp_all add: storable_def)
  note wf = trace_inv_flat_wf [OF inv(1)] trace_inv_flat_wf [OF inv(2)]
  have contents: "apply_flat_contents el d ?F = Inr ?F1"
    using d by (simp add: trace_diff_def apply_flat_contents_def apply_single_ok apply_legacy_ok [OF f t el assms(5)] Let_def comp_def)
  obtain es where es: "apply_diffs_map cmp_of ThinSpineBatch_eq ''spine_batches'' (sd_spine_batches d) (ft_spine_batches ?F) =
      (Inr es :: 'a diff_error + _)" "list_all2 entry_sim es (ft_spine_batches ?T)"
    using apply_spine_batches_ok [OF f t assms(4), where name = "''spine_batches''"] d by (auto simp: trace_diff_def Let_def)
  have "apply_flat_structure d ?F1 = Inr (?F1\<lparr>ft_hollow_batches := ft_hollow_batches ?T, ft_spine_batches := es, ft_merges := ft_merges ?T\<rparr>)"
    using d es(1) by (simp add: trace_diff_def apply_flat_structure_def apply_map_ok wf Let_def)
  also have "?F1\<lparr>ft_hollow_batches := ft_hollow_batches ?T, ft_spine_batches := es, ft_merges := ft_merges ?T\<rparr> =
      ?T\<lparr>ft_spine_batches := es\<rparr>"
    by (simp add: flat_form_def Let_def)
  finally show ?thesis using contents es(2) by blast
qed

lemma apply_flat_structure_unchanged: "structure_unchanged d \<Longrightarrow> apply_flat_structure d flat = Inr flat"
  by (simp add: structure_unchanged_def apply_flat_structure_def apply_diffs_map_def)

lemma apply_flat_contents_unchanged: "spine_unchanged d \<Longrightarrow> apply_flat_contents el d flat = Inr flat"
  by (simp add: spine_unchanged_def apply_flat_contents_def apply_diffs_single_def apply_diffs_map_def comp_def)

lemma apply_diff_trace_ok:
  assumes f: "storable f" and t: "storable t" and el: "elements_ok el" and "same_ranges f t"
    and "run_refs_by_key (set (Trace_batches f) \<union> set (Trace_batches t))" and d: "trace_diff el f t d"
    and r: "storable r" "same_trace r f"
  shows "\<exists>t'. apply_diff_trace el d r = Some (Inr t') \<and> same_trace t' t \<and> storable t'"
proof -
  obtain F1 es where F: "apply_flat_contents el d (flat_of el f) = Inr F1"
      "apply_flat_structure d F1 = Inr ((flat_of el t)\<lparr>ft_spine_batches := es\<rparr>)"
      "list_all2 entry_sim es (ft_spine_batches (flat_of el t))"
    using apply_flat_ok [OF assms(1-6)] by blast
  have un: "unflatten ((flat_of el t)\<lparr>ft_spine_batches := es\<rparr>) = Some (Inr (Trace_trim t))"
    unfolding unflatten_cong [OF F(3), of "flat_of el t"] storable_flat(2) [OF t el, symmetric]
    by (simp add: flat_form_def Let_def)
  have flat: "flatten el r = Some (flat_of el f)"
    using storable_flat(1) [OF r(1) el] same_trace_flat [of r f el] r f by (simp add: storable_def)
  have rt: "tr_roundtrip_structure r" using r(1) by (simp add: storable_def)
  show ?thesis
  proof (cases "spine_unchanged d")
    case True
    then have "flat_of el f = (flat_of el t)\<lparr>ft_spine_batches := es\<rparr>"
      using F(1,2) apply_flat_contents_unchanged [OF True] apply_flat_structure_unchanged [of d] by (simp add: spine_unchanged_def)
    then have "Trace_trim f = Trace_trim t" using un storable_flat(2) [OF f el] by simp
    with True r show ?thesis by (simp add: apply_diff_trace_def same_trace_def)
  next
    case False
    have "apply_diff_trace el d r = Some (Inr (Trace_trim t))"
    proof (cases "structure_unchanged d")
      case True
      then have "F1 = (flat_of el t)\<lparr>ft_spine_batches := es\<rparr>" using F(2) apply_flat_structure_unchanged [OF True] by simp
      with False True rt flat F(1) un show ?thesis by (simp add: apply_diff_trace_def apply_diff_contents_def)
    next
      case struct: False
      with False rt flat F(1,2) un show ?thesis by (simp add: apply_diff_trace_def apply_diff_contents_def)
    qed
    then show ?thesis using storable_trim [OF t] by (simp add: same_trace_def)
  qed
qed

end
