(* ===== verification/State_Inv.thy ===== *)
theory State_Inv
  imports State Trace_Props
begin

section \<open>The invariant of the shard state\<close>

text \<open>
  The comments of \<open>StateCollections\<close> list invariants; the ones every transition keeps are
  \<open>sc_inv\<close>: the maps are maps, no reader has fallen behind the since of the trace, no writer
  remembers an upper beyond the trace's, schema ids are consecutive, and no reader holds back
  a version that garbage collection was asked to remove.

  The interface between the transitions and the code that commits them is the locale
  \<open>transition\<close> of \<open>Apply\<close>, interpreted on the commands of the model.
\<close>

subsection \<open>Meets\<close>

lemma foldl_inf_le: "foldl inf s ss \<le> s \<and> (\<forall>x \<in> set ss. foldl inf s ss \<le> (x :: 'f :: bounded_lattice))"
proof (induction ss arbitrary: s)
  case Nil
  then show ?case by simp
next
  case (Cons y ss)
  have "foldl inf (inf s y) ss \<le> inf s y" using Cons [of "inf s y"] by simp
  then have "foldl inf (inf s y) ss \<le> s" "foldl inf (inf s y) ss \<le> y" by (simp_all add: le_inf_iff)
  with Cons [of "inf s y"] show ?case by simp
qed

lemma foldl_inf_greatest: "c \<le> s \<Longrightarrow> \<forall>x \<in> set ss. c \<le> x \<Longrightarrow> c \<le> foldl inf s (ss :: 'f :: bounded_lattice list)"
  by (induction ss arbitrary: s) auto

lemma meet_all_Some:
  assumes "meet_all ss = Some m"
  shows "x \<in> set ss \<Longrightarrow> m \<le> x" and "(\<And>x. x \<in> set ss \<Longrightarrow> c \<le> x) \<Longrightarrow> c \<le> m"
  using assms foldl_inf_le by (cases ss; force intro: foldl_inf_greatest)+

lemma meet_all_None [simp]: "meet_all ss = None \<longleftrightarrow> ss = []"
  by (cases ss) auto

subsection \<open>Maps\<close>

lemma btree_get_value: "btree_get m k = Some v \<Longrightarrow> v \<in> set (btree_values m)"
  by (force dest: map_of_SomeD)

lemma btree_insert_not_Nil [simp]: "btree_insert k v m \<noteq> []"
  by (cases "(k, v, m)" rule: btree_insert.cases) auto

text \<open>A property of all entries of a map, through the operations on maps.\<close>

definition btree_all :: "('v \<Rightarrow> bool) \<Rightarrow> ('k, 'v) btree_map \<Rightarrow> bool" where
  "btree_all P m = list_all P (btree_values m)"

lemma btree_all_Nil [simp]: "btree_all P []"
  by (simp add: btree_all_def)

lemma btree_all_insert: "btree_all P m \<Longrightarrow> P v \<Longrightarrow> btree_all P (btree_insert k v m)"
  by (induction k v m rule: btree_insert.induct) (auto simp: btree_all_def)

lemma btree_all_filter: "btree_all P m \<Longrightarrow> btree_all P (filter Q m)"
  by (auto simp: btree_all_def list_all_iff)

lemma btree_all_remove: "btree_all P m \<Longrightarrow> btree_all P (btree_remove k m)"
  by (simp add: btree_remove_def btree_all_filter)

lemma btree_all_get: "btree_all P m \<Longrightarrow> btree_get m k = Some v \<Longrightarrow> P v"
  using btree_get_value by (fastforce simp: btree_all_def list_all_iff)

lemma btree_all_mono: "btree_all P m \<Longrightarrow> (\<And>v. P v \<Longrightarrow> Q v) \<Longrightarrow> btree_all Q m"
  by (auto simp: btree_all_def list_all_iff)

subsection \<open>The invariant\<close>

definition sc_inv :: "'f :: bounded_lattice StateCollections \<Rightarrow> bool" where
  "sc_inv c \<longleftrightarrow>
     trace_inv (sc_trace c) \<and> btree_wf (sc_rollups c) \<and>
     btree_wf (sc_leased_readers c) \<and> btree_wf (sc_critical_readers c) \<and> btree_wf (sc_writers c) \<and>
     btree_keys (sc_schemas c) = [0..<length (sc_schemas c)] \<and>
     btree_all (\<lambda>r. Trace_since (sc_trace c) \<le> lr_since r \<and> sc_last_gc_req c \<le> lr_seqno r) (sc_leased_readers c) \<and>
     btree_all (\<lambda>r. Trace_since (sc_trace c) \<le> cr_since r) (sc_critical_readers c) \<and>
     btree_all (\<lambda>w. ws_most_recent_write_upper w \<le> Trace_upper (sc_trace c)) (sc_writers c)"

text \<open>What no transition takes back: the since, the upper and the registered schemas.\<close>

definition sc_advances :: "'f :: bounded_lattice StateCollections \<Rightarrow> 'f StateCollections \<Rightarrow> bool" where
  "sc_advances c c' \<longleftrightarrow>
     Trace_since (sc_trace c) \<le> Trace_since (sc_trace c') \<and> Trace_upper (sc_trace c) \<le> Trace_upper (sc_trace c') \<and>
     sc_last_gc_req c' = sc_last_gc_req c \<and> (\<exists>new. sc_schemas c' = sc_schemas c @ new)"

lemma sc_advances_refl [simp]: "sc_advances c c"
  by (simp add: sc_advances_def)

lemma reader_sinces_ge: "sc_inv c \<Longrightarrow> x \<in> set (reader_sinces c) \<Longrightarrow> Trace_since (sc_trace c) \<le> x"
  by (auto simp: sc_inv_def reader_sinces_def btree_all_def list_all_iff)

lemma Trace_downgrade_since_simps [simp]:
  "Trace_since (Trace_downgrade_since s t) = s" "Trace_upper (Trace_downgrade_since s t) = Trace_upper t"
  "Trace_batches (Trace_downgrade_since s t) = Trace_batches t"
  by (simp_all add: Trace_downgrade_since_def Trace_since_def Trace_upper_def Trace_batches_def spine_batches_def)

lemma update_since_ok:
  assumes "sc_inv c"
  shows "sc_inv (update_since c)" and "sc_advances c (update_since c)"
proof -
  have "sc_inv (update_since c) \<and> sc_advances c (update_since c)"
  proof (cases "meet_all (reader_sinces c)")
    case None
    with assms show ?thesis by (simp add: update_since_def)
  next
    case (Some since)
    have ge: "Trace_since (sc_trace c) \<le> since"
      using meet_all_Some(2) [OF Some] reader_sinces_ge [OF assms] by blast
    have "\<forall>x \<in> set (reader_sinces c). since \<le> x"
      using meet_all_Some(1) [OF Some] by blast
    with ge assms Some show ?thesis
      by (auto simp: update_since_def sc_inv_def sc_advances_def reader_sinces_def btree_all_def list_all_iff
          intro: Trace_downgrade_since_inv)
  qed
  then show "sc_inv (update_since c)" and "sc_advances c (update_since c)" by auto
qed

lemma critical_since_ge:
  "sc_inv c \<Longrightarrow> critical_since c = Some m \<Longrightarrow> Trace_since (sc_trace c) \<le> m"
  unfolding critical_since_def
  by (rule meet_all_Some(2)) (auto simp: sc_inv_def btree_all_def list_all_iff)

subsection \<open>The transitions keep the invariant\<close>

lemma add_rollup_ok:
  assumes "sc_inv c" and "add_rollup a c = (r, c')"
  shows "sc_inv c' \<and> sc_advances c c'"
  using assms
  by (auto simp: add_rollup_def sc_inv_def sc_advances_def split: option.splits if_splits prod.splits)

lemma remove_rollups_loop_wf: "remove_rollups_loop rms m = (r, m') \<Longrightarrow> btree_wf m \<Longrightarrow> btree_wf m'"
  by (induction rms m arbitrary: r m' rule: remove_rollups_loop.induct)
    (auto simp: Let_def split: prod.splits if_splits)

lemma remove_rollups_ok:
  assumes "sc_inv c" and "remove_rollups rms c = (r, c')"
  shows "sc_inv c' \<and> sc_advances c c'"
  using assms remove_rollups_loop_wf
  by (auto simp: remove_rollups_def sc_inv_def sc_advances_def Let_def split: if_splits prod.splits)

lemma register_leased_reader_ok:
  assumes "sc_inv c" and "sc_last_gc_req c \<le> seqno"
    and "register_leased_reader h i p seqno d hb crit c = Some (r, c')"
  shows "sc_inv c' \<and> sc_advances c c'"
  using assms critical_since_ge [OF assms(1)]
  by (auto simp: register_leased_reader_def sc_inv_def sc_advances_def Let_def
      intro!: btree_all_insert split: if_splits option.splits)

lemma register_critical_reader_ok:
  assumes "sc_inv c" and "register_critical_reader h i oq p c = (r, c')"
  shows "sc_inv c' \<and> sc_advances c c'"
  using assms btree_all_get [of "\<lambda>r. Trace_since (sc_trace c) \<le> cr_since r" "sc_critical_readers c" i]
  by (auto simp: register_critical_reader_def sc_inv_def sc_advances_def Let_def
      intro!: btree_all_insert split: if_splits option.splits)

lemma btree_insert_last: "btree_keys m = [0..<length m] \<Longrightarrow> btree_insert (length m) v m = m @ [(length m, v)]"
proof -
  have "btree_insert k v m = m @ [(k, v)]" if "\<forall>x \<in> set (btree_keys m). x < k" for k :: nat
    using that by (induction m) auto
  moreover assume "btree_keys m = [0..<length m]"
  ultimately show ?thesis by (metis atLeastLessThan_iff atLeastLessThan_upt)
qed

lemma add_schema_ok:
  assumes "sc_inv c"
  shows "sc_inv (c\<lparr>sc_schemas := btree_insert (length (sc_schemas c)) x (sc_schemas c)\<rparr>) \<and>
    sc_advances c (c\<lparr>sc_schemas := btree_insert (length (sc_schemas c)) x (sc_schemas c)\<rparr>)"
proof -
  have "btree_insert (length (sc_schemas c)) x (sc_schemas c) = sc_schemas c @ [(length (sc_schemas c), x)]"
    using assms by (intro btree_insert_last) (simp add: sc_inv_def)
  with assms show ?thesis by (simp add: sc_inv_def sc_advances_def)
qed

lemma register_schema_ok:
  assumes "sc_inv c" and "register_schema K V D ks vs c = Some (r, c')"
  shows "sc_inv c' \<and> sc_advances c c'"
  using assms add_schema_ok [OF assms(1)]
  by (auto simp: register_schema_def Let_def split: option.splits if_splits bind_splits prod.splits)

lemma compare_and_evolve_schema_ok:
  assumes "sc_inv c" and "compare_and_evolve_schema K V D x ks vs c = Some (r, c')"
  shows "sc_inv c' \<and> sc_advances c c'"
  using assms add_schema_ok [OF assms(1)]
  by (auto simp: compare_and_evolve_schema_def Let_def
      split: option.splits if_splits bind_splits prod.splits)

lemma sc_inv_trace:
  assumes "sc_inv c" and "trace_inv t" and "Trace_since t = Trace_since (sc_trace c)"
    and "Trace_upper (sc_trace c) \<le> Trace_upper t"
  shows "sc_inv (c\<lparr>sc_trace := t\<rparr>) \<and> sc_advances c (c\<lparr>sc_trace := t\<rparr>)"
  using assms by (auto simp: sc_inv_def sc_advances_def elim!: btree_all_mono)

lemma collections_apply_merge_res_ok:
  assumes "sc_inv c" and "\<forall>b \<in> set (spine_batches (tr_spine (sc_trace c))). res_fits res b"
    and "collections_apply_merge_res e res c = Some (r, c')"
  shows "sc_inv c' \<and> sc_advances c c'"
proof (cases "is_tombstone c")
  case True
  with assms show ?thesis by (simp add: collections_apply_merge_res_def)
next
  case False
  with assms(3) obtain q t where t: "apply_merge_res_checked e res (sc_trace c) = Some (q, t)" and c': "c' = c\<lparr>sc_trace := t\<rparr>"
    by (auto simp: collections_apply_merge_res_def split: bind_splits)
  have "trace_inv (sc_trace c)" using assms(1) by (simp add: sc_inv_def)
  from apply_merge_res_checked_inv [OF this assms(2) t] show ?thesis
    unfolding c' by (intro sc_inv_trace assms(1)) simp_all
qed

lemma spine_exert_ok:
  assumes "sc_inv c" and "fuel \<le> 2 ^ 60" and "spine_exert fuel c = Some (r, c')"
  shows "sc_inv c' \<and> sc_advances c c'"
proof -
  have "trace_inv (sc_trace c)" using assms(1) by (simp add: sc_inv_def)
  then obtain reqs did t where t: "Trace_exert fuel (sc_trace c) = Some ((reqs, did), t)" "trace_inv t"
    "Trace_since t = Trace_since (sc_trace c)" "Trace_upper t = Trace_upper (sc_trace c)"
    using assms(2) by (rule Trace_exert_ok)
  with assms(3) have "c' = c\<lparr>sc_trace := t\<rparr>" by (auto simp: spine_exert_def Let_def split: if_splits)
  with t sc_inv_trace [OF assms(1) t(2,3)] show ?thesis by simp
qed

lemma downgrade_since_ok:
  assumes inv: "sc_inv c" and "sc_last_gc_req c \<le> seqno"
    and op: "downgrade_since i seqno outst since hb c = Some (r, c')"
  shows "sc_inv c' \<and> sc_advances c c'"
proof (cases "is_tombstone c \<or> btree_get (sc_leased_readers c) i = None")
  case True
  with op inv show ?thesis by (auto simp: downgrade_since_def split: if_splits)
next
  case False
  then obtain rd where rd: "btree_get (sc_leased_readers c) i = Some rd" and nt: "\<not> is_tombstone c" by auto
  let ?old = "rd\<lparr>lr_last_heartbeat_timestamp_ms := max hb (lr_last_heartbeat_timestamp_ms rd), lr_seqno := min outst seqno\<rparr>"
  have le: "lr_seqno rd \<le> outst" using op rd nt by (auto simp: downgrade_since_def Let_def split: if_splits)
  have rd_ok: "Trace_since (sc_trace c) \<le> lr_since rd" "sc_last_gc_req c \<le> lr_seqno rd"
    using inv rd by (auto simp: sc_inv_def dest: btree_all_get)
  then have ok: "sc_inv (c\<lparr>sc_leased_readers := btree_insert i x (sc_leased_readers c)\<rparr>)"
      "sc_advances c (c\<lparr>sc_leased_readers := btree_insert i x (sc_leased_readers c)\<rparr>)"
    if "Trace_since (sc_trace c) \<le> lr_since x" "lr_seqno x = min outst seqno" for x
    using that inv assms(2) le by (auto simp: sc_inv_def sc_advances_def intro!: btree_all_insert)
  show ?thesis
  proof (cases "lr_since rd < since")
    case True
    let ?c = "c\<lparr>sc_leased_readers := btree_insert i (?old\<lparr>lr_since := since\<rparr>) (sc_leased_readers c)\<rparr>"
    have "c' = update_since ?c" using op rd nt le True by (auto simp: downgrade_since_def Let_def)
    moreover have "sc_inv ?c" "sc_advances c ?c" using True rd_ok by (auto intro!: ok)
    ultimately show ?thesis using update_since_ok [of ?c] by (auto simp: sc_advances_def)
  next
    case False
    have "c' = c\<lparr>sc_leased_readers := btree_insert i ?old (sc_leased_readers c)\<rparr>"
      using op rd nt le False by (auto simp: downgrade_since_def Let_def)
    with ok [of ?old] rd_ok show ?thesis by simp
  qed
qed

lemma compare_and_downgrade_since_ok:
  assumes inv: "sc_inv c" and op: "compare_and_downgrade_since i expected new c = Some (r, c')"
  shows "sc_inv c' \<and> sc_advances c c'"
proof -
  obtain oq since where new: "new = (oq, since)" by fastforce
  show ?thesis
  proof (cases "is_tombstone c")
    case True
    with op inv show ?thesis by (simp add: new compare_and_downgrade_since_def)
  next
    case False
    with op obtain rd where rd: "btree_get (sc_critical_readers c) i = Some rd"
      by (auto simp: new compare_and_downgrade_since_def split: bind_splits)
    have rd_ok: "Trace_since (sc_trace c) \<le> cr_since rd"
      using inv rd by (auto simp: sc_inv_def dest: btree_all_get)
    have ok: "sc_inv (c\<lparr>sc_critical_readers := btree_insert i x (sc_critical_readers c)\<rparr>)"
        "sc_advances c (c\<lparr>sc_critical_readers := btree_insert i x (sc_critical_readers c)\<rparr>)"
      if "Trace_since (sc_trace c) \<le> cr_since x" for x
      using that inv by (auto simp: sc_inv_def sc_advances_def intro!: btree_all_insert)
    consider "c' = c" | "c' = c\<lparr>sc_critical_readers := btree_insert i (rd\<lparr>cr_opaque := oq\<rparr>) (sc_critical_readers c)\<rparr>"
      | "cr_since rd \<le> since"
        "c' = update_since (c\<lparr>sc_critical_readers :=
           btree_insert i (rd\<lparr>cr_opaque := oq, cr_since := since\<rparr>) (sc_critical_readers c)\<rparr>)"
      using op rd False by (auto simp: new compare_and_downgrade_since_def Let_def split: if_splits)
    then show ?thesis
    proof cases
      case 1
      with inv show ?thesis by simp
    next
      case 2
      with ok [of "rd\<lparr>cr_opaque := oq\<rparr>"] rd_ok show ?thesis by simp
    next
      case 3
      let ?c = "c\<lparr>sc_critical_readers := btree_insert i (rd\<lparr>cr_opaque := oq, cr_since := since\<rparr>) (sc_critical_readers c)\<rparr>"
      have "sc_inv ?c" "sc_advances c ?c" using 3(1) rd_ok by (auto intro!: ok)
      with 3 update_since_ok [of ?c] show ?thesis by (auto simp: sc_advances_def)
    qed
  qed
qed

lemma expire_ok:
  assumes "sc_inv c"
  shows "expire_leased_reader i c = (r, c') \<Longrightarrow> sc_inv c' \<and> sc_advances c c'"
    and "expire_critical_reader i c = (r, c') \<Longrightarrow> sc_inv c' \<and> sc_advances c c'"
    and "expire_writer i c = (r, c') \<Longrightarrow> sc_inv c' \<and> sc_advances c c'"
  using assms
  by (auto simp: expire_leased_reader_def expire_critical_reader_def expire_writer_def sc_inv_def sc_advances_def
      intro: btree_all_remove split: if_splits)

subsection \<open>Appending\<close>

lemma Trace_update_batches:
  assumes "Trace_update f stop dflt t = Some (r, t')"
    and "\<And>b r b'. f b = Some (r, b') \<Longrightarrow> sb_parts b' = sb_parts b"
  shows "Trace_batches t' = Trace_batches t"
proof -
  obtain ms' where ms': "update_levels f stop dflt (sp_merging (tr_spine t)) = Some (r, ms')"
    and t': "t' = t\<lparr>tr_spine := (tr_spine t)\<lparr>sp_merging := ms'\<rparr>\<rparr>"
    using assms(1) by (auto simp: Trace_update_def split: bind_splits)
  have "list_all2 (level_rel (\<lambda>b b'. sb_parts b' = sb_parts b)) (sp_merging (tr_spine t)) ms'"
    by (rule update_levels_rel [OF ms']) (use assms(2) in blast)+
  then have "list_all2 (\<lambda>b b'. sb_parts b' = sb_parts b) (level_batches (sp_merging (tr_spine t))) (level_batches ms')"
    by (rule levels_rel_batches)
  then have "map sb_parts (level_batches ms') = map sb_parts (level_batches (sp_merging (tr_spine t)))"
    by (induction rule: list_all2_induct) auto
  then show ?thesis by (simp add: t' Trace_batches_def spine_batches_def)
qed

lemma claim_all_ok:
  assumes "trace_inv t" and "claim_all ms reqs t = Some t'"
  shows "trace_inv t' \<and> Trace_since t' = Trace_since t \<and> Trace_upper t' = Trace_upper t \<and>
    Trace_batches t' = Trace_batches t"
  using assms
proof (induction reqs arbitrary: t)
  case Nil
  then show ?case by simp
next
  case (Cons req reqs)
  then obtain t1 where t1: "claim_compaction (req_id req) \<lparr>ac_start_ms = ms\<rparr> t = Some t1"
    and rest: "claim_all ms reqs t1 = Some t'"
    by (auto split: bind_splits)
  have "Trace_batches t1 = Trace_batches t"
    using t1 by (auto simp: claim_compaction_def claim_body_def intro!: Trace_update_batches split: if_splits)
  with Cons.IH [OF claim_compaction_inv(1) [OF Cons.prems(1) t1] rest] claim_compaction_inv [OF Cons.prems(1) t1]
  show ?case by simp
qed

lemma claim_body_total: "claim_body i c b \<noteq> None"
  by (auto simp: claim_body_def)

lemma update_levels_total: "(\<And>b. f b \<noteq> None) \<Longrightarrow> update_levels f stop dflt ms \<noteq> None"
proof -
  assume f: "\<And>b. f b \<noteq> None"
  have "update_batches f stop dflt bs \<noteq> None" for bs
  proof (induction bs)
    case (Cons b bs)
    from f [of b] obtain r b' where "f b = Some (r, b')" by fastforce
    with Cons show ?case by auto
  qed simp
  then show ?thesis
    by (induction ms) (auto simp: Let_def split: bind_splits)
qed

lemma claim_all_total: "claim_all ms reqs t \<noteq> None"
proof (induction reqs arbitrary: t)
  case Nil
  then show ?case by simp
next
  case (Cons req reqs)
  have "claim_compaction (req_id req) \<lparr>ac_start_ms = ms\<rparr> t \<noteq> None"
    using update_levels_total [of "claim_body (req_id req) \<lparr>ac_start_ms = ms\<rparr>", OF claim_body_total]
    by (auto simp: claim_compaction_def Trace_update_def split: bind_splits)
  with Cons show ?case by auto
qed

text \<open>
  What the model asks of a batch beyond what \<open>compare_and_append\<close> checks: its frontiers are
  comparable, it was not compacted past the shard's since, the counts fit, and without parts it
  holds no updates.
\<close>

definition caa_fits :: "'f :: bounded_lattice HollowBatch \<Rightarrow> 'f StateCollections \<Rightarrow> bool" where
  "caa_fits batch c \<longleftrightarrow>
     (d_lower (hb_desc batch) \<le> d_upper (hb_desc batch) \<or> d_upper (hb_desc batch) < d_lower (hb_desc batch)) \<and>
     d_since (hb_desc batch) \<le> Trace_since (sc_trace c) \<and> hb_len batch \<le> 2 ^ 60 \<and>
     spine_len (tr_spine (sc_trace c)) + hb_len batch < 2 ^ 64 \<and>
     (HollowBatch_is_empty batch \<longrightarrow> hb_len batch = 0)"

lemma append_and_claim_ok:
  assumes inv: "trace_inv t" and lower: "d_lower (hb_desc batch) = Trace_upper t"
    and le: "d_lower (hb_desc batch) \<le> d_upper (hb_desc batch)"
    and fits: "d_since (hb_desc batch) \<le> Trace_since t" "hb_len batch \<le> 2 ^ 60" "spine_len (tr_spine t) + hb_len batch < 2 ^ 64"
    and empty: "d_upper (hb_desc batch) = d_lower (hb_desc batch) \<longrightarrow> hb_len batch = 0"
    and op: "append_and_claim e batch ms lease tok pct minv t = Some (reqs, t')"
  shows "trace_inv t'" and "Trace_since t' = Trace_since t" and "Trace_upper t' = d_upper (hb_desc batch)"
    and "filter (\<lambda>b. hb_len b \<noteq> 0) (Trace_batches t') = filter (\<lambda>b. hb_len b \<noteq> 0) (Trace_batches t @ [batch])"
proof -
  obtain reqs1 t1 where p: "(if d_upper (hb_desc batch) \<noteq> d_lower (hb_desc batch) then Trace_push_batch batch t else Some ([], t)) = Some (reqs1, t1)"
    and claims: "claim_all ms reqs t1 = Some t'"
    using op by (fastforce simp: append_and_claim_def Let_def split: bind_splits)
  have t1: "trace_inv t1 \<and> Trace_since t1 = Trace_since t \<and> Trace_upper t1 = d_upper (hb_desc batch) \<and>
    filter (\<lambda>b. hb_len b \<noteq> 0) (Trace_batches t1) = filter (\<lambda>b. hb_len b \<noteq> 0) (Trace_batches t @ [batch])"
  proof (cases "d_upper (hb_desc batch) = d_lower (hb_desc batch)")
    case True
    with p inv lower empty show ?thesis by simp
  next
    case False
    with le have "hb_fits (tr_spine t) batch"
      using lower fits by (auto simp: hb_fits_def Trace_upper_def Trace_since_def)
    with inv obtain reqs2 t2 where "Trace_push_batch batch t = Some (reqs2, t2)" "trace_inv t2"
      "Trace_since t2 = Trace_since t" "Trace_upper t2 = d_upper (hb_desc batch)"
      "filter (\<lambda>b. hb_len b \<noteq> 0) (Trace_batches t2) = filter (\<lambda>b. hb_len b \<noteq> 0) (Trace_batches t @ [batch])"
      by (rule Trace_push_batch_ok)
    with p False show ?thesis by simp
  qed
  with claim_all_ok [OF _ claims] show "trace_inv t'" and "Trace_since t' = Trace_since t"
    and "Trace_upper t' = d_upper (hb_desc batch)"
    and "filter (\<lambda>b. hb_len b \<noteq> 0) (Trace_batches t') = filter (\<lambda>b. hb_len b \<noteq> 0) (Trace_batches t @ [batch])"
    by simp_all
qed

text \<open>The writer as \<open>compare_and_append\<close> finds or creates it.\<close>

definition caa_writer :: "bytes \<Rightarrow> u64 \<Rightarrow> u64 \<Rightarrow> HandleDebugState \<Rightarrow> 'f :: bounded_lattice StateCollections \<Rightarrow> 'f WriterState" where
  "caa_writer writer_id ms lease dbg c =
     (case btree_get (sc_writers c) writer_id of
        Some w \<Rightarrow> w
      | None \<Rightarrow> \<lparr>ws_last_heartbeat_timestamp_ms = ms, ws_lease_duration_ms = lease,
          ws_most_recent_write_token = SENTINEL, ws_most_recent_write_upper = bot, ws_debug = dbg\<rparr>)"

lemma caa_Continue:
  assumes "collections_compare_and_append e batch wid ms lease tok dbg maxb pct minv c = Some (Continue reqs, c')"
  obtains t where "\<not> is_tombstone c" and "\<not> d_upper (hb_desc batch) < d_lower (hb_desc batch)"
    and "d_upper (hb_desc batch) = d_lower (hb_desc batch) \<longrightarrow> HollowBatch_is_empty batch"
    and "tok \<noteq> ws_most_recent_write_token (caa_writer wid ms lease dbg c)"
    and "d_lower (hb_desc batch) = Trace_upper (sc_trace c)"
    and "append_and_claim e batch ms lease tok pct minv (sc_trace c) = Some (reqs, t)"
    and "c' = c\<lparr>sc_writers := btree_insert wid ((caa_writer wid ms lease dbg c)\<lparr>ws_most_recent_write_token := tok,
        ws_most_recent_write_upper := d_upper (hb_desc batch),
        ws_last_heartbeat_timestamp_ms := max ms (ws_last_heartbeat_timestamp_ms (caa_writer wid ms lease dbg c))\<rparr>)
        (sc_writers c), sc_trace := t\<rparr>"
proof -
  let ?w = "caa_writer wid ms lease dbg c"
  note op = assms [unfolded collections_compare_and_append_def caa_writer_def [symmetric] Let_def]
  have 1: "\<not> is_tombstone c" using op by (rule contrapos_pn) (simp split: bind_splits)
  note op = op [unfolded if_not_P [OF 1]]
  have 2: "\<not> d_upper (hb_desc batch) < d_lower (hb_desc batch)" using op by (rule contrapos_pn) simp
  note op = op [unfolded if_not_P [OF 2]]
  have 3: "\<not> (d_upper (hb_desc batch) = d_lower (hb_desc batch) \<and> \<not> HollowBatch_is_empty batch)"
    using op by (rule contrapos_pn) simp
  note op = op [unfolded if_not_P [OF 3]]
  have 4: "tok \<noteq> ws_most_recent_write_token ?w" using op by (rule contrapos_pn) simp
  note op = op [unfolded if_not_P [OF 4]]
  have 5: "\<not> Trace_upper (sc_trace c) \<noteq> d_lower (hb_desc batch)" using op by (rule contrapos_pn) simp
  note op = op [unfolded if_not_P [OF 5]]
  from op show ?thesis using 1 2 3 4 5
    by (auto intro!: that split: if_splits bind_splits)
qed

lemma collections_compare_and_append_ok:
  assumes inv: "sc_inv c" and fits: "caa_fits batch c"
    and op: "collections_compare_and_append e batch wid ms lease tok dbg maxb pct minv c = Some (r, c')"
  shows "sc_inv c' \<and> sc_advances c c'"
proof (cases r)
  case (Continue reqs)
  let ?w = "caa_writer wid ms lease dbg c"
  obtain t where "\<not> is_tombstone c" and nless: "\<not> d_upper (hb_desc batch) < d_lower (hb_desc batch)"
    and empty: "d_upper (hb_desc batch) = d_lower (hb_desc batch) \<longrightarrow> HollowBatch_is_empty batch"
    and "tok \<noteq> ws_most_recent_write_token ?w" and lower: "d_lower (hb_desc batch) = Trace_upper (sc_trace c)"
    and app: "append_and_claim e batch ms lease tok pct minv (sc_trace c) = Some (reqs, t)"
    and c': "c' = c\<lparr>sc_writers := btree_insert wid (?w\<lparr>ws_most_recent_write_token := tok,
        ws_most_recent_write_upper := d_upper (hb_desc batch),
        ws_last_heartbeat_timestamp_ms := max ms (ws_last_heartbeat_timestamp_ms ?w)\<rparr>)
        (sc_writers c), sc_trace := t\<rparr>"
    using op unfolding Continue by (rule caa_Continue)
  have le: "d_lower (hb_desc batch) \<le> d_upper (hb_desc batch)"
    using fits nless by (auto simp: caa_fits_def)
  have ti: "trace_inv (sc_trace c)" using inv by (simp add: sc_inv_def)
  note a = append_and_claim_ok [OF ti lower le _ _ _ _ app]
  have a: "trace_inv t" "Trace_since t = Trace_since (sc_trace c)" "Trace_upper t = d_upper (hb_desc batch)"
    using fits empty by (auto intro!: a simp: caa_fits_def)
  with inv le lower show ?thesis
    by (auto simp: c' sc_inv_def sc_advances_def intro!: btree_all_insert elim!: btree_all_mono)
next
  case (Break b)
  have w: "ws_most_recent_write_upper (caa_writer wid ms lease dbg c) \<le> Trace_upper (sc_trace c)"
    using inv by (auto simp: caa_writer_def sc_inv_def split: option.splits dest: btree_all_get)
  have "c' = c \<or> c' = c\<lparr>sc_writers := btree_insert wid (caa_writer wid ms lease dbg c) (sc_writers c)\<rparr>"
    using op unfolding collections_compare_and_append_def caa_writer_def [symmetric] Let_def Break
    by (auto split: if_splits bind_splits)
  with inv w show ?thesis by (auto simp: sc_inv_def sc_advances_def intro!: btree_all_insert)
qed

end
