(* ===== verification/Tombstone.thy ===== *)
theory Tombstone
  imports State_Inv
begin

section \<open>Becoming a tombstone\<close>

text \<open>
  \<open>become_tombstone_and_shrink\<close> empties one batch of the trace at a time, then collapses the
  trace into a single empty batch. The assertion that the batch it picks is found again holds,
  and every step makes progress towards the final state.
\<close>

subsection \<open>Updating the batch a search stops at\<close>

lemma update_batches_at:
  assumes "\<forall>x \<in> set xs. \<exists>r. f x = Some (r, x) \<and> \<not> stop r" and "f b = Some (r, b')" and "stop r"
  shows "update_batches f stop dflt (xs @ b # ys) = Some (r, xs @ b' # ys)"
  using assms by (induction xs) auto

lemma update_batches_none:
  assumes "\<forall>x \<in> set xs. \<exists>r. f x = Some (r, x) \<and> \<not> stop r"
  shows "update_batches f stop dflt xs = Some (dflt, xs)"
  using assms by (induction xs) auto

lemma update_levels_at:
  assumes "level_batches ms = as @ b # cs"
    and "\<forall>x \<in> set cs. \<exists>r. f x = Some (r, x) \<and> \<not> stop r" and "f b = Some (r, b')" and "stop r" and "\<not> stop dflt"
  shows "\<exists>ms'. update_levels f stop dflt ms = Some (r, ms') \<and> level_batches ms' = as @ b' # cs"
  using assms(1,2)
proof (induction ms arbitrary: cs)
  case Nil
  then show ?case by (simp add: level_batches_def)
next
  case (Cons m ms)
  have eq: "level_batches ms @ ms_batches m = as @ b # cs"
    using Cons.prems(1) by (simp add: level_batches_def)
  then consider us where "as = level_batches ms @ us" "ms_batches m = us @ b # cs"
    | us where "level_batches ms = as @ b # us" "cs = us @ ms_batches m"
    by (auto simp: append_eq_append_conv2 append_eq_Cons_conv Cons_eq_append_conv)
  then show ?case
  proof cases
    case (1 us)
    have "update_batches f stop dflt (rev (ms_batches m)) = Some (r, rev cs @ b' # rev us)"
      using update_batches_at [of "rev cs" f stop b r b' dflt "rev us"] Cons.prems(2) assms(3,4) 1(2) by simp
    with 1 assms(4) show ?thesis by (simp add: level_batches_def)
  next
    case (2 us)
    have "update_batches f stop dflt (rev (ms_batches m)) = Some (dflt, rev (ms_batches m))"
      by (rule update_batches_none) (use Cons.prems(2) 2(2) in auto)
    moreover obtain ms' where "update_levels f stop dflt ms = Some (r, ms')" "level_batches ms' = as @ b' # us"
      using Cons.IH [OF 2(1)] Cons.prems(2) 2(2) by auto
    ultimately show ?thesis using 2 assms(5) by (simp add: level_batches_def)
  qed
qed

lemma Trace_update_at:
  assumes "spine_batches (tr_spine t) = as @ b # cs"
    and "\<forall>x \<in> set cs. \<exists>r. f x = Some (r, x) \<and> \<not> stop r" and "f b = Some (r, b')" and "stop r" and "\<not> stop dflt"
  shows "\<exists>t'. Trace_update f stop dflt t = Some (r, t') \<and> spine_batches (tr_spine t') = as @ b' # cs"
  using update_levels_at [of "sp_merging (tr_spine t)" as b cs f stop r b' dflt] assms
  by (auto simp: Trace_update_def spine_batches_def)

subsection \<open>Finding a part again\<close>

lemma find_range_from_at:
  assumes "\<forall>q \<in> set qs. d_upper (hb_desc (ihb_batch q)) \<noteq> d_upper (hb_desc (ihb_batch p))"
  shows "find_range_from (hb_desc (ihb_batch p)) n l None (qs @ p # rs) =
    (Some (n + length qs, sid_lo (ihb_id p)), Some (n + length qs, sid_hi (ihb_id p)))"
  using assms by (induction qs arbitrary: n l) (auto simp: Let_def)

lemma find_range_from_no_lower:
  assumes "\<forall>q \<in> set ps. d_lower (hb_desc (ihb_batch q)) \<noteq> d_lower desc"
  shows "fst (find_range_from desc n None u ps) = None"
  using assms by (induction ps arbitrary: n u) (auto simp: Let_def)

lemma chained_ihb_le:
  assumes "chained ihb_lo ihb_hi x ps y" and "\<forall>p \<in> set ps. ihb_proper p" and "p \<in> set ps"
  shows "snd x \<le> d_lower (hb_desc (ihb_batch p))" and "d_upper (hb_desc (ihb_batch p)) \<le> snd y"
proof -
  obtain us vs where ps: "ps = us @ p # vs" using assms(3) by (auto simp: in_set_conv_decomp)
  have "chained ihb_lo ihb_hi x us (ihb_lo p)" "chained ihb_lo ihb_hi (ihb_hi p) vs y"
    using assms(1) unfolding ps by (rule chained_around)+
  from chained_proper(1) [OF this(1)] chained_proper(1) [OF this(2)] assms(2) ps
  show "snd x \<le> d_lower (hb_desc (ihb_batch p))" and "d_upper (hb_desc (ihb_batch p)) \<le> snd y"
    by (auto simp: ihb_lo_def ihb_hi_def)
qed

lemma tombstone_replaces_part:
  assumes ok: "sb_ok b" and parts: "sb_parts b = qs @ p # rs" and ne: "hb_parts (ihb_batch p) \<noteq> []"
  shows "\<exists>r b'. maybe_replace_with_tombstone b (hb_desc (ihb_batch p)) = Some (r, b') \<and> ApplyMergeResult_applied r \<and>
    length (filter (\<lambda>q. hb_parts (ihb_batch q) \<noteq> []) (sb_parts b')) < length (filter (\<lambda>q. hb_parts (ihb_batch q) \<noteq> []) (sb_parts b))"
proof (cases "exact_match (hb_desc (ihb_batch p)) b")
  case True
  then show ?thesis
    using parts ne by (simp add: maybe_replace_with_tombstone_def HollowBatch_empty_def)
next
  case False
  let ?d = "hb_desc (ihb_batch p)"
  have chain: "chained ihb_lo ihb_hi (sb_lo b) (qs @ p # rs) (sb_hi b)" and proper: "\<forall>q \<in> set (qs @ p # rs). ihb_proper q"
    using ok parts by (auto simp: sb_ok_def)
  have less: "d_lower ?d < d_upper ?d" using proper ne by (auto simp: ihb_proper_def hb_strict_def)
  have "d_upper (hb_desc (ihb_batch q)) \<le> d_lower ?d" if "q \<in> set qs" for q
    using chained_ihb_le(2) [OF chained_around(1) [OF chain] _ that] proper by (simp add: ihb_lo_def)
  with less have "\<forall>q \<in> set qs. d_upper (hb_desc (ihb_batch q)) \<noteq> d_upper ?d" by (metis leD)
  then have find: "find_replacement_range b ?d = Some (SpineId (sid_lo (ihb_id p)) (sid_hi (ihb_id p)), (length qs, length qs + 1))"
    using find_range_from_at [of qs p 0 None rs] by (simp add: find_replacement_range_def parts)
  have "sb_len b = sum_list (map ihb_len (qs @ p # rs))" using ok parts by (simp add: sb_ok_def)
  then show ?thesis
    using False find parts ne
    by (simp add: maybe_replace_with_tombstone_def perform_subset_replacement_def HollowBatch_empty_def Let_def)
qed

lemma tombstone_skips_newer:
  assumes ok: "sb_ok b" and lower: "u \<le> sb_lower b" and less: "d_lower d < (u :: 'f :: bounded_lattice)"
  shows "maybe_replace_with_tombstone b d = Some (NotAppliedNoMatch, b)"
proof -
  have "\<not> exact_match d b" using lower less by (auto simp: exact_match_def)
  moreover have "\<forall>q \<in> set (sb_parts b). d_lower (hb_desc (ihb_batch q)) \<noteq> d_lower d"
  proof
    fix q assume "q \<in> set (sb_parts b)"
    with ok have "sb_lower b \<le> d_lower (hb_desc (ihb_batch q))"
      using chained_ihb_le(1) [of "sb_lo b" "sb_parts b" "sb_hi b" q] by (simp add: sb_ok_def sb_lo_def)
    with lower less show "d_lower (hb_desc (ihb_batch q)) \<noteq> d_lower d" by auto
  qed
  then have "find_replacement_range b d = None"
    using find_range_from_no_lower [of "sb_parts b" d 0 None]
    by (auto simp: find_replacement_range_def split: prod.splits)
  ultimately show ?thesis by (simp add: maybe_replace_with_tombstone_def)
qed

text \<open>The number of batches of a trace that refer to parts.\<close>

definition nonempty_batches :: "'f Trace \<Rightarrow> nat" where
  "nonempty_batches t = length (filter (\<lambda>b. \<not> HollowBatch_is_empty b) (Trace_batches t))"

lemma nonempty_batches_sum:
  "nonempty_batches t = (\<Sum>b \<leftarrow> spine_batches (tr_spine t). length (filter (\<lambda>q. hb_parts (ihb_batch q) \<noteq> []) (sb_parts b)))"
  by (simp add: nonempty_batches_def Trace_batches_def filter_map filter_concat length_concat comp_def HollowBatch_is_empty_def)

lemma apply_tombstone_merge_ok:
  assumes inv: "trace_inv t" and hb: "hb \<in> set (Trace_batches t)" and ne: "\<not> HollowBatch_is_empty hb"
    and since: "d_since (hb_desc hb) \<le> Trace_since t"
  obtains r t' where "apply_tombstone_merge (hb_desc hb) t = Some (r, t')" and "ApplyMergeResult_matched r"
    and "trace_inv t'" and "Trace_since t' = Trace_since t" and "Trace_upper t' = Trace_upper t"
    and "nonempty_batches t' < nonempty_batches t"
proof -
  from hb obtain b p where b: "b \<in> set (spine_batches (tr_spine t))" and p: "p \<in> set (sb_parts b)" and hbp: "hb = ihb_batch p"
    by (auto simp: Trace_batches_def)
  from b obtain as cs where sb: "spine_batches (tr_spine t) = as @ b # cs" by (auto simp: in_set_conv_decomp)
  from p obtain qs rs where parts: "sb_parts b = qs @ p # rs" by (auto simp: in_set_conv_decomp)
  have ok: "\<forall>x \<in> set (spine_batches (tr_spine t)). sb_ok x" using spine_batches_ok(1) [OF inv] by blast
  have strict: "d_lower (hb_desc hb) < d_upper (hb_desc hb)"
    using ok b p ne by (auto simp: sb_ok_def ihb_proper_def hb_strict_def HollowBatch_is_empty_def hbp)
  have ub: "d_upper (hb_desc hb) \<le> sb_upper b"
    using ok b p chained_ihb_le(2) [of "sb_lo b" "sb_parts b" "sb_hi b" p] by (simp add: sb_ok_def sb_hi_def hbp)
  have chain: "chained sb_lo sb_hi (sb_hi b) cs (sp_next_id (tr_spine t), sp_upper (tr_spine t))"
    using inv chained_around(2) [of sb_lo sb_hi "(0, bot)" as b cs] by (simp add: trace_inv_def spine_inv_def sb)
  obtain r b' where r: "maybe_replace_with_tombstone b (hb_desc hb) = Some (r, b')" "ApplyMergeResult_applied r"
    and fewer: "length (filter (\<lambda>q. hb_parts (ihb_batch q) \<noteq> []) (sb_parts b')) < length (filter (\<lambda>q. hb_parts (ihb_batch q) \<noteq> []) (sb_parts b))"
    using tombstone_replaces_part [of b qs p rs] ok b parts ne by (auto simp: HollowBatch_is_empty_def hbp)
  have newer: "\<forall>x \<in> set cs. \<exists>r. maybe_replace_with_tombstone x (hb_desc hb) = Some (r, x) \<and> \<not> ApplyMergeResult_matched r"
  proof
    fix x assume x: "x \<in> set cs"
    then obtain us vs where cs: "cs = us @ x # vs" by (auto simp: in_set_conv_decomp)
    have "chained sb_lo sb_hi (sb_hi b) us (sb_lo x)"
      using chain unfolding cs by (rule chained_around(1))
    then have "chained ihb_lo ihb_hi (sb_hi b) (concat (map sb_parts us)) (sb_lo x)"
      using ok sb cs by (intro chained_concat_parts) auto
    moreover have "\<forall>p \<in> set (concat (map sb_parts us)). ihb_proper p"
      using ok sb cs by (auto simp: sb_ok_def)
    ultimately have "snd (sb_hi b) \<le> snd (sb_lo x)" by (rule chained_proper(1))
    then have "sb_upper b \<le> sb_lower x" by (simp add: sb_hi_def sb_lo_def)
    then have "maybe_replace_with_tombstone x (hb_desc hb) = Some (NotAppliedNoMatch, x)"
      using ok sb x order_trans [OF ub]
      by (intro tombstone_skips_newer [where u = "d_upper (hb_desc hb)"] strict) auto
    then show "\<exists>r. maybe_replace_with_tombstone x (hb_desc hb) = Some (r, x) \<and> \<not> ApplyMergeResult_matched r" by simp
  qed
  obtain t' where t': "apply_tombstone_merge (hb_desc hb) t = Some (r, t')" "spine_batches (tr_spine t') = as @ b' # cs"
    using Trace_update_at [OF sb newer r(1) applied_matched [OF r(2)], of NotAppliedNoMatch]
    by (auto simp: apply_tombstone_merge_def)
  have "nonempty_batches t' < nonempty_batches t"
    using fewer by (simp add: nonempty_batches_sum sb t'(2))
  with t'(1) applied_matched [OF r(2)] apply_tombstone_merge_inv [OF inv strict since t'(1)] show ?thesis
    by (intro that) auto
qed

subsection \<open>Steps and their number\<close>

lemma push_tombstone:
  assumes "(bot :: 'f :: bounded_lattice) \<noteq> top"
  shows "\<exists>t'. Trace_push_batch (tombstone_batch :: 'f HollowBatch) (Trace_downgrade_since top Trace_default) = Some ([], t') \<and>
    Trace_batches t' = [tombstone_batch] \<and> trace_inv t' \<and> Trace_since t' = top \<and> Trace_upper t' = top"
proof -
  let ?t = "Trace_downgrade_since top Trace_default :: 'f Trace"
  have np: "trailing_zeros (next_power_of_two 0) = 0" by code_simp
  have inv: "trace_inv ?t" by (rule Trace_downgrade_since_inv [OF trace_inv_default]) simp
  have fits: "hb_fits (tr_spine ?t) tombstone_batch"
    using assms by (simp add: hb_fits_def tombstone_batch_def HollowBatch_empty_def Trace_downgrade_since_def
        Trace_default_def Spine_new_def spine_len_def spine_batches_def less_le)
  obtain reqs t' where t': "Trace_push_batch tombstone_batch ?t = Some (reqs, t')" "trace_inv t'"
    "Trace_since t' = Trace_since ?t" "Trace_upper t' = d_upper (hb_desc (tombstone_batch :: 'f HollowBatch))"
    by (rule Trace_push_batch_ok [OF inv fits])
  moreover have "reqs = [] \<and> Trace_batches t' = [tombstone_batch]"
    using t'(1) assms
    by (auto simp: Trace_push_batch_def Spine_insert_def tombstone_batch_def HollowBatch_empty_def Trace_downgrade_since_def
        Trace_default_def Spine_new_def Spine_next_id_def fuse_position_def introduce_batch_def apply_fuel_def
        roll_up_def insert_at_def push_batch_def try_push_batch_def ensure_levels_def tidy_layers_def tidy_loop.simps
        BATCHES_PER_LEVEL_def MergeState_default_def np SpineBatch_merged_def SpineBatch_is_empty_def
        remove_redundant_merge_reqs_def Trace_batches_def spine_batches_def level_batches_def Let_def split: if_splits)
  ultimately show ?thesis by (simp add: tombstone_batch_def HollowBatch_empty_def)
qed

definition shrink_measure :: "'f :: bounded_lattice StateCollections \<Rightarrow> nat" where
  "shrink_measure c =
     3 * nonempty_batches (sc_trace c) + (if length (Trace_batches (sc_trace c)) > 1 then 1 else 0) +
     (if is_tombstone c then 0 else 1)"

lemma become_tombstone_and_shrink_ok:
  fixes c :: "'f :: bounded_lattice StateCollections"
  assumes inv: "sc_inv c" and up: "Trace_upper (sc_trace c) = top" "Trace_since (sc_trace c) = top"
    and ne: "(bot :: 'f) \<noteq> top"
  obtains r c' where "become_tombstone_and_shrink c = Some (r, c')" and "sc_inv c'" and "sc_advances c c'"
    and "is_tombstone c'" and "r = Continue () \<longrightarrow> shrink_measure c' < shrink_measure c"
    and "r = Break () \<longrightarrow> c' = c \<and> is_single_empty_batch c"
proof -
  let ?c = "c\<lparr>sc_writers := [], sc_leased_readers := [], sc_critical_readers := []\<rparr>"
  have inv': "sc_inv ?c" "sc_advances c ?c" using inv by (auto simp: sc_inv_def sc_advances_def)
  have tomb: "is_tombstone ?c" using up by (simp add: is_tombstone_def)
  have with_trace: "sc_inv (?c\<lparr>sc_trace := t\<rparr>) \<and> sc_advances c (?c\<lparr>sc_trace := t\<rparr>) \<and> is_tombstone (?c\<lparr>sc_trace := t\<rparr>)"
    if "trace_inv t" "Trace_since t = top" "Trace_upper t = top" for t
    using inv that up by (auto simp: sc_inv_def sc_advances_def is_tombstone_def)
  show ?thesis
  proof (cases "find (\<lambda>b. \<not> HollowBatch_is_empty b) (Trace_batches (sc_trace c))")
    case (Some hb)
    then have hb: "hb \<in> set (Trace_batches (sc_trace c))" "\<not> HollowBatch_is_empty hb"
      by (auto simp: find_Some_iff)
    have "trace_inv (sc_trace c)" "d_since (hb_desc hb) \<le> Trace_since (sc_trace c)"
      using inv up by (auto simp: sc_inv_def)
    then obtain r t where t: "apply_tombstone_merge (hb_desc hb) (sc_trace c) = Some (r, t)" "ApplyMergeResult_matched r"
      "trace_inv t" "Trace_since t = top" "Trace_upper t = top" and less: "nonempty_batches t < nonempty_batches (sc_trace c)"
      using apply_tombstone_merge_ok [OF _ hb] up by metis
    have "become_tombstone_and_shrink c = Some (Continue (), ?c\<lparr>sc_trace := t\<rparr>)"
      using up Some t(1,2) by (simp add: become_tombstone_and_shrink_def Let_def)
    moreover have "shrink_measure (?c\<lparr>sc_trace := t\<rparr>) < shrink_measure c"
      using less with_trace [OF t(3-5)] by (simp add: shrink_measure_def)
    ultimately show ?thesis using with_trace [OF t(3-5)] by (intro that) auto
  next
    case None
    then have empty: "\<forall>b \<in> set (Trace_batches (sc_trace c)). HollowBatch_is_empty b" by (simp add: find_None_iff)
    then have zero: "nonempty_batches (sc_trace c) = 0" by (simp add: nonempty_batches_def filter_empty_conv)
    obtain t where t: "Trace_push_batch (tombstone_batch :: 'f HollowBatch) (Trace_downgrade_since top Trace_default) = Some ([], t)"
      "Trace_batches t = [tombstone_batch]" "trace_inv t" "Trace_since t = top" "Trace_upper t = top"
      using push_tombstone [OF ne] by blast
    consider "length (Trace_batches (sc_trace c)) > 1" | "length (Trace_batches (sc_trace c)) \<le> 1" "\<not> is_tombstone c"
      | "length (Trace_batches (sc_trace c)) \<le> 1" "is_tombstone c" by linarith
    then show ?thesis
    proof cases
      case 1
      have "become_tombstone_and_shrink c = Some (Continue (), ?c\<lparr>sc_trace := t\<rparr>)"
        using up None 1 t(1) by (simp add: become_tombstone_and_shrink_def Let_def)
      moreover have "shrink_measure (?c\<lparr>sc_trace := t\<rparr>) < shrink_measure c"
        using 1 zero with_trace [OF t(3-5)] t(2)
        by (simp add: shrink_measure_def nonempty_batches_def tombstone_batch_def HollowBatch_empty_def HollowBatch_is_empty_def)
      ultimately show ?thesis using with_trace [OF t(3-5)] by (intro that) auto
    next
      case 2
      have "become_tombstone_and_shrink c = Some (Continue (), ?c)"
        using up None 2 by (simp add: become_tombstone_and_shrink_def Let_def)
      moreover have "shrink_measure ?c < shrink_measure c"
        using 2 zero tomb by (simp add: shrink_measure_def)
      ultimately show ?thesis using inv' tomb by (intro that) auto
    next
      case 3
      have same: "?c = c" using 3(2) by (cases c) (simp add: is_tombstone_def)
      have "become_tombstone_and_shrink c = Some (Break (), c)"
        using up None 3 same by (simp add: become_tombstone_and_shrink_def Let_def)
      moreover have "is_single_empty_batch c" using 3 empty by (simp add: is_single_empty_batch_def list_all_iff)
      ultimately show ?thesis using inv 3 by (intro that) auto
    qed
  qed
qed

end
