(* ===== verification/Apply.thy ===== *)
theory Apply
  imports Tombstone
begin

section \<open>Committing transitions (\<open>apply.rs\<close>, \<open>machine.rs\<close>, \<open>state_versions.rs\<close>)\<close>

text \<open>
  How a command becomes the next version of a shard's state. \<open>Cmd\<close> lists the commands of
  \<open>Machine\<close>; \<open>cmd_work\<close> is the closure each of them hands to the applier;
  \<open>compute_next_state\<close> runs it on a copy of the state, expires handles, and assigns rollups
  and garbage collection.

  The four readings of the clock a command makes are the fields of \<open>clock\<close>; the dynamic
  configuration values it reads are \<open>cmd_cfg\<close>; code outside the repository that it calls is
  \<open>env\<close>.
\<close>

record clock =
  ck_work :: u64
  ck_apply :: u64
  ck_expire :: u64
  ck_now :: u64

record cmd_cfg =
  cf_hostname :: string
  cf_build_version :: semver
  cf_writer_lease_duration :: nat
  cf_inline_writes_total_max_bytes :: nat
  cf_claim_unclaimed_compactions :: bool
  cf_claim_compaction_percent :: nat
  cf_claim_compaction_min_version :: "semver option"
  cf_gc :: GcConfig
  cf_use_active_rollup :: bool
  cf_rollup_threshold :: nat
  cf_rollup_fallback_threshold_ms :: u64

record ('d, 'k, 'v) env =
  en_ext :: "'d ext"
  en_key :: "'k schema_ops"
  en_val :: "'v schema_ops"
  en_dt :: dt_ops

subsection \<open>Commands\<close>

datatype ('k, 'v, 'f) Cmd =
    Cmd_add_rollup SeqNo HollowRollup
  | Cmd_remove_rollups "(SeqNo \<times> string) list"
  | Cmd_upgrade_version
  | Cmd_register_leased_reader bytes string nat bool
  | Cmd_register_critical_reader bytes Opaque string
  | Cmd_register_schema 'k 'v
  | Cmd_spine_exert nat
  | Cmd_compare_and_append "'f HollowBatch" bytes IdempotencyToken HandleDebugState
  | Cmd_merge_res "'f FueledMergeRes"
  | Cmd_downgrade_since bytes SeqNo 'f
  | Cmd_compare_and_downgrade_since bytes Opaque Opaque 'f
  | Cmd_expire_leased_reader bytes
  | Cmd_expire_critical_reader bytes
  | Cmd_expire_writer bytes
  | Cmd_compare_and_evolve_schema nat 'k 'v
  | Cmd_become_tombstone

datatype ('k, 'v, 'f) Reply =
    R_bool bool
  | R_seqnos "SeqNo list"
  | R_version "semver + unit"
  | R_leased "'f LeasedReaderState" SeqNo
  | R_critical "'f CriticalReaderState"
  | R_schema "nat option"
  | R_merge_reqs "'f FueledMergeReq list"
  | R_append_break "'f CompareAndAppendBreak"
  | R_merge ApplyMergeResult
  | R_since 'f
  | R_cas_since "(Opaque \<times> 'f) + 'f"
  | R_evolve "('k, 'v) CaESchema"
  | R_unit

fun map_flow :: "('b \<Rightarrow> 'e) \<Rightarrow> ('c \<Rightarrow> 'r) \<Rightarrow> ('b, 'c) ControlFlow \<times> 'x \<Rightarrow> ('e, 'r) ControlFlow \<times> 'x" where
  "map_flow f g (Break b, s) = (Break (f b), s)"
| "map_flow f g (Continue r, s) = (Continue (g r), s)"

definition semver_le :: "semver \<Rightarrow> semver \<Rightarrow> bool" where
  "semver_le v w \<longleftrightarrow> \<not> semver_less w v"

definition upgrade_version ::
  "semver \<Rightarrow> 'f :: bounded_lattice StateCollections \<Rightarrow> (semver + unit, semver + unit) ControlFlow \<times> 'f StateCollections" where
  "upgrade_version build_version s =
     (if is_tombstone s then (Break (Inr ()), s)
      else if semver_le (sc_version s) build_version then (Continue (Inr ()), s\<lparr>sc_version := build_version\<rparr>)
      else (Break (Inl (sc_version s)), s))"

fun cmd_work ::
  "('d :: monoid_add, 'k, 'v) env \<Rightarrow> cmd_cfg \<Rightarrow> u64 \<Rightarrow> ('k, 'v, 'f :: bounded_lattice) Cmd
     \<Rightarrow> (('k, 'v, 'f) Reply, ('k, 'v, 'f) Reply, 'f) work_fn" where
  "cmd_work E cfg now (Cmd_add_rollup sq rollup) seqno s = Some (map_flow R_bool R_bool (add_rollup (sq, rollup) s))"
| "cmd_work E cfg now (Cmd_remove_rollups rms) seqno s = Some (map_flow R_seqnos R_seqnos (remove_rollups rms s))"
| "cmd_work E cfg now Cmd_upgrade_version seqno s =
     Some (map_flow R_version R_version (upgrade_version (cf_build_version cfg) s))"
| "cmd_work E cfg now (Cmd_register_leased_reader reader_id purp lease_duration use_critical_since) seqno s =
     map_option (map_flow (\<lambda>(r, q). R_leased r q) (\<lambda>(r, q). R_leased r q))
       (register_leased_reader (cf_hostname cfg) reader_id purp seqno lease_duration now use_critical_since s)"
| "cmd_work E cfg now (Cmd_register_critical_reader reader_id default_opaque purp) seqno s =
     Some (map_flow R_critical R_critical
       (register_critical_reader (cf_hostname cfg) reader_id default_opaque purp s))"
| "cmd_work E cfg now (Cmd_register_schema key_schema val_schema) seqno s =
     map_option (map_flow R_schema R_schema) (register_schema (en_key E) (en_val E) (en_dt E) key_schema val_schema s)"
| "cmd_work E cfg now (Cmd_spine_exert fuel) seqno s =
     map_option (map_flow R_merge_reqs R_merge_reqs) (spine_exert fuel s)"
| "cmd_work E cfg now (Cmd_compare_and_append batch writer_id idempotency_token debug_info) seqno s = do {
     assert (cf_writer_lease_duration cfg < 2 ^ 64);
     map_option (map_flow R_append_break R_merge_reqs)
       (collections_compare_and_append (en_ext E) batch writer_id now (of_nat (cf_writer_lease_duration cfg))
         idempotency_token debug_info (cf_inline_writes_total_max_bytes cfg)
         (if cf_claim_unclaimed_compactions cfg then cf_claim_compaction_percent cfg else 0)
         (cf_claim_compaction_min_version cfg) s)
   }"
| "cmd_work E cfg now (Cmd_merge_res res) seqno s =
     map_option (map_flow R_merge R_merge) (collections_apply_merge_res (en_ext E) res s)"
| "cmd_work E cfg now (Cmd_downgrade_since reader_id outstanding_seqno new_since) seqno s =
     map_option (map_flow R_since R_since) (downgrade_since reader_id seqno outstanding_seqno new_since now s)"
| "cmd_work E cfg now (Cmd_compare_and_downgrade_since reader_id expected_opaque new_opaque new_since) seqno s =
     map_option (map_flow R_cas_since R_cas_since)
       (compare_and_downgrade_since reader_id expected_opaque (new_opaque, new_since) s)"
| "cmd_work E cfg now (Cmd_expire_leased_reader reader_id) seqno s =
     Some (map_flow R_bool R_bool (expire_leased_reader reader_id s))"
| "cmd_work E cfg now (Cmd_expire_critical_reader reader_id) seqno s =
     Some (map_flow R_bool R_bool (expire_critical_reader reader_id s))"
| "cmd_work E cfg now (Cmd_expire_writer writer_id) seqno s =
     Some (map_flow R_bool R_bool (expire_writer writer_id s))"
| "cmd_work E cfg now (Cmd_compare_and_evolve_schema expected key_schema val_schema) seqno s =
     map_option (map_flow R_evolve R_evolve)
       (compare_and_evolve_schema (en_key E) (en_val E) (en_dt E) expected key_schema val_schema s)"
| "cmd_work E cfg now Cmd_become_tombstone seqno s =
     map_option (map_flow (\<lambda>_. R_unit) (\<lambda>_. R_unit)) (become_tombstone_and_shrink s)"

definition cmd_is_write :: "('k, 'v, 'f) Cmd \<Rightarrow> bool" where
  "cmd_is_write cmd = (case cmd of Cmd_compare_and_append _ _ _ _ \<Rightarrow> True | _ \<Rightarrow> False)"

definition cmd_is_rollup :: "('k, 'v, 'f) Cmd \<Rightarrow> bool" where
  "cmd_is_rollup cmd = (case cmd of Cmd_add_rollup _ _ \<Rightarrow> True | _ \<Rightarrow> False)"

definition cmd_is_become_tombstone :: "('k, 'v, 'f) Cmd \<Rightarrow> bool" where
  "cmd_is_become_tombstone cmd = (case cmd of Cmd_become_tombstone \<Rightarrow> True | _ \<Rightarrow> False)"

subsection \<open>The next version\<close>

record ('r, 'f) NextState =
  ns_state :: "'f State"
  ns_expiry_metrics :: ExpiryMetrics
  ns_garbage_collection :: "GcReq option"
  ns_write_rollup :: "SeqNo option"
  ns_work_ret :: 'r

definition set_roundtrip_structure :: "'f State \<Rightarrow> 'f State" where
  "set_roundtrip_structure s =
     s\<lparr>st_collections := (st_collections s)\<lparr>sc_trace := (st_trace s)\<lparr>tr_roundtrip_structure := True\<rparr>\<rparr>\<rparr>"

definition note_active_rollup :: "bool \<Rightarrow> u64 \<Rightarrow> SeqNo option \<Rightarrow> 'f State \<Rightarrow> 'f State" where
  "note_active_rollup use_active_rollup now write_rollup s =
     (case write_rollup of
        Some seqno \<Rightarrow>
          if use_active_rollup then
            s\<lparr>st_collections := (st_collections s)\<lparr>sc_active_rollup := Some \<lparr>arol_seqno = seqno, arol_start_ms = now\<rparr>\<rparr>\<rparr>
          else s
      | None \<Rightarrow> s)"

definition note_active_gc :: "bool \<Rightarrow> u64 \<Rightarrow> GcReq option \<Rightarrow> 'f State \<Rightarrow> 'f State" where
  "note_active_gc use_active_gc now garbage_collection s =
     (case garbage_collection of
        Some gc \<Rightarrow>
          if use_active_gc then
            s\<lparr>st_collections := (st_collections s)\<lparr>sc_active_gc :=
              Some \<lparr>agc_seqno = gcr_new_seqno_since gc, agc_start_ms = now\<rparr>\<rparr>\<rparr>
          else s
      | None \<Rightarrow> s)"

definition compute_next_state ::
  "cmd_cfg \<Rightarrow> clock \<Rightarrow> bool \<Rightarrow> bool \<Rightarrow> bool \<Rightarrow> ('e, 'r, 'f :: bounded_lattice) work_fn \<Rightarrow> 'f State
     \<Rightarrow> ((SeqNo \<times> 'e) + ('r, 'f) NextState) option" where
  "compute_next_state cfg ck is_write is_rollup is_become_tombstone work_fn s = do {
     let expected = st_seqno s;
     let was_tombstone_before = is_tombstone (st_collections s);
     flow \<leftarrow> clone_apply (ck_apply ck) (cf_hostname cfg) work_fn s;
     case flow of
       Break err \<Rightarrow> Some (Inl (expected, err))
     | Continue (work_ret, s1) \<Rightarrow> do {
         let (expiry_metrics, s2) = expire_at (ck_expire ck) s1;
         let s3 = set_roundtrip_structure s2;
         assert (\<not> (was_tombstone_before \<and> \<not> (is_rollup \<or> is_become_tombstone)));
         let now = ck_now ck;
         write_rollup \<leftarrow> need_rollup (cf_rollup_threshold cfg) (cf_use_active_rollup cfg)
           (cf_rollup_fallback_threshold_ms cfg) now s3;
         let s4 = note_active_rollup (cf_use_active_rollup cfg) now write_rollup s3;
         let (garbage_collection, s5) = maybe_gc is_write now (cf_gc cfg) s4;
         let s6 = note_active_gc (gc_use_active_gc (cf_gc cfg)) now garbage_collection s5;
         assert (SeqNo_next expected = st_seqno s6);
         Some (Inr \<lparr>ns_state = s6, ns_expiry_metrics = expiry_metrics, ns_garbage_collection = garbage_collection,
           ns_write_rollup = write_rollup, ns_work_ret = work_ret\<rparr>)
       }
   }"

definition run_cmd ::
  "('d :: monoid_add, 'k, 'v) env \<Rightarrow> cmd_cfg \<Rightarrow> clock \<Rightarrow> ('k, 'v, 'f :: bounded_lattice) Cmd \<Rightarrow> 'f State
     \<Rightarrow> ((SeqNo \<times> ('k, 'v, 'f) Reply) + (('k, 'v, 'f) Reply, 'f) NextState) option" where
  "run_cmd E cfg ck cmd s =
     compute_next_state cfg ck (cmd_is_write cmd) (cmd_is_rollup cmd) (cmd_is_become_tombstone cmd)
       (cmd_work E cfg (ck_work ck) cmd) s"

text \<open>\<open>Machine::spine_exert\<close> runs the command only when there is something to do.\<close>

definition Machine_spine_exert ::
  "('d :: monoid_add, 'k, 'v) env \<Rightarrow> cmd_cfg \<Rightarrow> clock \<Rightarrow> nat \<Rightarrow> 'f :: bounded_lattice State
     \<Rightarrow> ((SeqNo \<times> ('k, 'v, 'f) Reply) + (('k, 'v, 'f) Reply, 'f) NextState) option option" where
  "Machine_spine_exert E cfg ck fuel s =
     (if fuel = 0 \<or> length (Trace_batches (st_trace s)) < 2 then Some None
      else map_option Some (run_cmd E cfg ck (Cmd_spine_exert fuel) s))"

text \<open>
  \<open>Machine::become_tombstone\<close> repeats the command until it makes no progress; here on a shard
  without concurrent commands, with \<open>fuel\<close> bounding the repetitions and the clock readings of
  the \<open>n\<close>-th last one given.
\<close>

fun become_tombstone_loop ::
  "('d :: monoid_add, 'k, 'v) env \<Rightarrow> cmd_cfg \<Rightarrow> (nat \<Rightarrow> clock) \<Rightarrow> nat \<Rightarrow> 'f :: bounded_lattice State \<Rightarrow> 'f State option" where
  "become_tombstone_loop E cfg cks 0 s = None"
| "become_tombstone_loop E cfg cks (Suc fuel) s = do {
     res \<leftarrow> run_cmd E cfg (cks fuel) Cmd_become_tombstone s;
     case res of
       Inl _ \<Rightarrow> Some s
     | Inr ns \<Rightarrow> become_tombstone_loop E cfg cks fuel (ns_state ns)
   }"

definition become_tombstone ::
  "('d :: monoid_add, 'k, 'v) env \<Rightarrow> cmd_cfg \<Rightarrow> (nat \<Rightarrow> clock) \<Rightarrow> nat \<Rightarrow> 'f :: bounded_lattice State \<Rightarrow> (('f \<times> 'f) + 'f State) option" where
  "become_tombstone E cfg cks fuel s =
     (if Trace_since (st_trace s) = top \<and> Trace_upper (st_trace s) = top then
        map_option Inr (become_tombstone_loop E cfg cks fuel s)
      else Some (Inl (Trace_since (st_trace s), Trace_upper (st_trace s))))"

text \<open>The first version of a shard: empty but for its first rollup.\<close>

definition initial_state :: "semver \<Rightarrow> bytes \<Rightarrow> string \<Rightarrow> u64 \<Rightarrow> string \<Rightarrow> 'f :: bounded_lattice State option" where
  "initial_state build_version shard_id host now rollup_key =
     (let empty_state = State_new build_version shard_id host now;
          (r, c) = add_rollup (st_seqno empty_state, \<lparr>ro_key = rollup_key, ro_encoded_size_bytes = None\<rparr>)
            (st_collections empty_state)
      in case r of
           Continue was_applied \<Rightarrow> do { assert was_applied; Some (empty_state\<lparr>st_collections := c\<rparr>) }
         | Break _ \<Rightarrow> panic)"

subsection \<open>What committing needs of a transition\<close>

definition st_inv :: "'f :: bounded_lattice State \<Rightarrow> bool" where
  "st_inv s \<longleftrightarrow>
     sc_inv (st_collections s) \<and> sc_last_gc_req (st_collections s) \<le> st_seqno s \<and> sc_rollups (st_collections s) \<noteq> []"

text \<open>What a later version keeps of an earlier one.\<close>

definition st_advances :: "'f :: bounded_lattice State \<Rightarrow> 'f State \<Rightarrow> bool" where
  "st_advances s s' \<longleftrightarrow>
     st_shard_id s' = st_shard_id s \<and> st_seqno s < st_seqno s' \<and>
     Trace_since (st_trace s) \<le> Trace_since (st_trace s') \<and> Trace_upper (st_trace s) \<le> Trace_upper (st_trace s') \<and>
     sc_last_gc_req (st_collections s) \<le> sc_last_gc_req (st_collections s') \<and>
     (\<exists>new. sc_schemas (st_collections s') = sc_schemas (st_collections s) @ new)"

subsection \<open>Expiry and garbage collection\<close>

lemma expire_at_ok:
  assumes "expire_at w s = (m, s')" and "sc_inv (st_collections s)"
  shows "sc_inv (st_collections s')" and "sc_advances (st_collections s) (st_collections s')"
    and "sc_rollups (st_collections s') = sc_rollups (st_collections s)"
    and "st_seqno s' = st_seqno s" and "st_shard_id s' = st_shard_id s" and "st_walltime_ms s' = st_walltime_ms s"
  using assms
  by (auto simp: expire_at_def Let_def sc_inv_def sc_advances_def intro: btree_all_filter)

lemma foldl_min_le: "foldl min s ss \<le> s \<and> (\<forall>x \<in> set ss. foldl min s ss \<le> (x :: 'a :: linorder))"
proof (induction ss arbitrary: s)
  case Nil
  then show ?case by simp
next
  case (Cons y ss)
  have "foldl min (min s y) ss \<le> min s y" using Cons [of "min s y"] by simp
  then have "foldl min (min s y) ss \<le> s" "foldl min (min s y) ss \<le> y" by simp_all
  with Cons [of "min s y"] show ?case by simp
qed

lemma foldl_min_greatest: "c \<le> s \<Longrightarrow> \<forall>x \<in> set ss. c \<le> x \<Longrightarrow> c \<le> foldl min s (ss :: 'a :: linorder list)"
  by (induction ss arbitrary: s) auto

lemma seqno_since_le:
  "seqno_since s \<le> st_seqno s" "r \<in> set (btree_values (sc_leased_readers (st_collections s))) \<Longrightarrow> seqno_since s \<le> lr_seqno r"
  using foldl_min_le [of "st_seqno s" "map lr_seqno (btree_values (sc_leased_readers (st_collections s)))"]
  by (auto simp: seqno_since_def collections_seqno_since_def simp del: map_map)

lemma last_gc_req_le_seqno_since:
  assumes "sc_inv (st_collections s)" and "sc_last_gc_req (st_collections s) \<le> st_seqno s"
  shows "sc_last_gc_req (st_collections s) \<le> seqno_since s"
  unfolding seqno_since_def collections_seqno_since_def
  using assms by (intro foldl_min_greatest) (auto simp: sc_inv_def btree_all_def list_all_iff)

lemma saturating_add_ge: "a \<le> saturating_add a b"
  by (auto simp: saturating_add_def word_n1_ge word_le_nat_alt [of a "a + b"] unat_plus_if')

lemma maybe_gc_ok:
  assumes op: "maybe_gc is_write now cfg s = (req, s')" and inv: "sc_inv (st_collections s)"
    and le: "sc_last_gc_req (st_collections s) \<le> st_seqno s"
  shows "sc_inv (st_collections s')" and "sc_last_gc_req (st_collections s') \<le> st_seqno s'"
    and "sc_last_gc_req (st_collections s) \<le> sc_last_gc_req (st_collections s')"
    and "sc_rollups (st_collections s') = sc_rollups (st_collections s) \<and> st_trace s' = st_trace s \<and>
      sc_schemas (st_collections s') = sc_schemas (st_collections s) \<and>
      sc_leased_readers (st_collections s') = sc_leased_readers (st_collections s)"
    and "st_seqno s' = st_seqno s" and "st_shard_id s' = st_shard_id s" and "st_walltime_ms s' = st_walltime_ms s"
    and "req = Some q \<Longrightarrow> gcr_new_seqno_since q \<le> seqno_since s \<and> sc_last_gc_req (st_collections s') = gcr_new_seqno_since q"
proof -
  let ?c = "st_collections s"
  let ?u = "min (seqno_since s) (saturating_add (sc_last_gc_req ?c) (of_nat (gc_max_versions cfg)))"
  consider "s' = s" "req = None" | "s' = s\<lparr>st_collections := ?c\<lparr>sc_last_gc_req := ?u\<rparr>\<rparr>"
      "req = Some \<lparr>gcr_shard_id = st_shard_id s, gcr_new_seqno_since = ?u\<rparr>"
    using op unfolding maybe_gc_def Let_def by (auto split: if_split_asm)
  note cases = this
  have ge: "sc_last_gc_req ?c \<le> ?u"
    using last_gc_req_le_seqno_since [OF inv le] saturating_add_ge by simp
  have u: "?u \<le> st_seqno s" "r \<in> set (btree_values (sc_leased_readers ?c)) \<Longrightarrow> ?u \<le> lr_seqno r" for r
    using seqno_since_le(1) [of s] seqno_since_le(2) [where s = s and r = r] by (auto intro: min.coboundedI1)
  have inv': "sc_inv (?c\<lparr>sc_last_gc_req := ?u\<rparr>)"
    using inv u(2) by (auto simp: sc_inv_def btree_all_def list_all_iff)
  have "sc_inv (st_collections s') \<and> sc_last_gc_req (st_collections s') \<le> st_seqno s' \<and>
      sc_last_gc_req ?c \<le> sc_last_gc_req (st_collections s') \<and>
      sc_rollups (st_collections s') = sc_rollups ?c \<and> st_trace s' = st_trace s \<and>
      sc_schemas (st_collections s') = sc_schemas ?c \<and> sc_leased_readers (st_collections s') = sc_leased_readers ?c \<and>
      st_seqno s' = st_seqno s \<and> st_shard_id s' = st_shard_id s \<and> st_walltime_ms s' = st_walltime_ms s"
    using cases inv inv' le ge u(1) by cases auto
  then show "sc_inv (st_collections s')" "sc_last_gc_req (st_collections s') \<le> st_seqno s'"
    "sc_last_gc_req ?c \<le> sc_last_gc_req (st_collections s')"
    "sc_rollups (st_collections s') = sc_rollups ?c \<and> st_trace s' = st_trace s \<and>
      sc_schemas (st_collections s') = sc_schemas ?c \<and> sc_leased_readers (st_collections s') = sc_leased_readers ?c"
    "st_seqno s' = st_seqno s" "st_shard_id s' = st_shard_id s" "st_walltime_ms s' = st_walltime_ms s"
    by auto
  show "req = Some q \<Longrightarrow> gcr_new_seqno_since q \<le> seqno_since s \<and> sc_last_gc_req (st_collections s') = gcr_new_seqno_since q"
    using cases by cases auto
qed

subsection \<open>The interface of a transition\<close>

locale transition =
  fixes work :: "('e, 'r, 'f :: bounded_lattice) work_fn" and pre :: "'f StateCollections \<Rightarrow> bool"
  assumes keeps: "\<lbrakk>sc_inv c; sc_last_gc_req c \<le> seqno; pre c; work seqno c = Some (r, c')\<rbrakk>
      \<Longrightarrow> sc_inv c' \<and> sc_advances c c'"
    and keeps_rollup: "\<lbrakk>sc_rollups c \<noteq> []; pre c; work seqno c = Some (r, c')\<rbrakk> \<Longrightarrow> sc_rollups c' \<noteq> []"

context transition
begin

lemma clone_apply_ok:
  assumes "clone_apply now host work s = Some (Continue (ret, s'))" and inv: "st_inv s"
    and pre: "pre (st_collections s)" and top: "st_seqno s < - 1"
  shows "sc_inv (st_collections s')" and "sc_advances (st_collections s) (st_collections s')"
    and "sc_rollups (st_collections s') \<noteq> []" and "st_seqno s' = st_seqno s + 1" and "st_seqno s < st_seqno s'"
    and "st_shard_id s' = st_shard_id s" and "st_walltime_ms s = - 1 \<or> st_walltime_ms s < st_walltime_ms s'"
proof -
  obtain c' where w: "work (SeqNo_next (st_seqno s)) (st_collections s) = Some (Continue ret, c')"
    and s': "st_shard_id s' = st_shard_id s" "st_seqno s' = SeqNo_next (st_seqno s)" "st_collections s' = c'"
      "st_walltime_ms s' = (if now \<le> st_walltime_ms s then st_walltime_ms s + 1 else now)"
    using assms(1) by (auto simp: clone_apply_def Let_def split: bind_splits ControlFlow.splits)
  have seqno: "st_seqno s < SeqNo_next (st_seqno s)"
    using top u64_less_succ [of "st_seqno s"] by (auto simp: SeqNo_next_def)
  then have le: "sc_last_gc_req (st_collections s) \<le> SeqNo_next (st_seqno s)"
    using inv by (auto simp: st_inv_def)
  have "sc_inv (st_collections s)" "sc_rollups (st_collections s) \<noteq> []" using inv by (simp_all add: st_inv_def)
  then show "sc_inv (st_collections s')" and "sc_advances (st_collections s) (st_collections s')"
    and "sc_rollups (st_collections s') \<noteq> []"
    using keeps [OF _ le pre w] keeps_rollup [OF _ pre w] s' by simp_all
  show "st_seqno s' = st_seqno s + 1" "st_seqno s < st_seqno s'" "st_shard_id s' = st_shard_id s"
    using s' seqno by (simp_all add: SeqNo_next_def)
  show "st_walltime_ms s = - 1 \<or> st_walltime_ms s < st_walltime_ms s'"
    using s'(4) u64_less_succ [of "st_walltime_ms s"] by auto
qed

lemma compute_next_state_ok:
  assumes op: "compute_next_state cfg ck is_write is_rollup is_tomb work s = Some (Inr ns)" and inv: "st_inv s"
    and pre: "pre (st_collections s)" and top: "st_seqno s < - 1"
  shows "st_inv (ns_state ns)" and "st_advances s (ns_state ns)"
    and "st_walltime_ms s = - 1 \<or> st_walltime_ms s < st_walltime_ms (ns_state ns)"
    and "ns_garbage_collection ns = Some q \<Longrightarrow>
      gcr_new_seqno_since q \<le> seqno_since (ns_state ns) \<and> sc_last_gc_req (st_collections (ns_state ns)) = gcr_new_seqno_since q"
proof -
  obtain s1 m s2 wr gc s5 where s1: "clone_apply (ck_apply ck) (cf_hostname cfg) work s = Some (Continue (ns_work_ret ns, s1))"
    and s2: "expire_at (ck_expire ck) s1 = (m, s2)"
    and s5: "maybe_gc is_write (ck_now ck) (cf_gc cfg)
        (note_active_rollup (cf_use_active_rollup cfg) (ck_now ck) wr (set_roundtrip_structure s2)) = (gc, s5)"
    and ns: "ns_state ns = note_active_gc (gc_use_active_gc (cf_gc cfg)) (ck_now ck) gc s5" "ns_garbage_collection ns = gc"
    using op by (fastforce simp: compute_next_state_def Let_def split: bind_splits ControlFlow.splits prod.splits if_splits)
  let ?s4 = "note_active_rollup (cf_use_active_rollup cfg) (ck_now ck) wr (set_roundtrip_structure s2)"
  note c1 = clone_apply_ok [OF s1 inv pre top] and c2 = expire_at_ok [OF s2]
  have c4: "sc_inv (st_collections ?s4)" "sc_advances (st_collections s) (st_collections ?s4)"
      "sc_rollups (st_collections ?s4) \<noteq> []" "st_seqno ?s4 = st_seqno s1" "st_shard_id ?s4 = st_shard_id s1"
      "st_walltime_ms ?s4 = st_walltime_ms s1"
    using c1 c2
    by (auto simp: note_active_rollup_def set_roundtrip_structure_def sc_inv_def sc_advances_def trace_inv_def
        Trace_since_def Trace_upper_def split: option.splits)
  have "sc_last_gc_req (st_collections ?s4) \<le> st_seqno ?s4"
    using c4(2,4) c1(5) inv by (auto simp: sc_advances_def st_inv_def)
  note c5 = maybe_gc_ok [OF s5 c4(1) this]
  have s6: "st_seqno (ns_state ns) = st_seqno s5" "st_shard_id (ns_state ns) = st_shard_id s5" "st_walltime_ms (ns_state ns) = st_walltime_ms s5"
    "\<exists>a. st_collections (ns_state ns) = (st_collections s5)\<lparr>sc_active_gc := a\<rparr>"
    by (auto simp: ns note_active_gc_def split: option.splits intro: exI [of _ "sc_active_gc (st_collections s5)"])
  show "st_inv (ns_state ns)"
    using c5(1,2,4) c4(3) s6 by (auto simp: st_inv_def sc_inv_def)
  show "st_advances s (ns_state ns)"
    using c5(3-7) c4(2,4-6) c1(4-7) s6 inv by (auto simp: st_advances_def sc_advances_def)
  show "st_walltime_ms s = - 1 \<or> st_walltime_ms s < st_walltime_ms (ns_state ns)"
    using c5(7) c4(6) c1(7) s6 by simp
  show "ns_garbage_collection ns = Some q \<Longrightarrow>
      gcr_new_seqno_since q \<le> seqno_since (ns_state ns) \<and> sc_last_gc_req (st_collections (ns_state ns)) = gcr_new_seqno_since q"
    using c5(8) [of q] c5(4,5) s6 ns(2) by (auto simp: seqno_since_def collections_seqno_since_def)
qed

end

subsection \<open>The commands are transitions\<close>

text \<open>
  What the model asks of the arguments of a command: bounds that keep counts in range, the
  conditions on batches and compaction results, and that garbage collection leaves a rollup.
\<close>

fun cmd_pre :: "cmd_cfg \<Rightarrow> ('k, 'v, 'f :: bounded_lattice) Cmd \<Rightarrow> 'f StateCollections \<Rightarrow> bool" where
  "cmd_pre cfg (Cmd_remove_rollups rms) c = (\<not> set (btree_keys (sc_rollups c)) \<subseteq> fst ` set rms)"
| "cmd_pre cfg (Cmd_register_leased_reader _ _ lease_duration _) c = (lease_duration < 2 ^ 64)"
| "cmd_pre cfg (Cmd_spine_exert fuel) c = (fuel \<le> 2 ^ 60)"
| "cmd_pre cfg (Cmd_compare_and_append batch _ _ _) c = (caa_fits batch c \<and> cf_writer_lease_duration cfg < 2 ^ 64)"
| "cmd_pre cfg (Cmd_merge_res res) c = (\<forall>b \<in> set (spine_batches (tr_spine (sc_trace c))). res_fits res b)"
| "cmd_pre cfg Cmd_become_tombstone c = ((bot :: 'f) \<noteq> top)"
| "cmd_pre cfg _ c = True"

lemma map_flow_conv: "map_flow f g x = (r, c') \<Longrightarrow> \<exists>r'. x = (r', c')"
  by (cases "(f, g, x)" rule: map_flow.cases) auto

lemma upgrade_version_ok:
  assumes "sc_inv c" and "upgrade_version v c = (r, c')"
  shows "sc_inv c' \<and> sc_advances c c'"
  using assms by (auto simp: upgrade_version_def sc_inv_def sc_advances_def split: if_splits)

lemma become_tombstone_inv:
  fixes c :: "'f :: bounded_lattice StateCollections"
  assumes "sc_inv c" and "(bot :: 'f) \<noteq> top" and op: "become_tombstone_and_shrink c = Some (r, c')"
  shows "sc_inv c' \<and> sc_advances c c'"
proof -
  have "Trace_upper (sc_trace c) = top" "Trace_since (sc_trace c) = top"
    using op by (auto simp: become_tombstone_and_shrink_def split: if_splits)
  with assms show ?thesis by (metis become_tombstone_and_shrink_ok option.inject prod.inject)
qed

lemma cmd_work_keeps:
  assumes inv: "sc_inv c" "sc_last_gc_req c \<le> seqno" "cmd_pre cfg cmd c" and op: "cmd_work E cfg now cmd seqno c = Some (r, c')"
  shows "sc_inv c' \<and> sc_advances c c'"
proof (cases cmd)
  case (Cmd_add_rollup x1 x2)
  with op show ?thesis by (auto dest: map_flow_conv add_rollup_ok [OF inv(1)])
next
  case (Cmd_remove_rollups x)
  with op show ?thesis by (auto dest: map_flow_conv remove_rollups_ok [OF inv(1)])
next
  case Cmd_upgrade_version
  with op show ?thesis by (auto dest: map_flow_conv upgrade_version_ok [OF inv(1)])
next
  case (Cmd_register_leased_reader x1 x2 x3 x4)
  with op show ?thesis by (auto dest!: map_flow_conv register_leased_reader_ok [OF inv(1,2)])
next
  case (Cmd_register_critical_reader x1 x2 x3)
  with op show ?thesis by (auto dest: map_flow_conv register_critical_reader_ok [OF inv(1)])
next
  case (Cmd_register_schema x1 x2)
  with op show ?thesis by (auto dest!: map_flow_conv register_schema_ok [OF inv(1)])
next
  case (Cmd_spine_exert x)
  with op obtain r' where "spine_exert x c = Some (r', c')" by (auto dest: map_flow_conv)
  from spine_exert_ok [OF inv(1) _ this] inv(3) Cmd_spine_exert show ?thesis by simp
next
  case (Cmd_compare_and_append x1 x2 x3 x4)
  with op inv(3) show ?thesis
    by (auto dest!: map_flow_conv collections_compare_and_append_ok [OF inv(1), of x1] split: if_splits)
next
  case (Cmd_merge_res x)
  with op inv(3) show ?thesis by (auto dest!: map_flow_conv collections_apply_merge_res_ok [OF inv(1), of x])
next
  case (Cmd_downgrade_since x1 x2 x3)
  with op show ?thesis by (auto dest!: map_flow_conv downgrade_since_ok [OF inv(1,2)])
next
  case (Cmd_compare_and_downgrade_since x1 x2 x3 x4)
  with op show ?thesis by (auto dest!: map_flow_conv compare_and_downgrade_since_ok [OF inv(1)])
next
  case (Cmd_expire_leased_reader x)
  with op show ?thesis by (auto dest: map_flow_conv expire_ok(1) [OF inv(1)])
next
  case (Cmd_expire_critical_reader x)
  with op show ?thesis by (auto dest: map_flow_conv expire_ok(2) [OF inv(1)])
next
  case (Cmd_expire_writer x)
  with op show ?thesis by (auto dest: map_flow_conv expire_ok(3) [OF inv(1)])
next
  case (Cmd_compare_and_evolve_schema x1 x2 x3)
  with op show ?thesis by (auto dest!: map_flow_conv compare_and_evolve_schema_ok [OF inv(1)])
next
  case Cmd_become_tombstone
  with op inv(3) show ?thesis by (auto dest!: map_flow_conv become_tombstone_inv [OF inv(1)])
qed

text \<open>Only the commands on rollups change them.\<close>

lemma update_since_rollups [simp]: "sc_rollups (update_since c) = sc_rollups c"
  by (simp add: update_since_def split: option.splits)

lemma caa_rollups:
  assumes "collections_compare_and_append e batch wid ms lease tok dbg maxb pct minv c = Some (r, c')"
  shows "sc_rollups c' = sc_rollups c"
proof (cases r)
  case (Continue reqs)
  from assms [unfolded Continue] show ?thesis by (rule caa_Continue) simp
next
  case (Break b)
  with assms show ?thesis
    unfolding collections_compare_and_append_def Let_def by (auto split: if_splits bind_splits)
qed

lemma other_rollups:
  "register_leased_reader h i p q l n cr c = Some (x1, c') \<Longrightarrow> sc_rollups c' = sc_rollups c"
  "register_critical_reader h i oq p c = (x2, c') \<Longrightarrow> sc_rollups c' = sc_rollups c"
  "register_schema K V D ks vs c = Some (x3, c') \<Longrightarrow> sc_rollups c' = sc_rollups c"
  "compare_and_evolve_schema K V D x ks vs c = Some (x4, c') \<Longrightarrow> sc_rollups c' = sc_rollups c"
  "spine_exert f c = Some (x5, c') \<Longrightarrow> sc_rollups c' = sc_rollups c"
  "collections_apply_merge_res e res c = Some (x6, c') \<Longrightarrow> sc_rollups c' = sc_rollups c"
  "downgrade_since i q oq' s n c = Some (x7, c') \<Longrightarrow> sc_rollups c' = sc_rollups c"
  "compare_and_downgrade_since i oq ns c = Some (x8, c') \<Longrightarrow> sc_rollups c' = sc_rollups c"
  "become_tombstone_and_shrink c = Some (x9, c') \<Longrightarrow> sc_rollups c' = sc_rollups c"
  by (auto simp: register_leased_reader_def register_critical_reader_def register_schema_def
      compare_and_evolve_schema_def spine_exert_def collections_apply_merge_res_def downgrade_since_def
      compare_and_downgrade_since_def become_tombstone_and_shrink_def Let_def
      split: if_splits option.splits bind_splits prod.splits)

lemma btree_remove_loop_keys:
  "remove_rollups_loop rms m = (r, m') \<Longrightarrow> m' = filter (\<lambda>e. fst e \<notin> fst ` set rms) m"
  by (induction rms m arbitrary: r m' rule: remove_rollups_loop.induct)
    (auto simp: Let_def btree_remove_def split: prod.splits intro!: filter_cong)

lemma cmd_work_rollups:
  assumes ne: "sc_rollups c \<noteq> []" and pre: "cmd_pre cfg cmd c" and op: "cmd_work E cfg now cmd seqno c = Some (r, c')"
  shows "sc_rollups c' \<noteq> []"
proof (cases cmd)
  case (Cmd_add_rollup x1 x2)
  with op ne show ?thesis
    by (auto dest!: map_flow_conv simp: add_rollup_def split: option.splits if_splits list.splits)
next
  case (Cmd_remove_rollups rms)
  then have "filter (\<lambda>e. fst e \<notin> fst ` set rms) (sc_rollups c) \<noteq> []"
    using pre by (auto simp: filter_empty_conv)
  with op ne Cmd_remove_rollups show ?thesis
    by (auto dest!: map_flow_conv simp: remove_rollups_def Let_def dest: btree_remove_loop_keys split: if_splits prod.splits)
next
  case (Cmd_compare_and_append x1 x2 x3 x4)
  with op ne show ?thesis by (auto dest!: map_flow_conv caa_rollups split: if_splits)
qed (use op ne in \<open>auto dest!: map_flow_conv other_rollups
    simp: upgrade_version_def expire_leased_reader_def expire_critical_reader_def expire_writer_def split: if_splits\<close>)

interpretation cmd: transition "cmd_work E cfg now cmd" "cmd_pre cfg cmd" for E cfg now cmd
  by unfold_locales (erule (3) cmd_work_keeps, erule (2) cmd_work_rollups)

subsection \<open>Transitions that know about tombstones\<close>

text \<open>
  \<open>compute_next_state\<close> panics when a transition other than the two exceptions commits on a
  tombstone; it relies on every other transition to return \<open>Break\<close> there.
\<close>

locale tombstone_aware = transition +
  assumes tombstone_noop: "is_tombstone c \<Longrightarrow> pre c \<Longrightarrow> \<exists>b. work seqno c = Some (Break b, c)"
begin

lemma tombstone_skips:
  assumes "is_tombstone (st_collections s)" and "pre (st_collections s)"
  shows "\<exists>b. compute_next_state cfg ck is_write is_rollup is_tomb work s = Some (Inl (st_seqno s, b))"
  using tombstone_noop [OF assms, of "SeqNo_next (st_seqno s)"]
  by (auto simp: compute_next_state_def clone_apply_def Let_def)

end

lemma cmd_tombstone_aware:
  "(\<And>c seqno. is_tombstone c \<Longrightarrow> cmd_pre cfg cmd c \<Longrightarrow> \<exists>b. cmd_work E cfg now cmd seqno c = Some (Break b, c)) \<Longrightarrow>
     tombstone_aware (cmd_work E cfg now cmd) (cmd_pre cfg cmd)"
  by (intro tombstone_aware.intro cmd.transition_axioms tombstone_aware_axioms.intro)

interpretation remove_rollups: tombstone_aware "cmd_work E cfg now (Cmd_remove_rollups a)" "cmd_pre cfg (Cmd_remove_rollups a :: ('k, 'v, 'f :: bounded_lattice) Cmd)" for E :: "('d :: monoid_add, 'k, 'v) env" and cfg now a
  by (rule cmd_tombstone_aware) (auto simp: remove_rollups_def)

interpretation upgrade_version: tombstone_aware "cmd_work E cfg now Cmd_upgrade_version" "cmd_pre cfg (Cmd_upgrade_version :: ('k, 'v, 'f :: bounded_lattice) Cmd)" for E :: "('d :: monoid_add, 'k, 'v) env" and cfg now
  by (rule cmd_tombstone_aware) (auto simp: upgrade_version_def)

interpretation register_leased_reader: tombstone_aware "cmd_work E cfg now (Cmd_register_leased_reader a b l u)"
  "cmd_pre cfg (Cmd_register_leased_reader a b l u :: ('k, 'v, 'f :: bounded_lattice) Cmd)" for E :: "('d :: monoid_add, 'k, 'v) env" and cfg now a b l u
  by (rule cmd_tombstone_aware) (auto simp: register_leased_reader_def Let_def)

interpretation register_critical_reader: tombstone_aware "cmd_work E cfg now (Cmd_register_critical_reader a b l)"
  "cmd_pre cfg (Cmd_register_critical_reader a b l :: ('k, 'v, 'f :: bounded_lattice) Cmd)" for E :: "('d :: monoid_add, 'k, 'v) env" and cfg now a b l
  by (rule cmd_tombstone_aware) (auto simp: register_critical_reader_def Let_def)

interpretation register_schema: tombstone_aware "cmd_work E cfg now (Cmd_register_schema a b)"
  "cmd_pre cfg (Cmd_register_schema a b :: ('k, 'v, 'f :: bounded_lattice) Cmd)" for E :: "('d :: monoid_add, 'k, 'v) env" and cfg now a b
  by (rule cmd_tombstone_aware) (auto simp: register_schema_def split: option.splits prod.splits)

interpretation compare_and_append: tombstone_aware "cmd_work E cfg now (Cmd_compare_and_append a b l u)"
  "cmd_pre cfg (Cmd_compare_and_append a b l u :: ('k, 'v, 'f :: bounded_lattice) Cmd)" for E :: "('d :: monoid_add, 'k, 'v) env" and cfg now a b l u
  by (rule cmd_tombstone_aware) (auto simp: collections_compare_and_append_def is_tombstone_def)

interpretation merge_res: tombstone_aware "cmd_work E cfg now (Cmd_merge_res a)" "cmd_pre cfg (Cmd_merge_res a :: ('k, 'v, 'f :: bounded_lattice) Cmd)" for E :: "('d :: monoid_add, 'k, 'v) env" and cfg now a
  by (rule cmd_tombstone_aware) (auto simp: collections_apply_merge_res_def)

interpretation downgrade_since: tombstone_aware "cmd_work E cfg now (Cmd_downgrade_since a b l)"
  "cmd_pre cfg (Cmd_downgrade_since a b l :: ('k, 'v, 'f :: bounded_lattice) Cmd)" for E :: "('d :: monoid_add, 'k, 'v) env" and cfg now a b l
  by (rule cmd_tombstone_aware) (auto simp: downgrade_since_def)

interpretation compare_and_downgrade_since: tombstone_aware "cmd_work E cfg now (Cmd_compare_and_downgrade_since a b l u)"
  "cmd_pre cfg (Cmd_compare_and_downgrade_since a b l u :: ('k, 'v, 'f :: bounded_lattice) Cmd)" for E :: "('d :: monoid_add, 'k, 'v) env" and cfg now a b l u
  by (rule cmd_tombstone_aware) (auto simp: compare_and_downgrade_since_def)

interpretation expire_leased_reader: tombstone_aware "cmd_work E cfg now (Cmd_expire_leased_reader a)"
  "cmd_pre cfg (Cmd_expire_leased_reader a :: ('k, 'v, 'f :: bounded_lattice) Cmd)" for E :: "('d :: monoid_add, 'k, 'v) env" and cfg now a
  by (rule cmd_tombstone_aware) (auto simp: expire_leased_reader_def)

interpretation expire_critical_reader: tombstone_aware "cmd_work E cfg now (Cmd_expire_critical_reader a)"
  "cmd_pre cfg (Cmd_expire_critical_reader a :: ('k, 'v, 'f :: bounded_lattice) Cmd)" for E :: "('d :: monoid_add, 'k, 'v) env" and cfg now a
  by (rule cmd_tombstone_aware) (auto simp: expire_critical_reader_def)

interpretation expire_writer: tombstone_aware "cmd_work E cfg now (Cmd_expire_writer a)"
  "cmd_pre cfg (Cmd_expire_writer a :: ('k, 'v, 'f :: bounded_lattice) Cmd)" for E :: "('d :: monoid_add, 'k, 'v) env" and cfg now a
  by (rule cmd_tombstone_aware) (auto simp: expire_writer_def)

subsection \<open>Reachable versions\<close>

inductive shard_step :: "('d :: monoid_add, 'k, 'v) env \<Rightarrow> cmd_cfg \<Rightarrow> 'f :: bounded_lattice State \<Rightarrow> 'f State \<Rightarrow> bool"
  for E cfg where
  shard_step: "\<lbrakk>run_cmd E cfg ck cmd s = Some (Inr ns); cmd_pre cfg cmd (st_collections s); st_seqno s < - 1\<rbrakk>
    \<Longrightarrow> shard_step E cfg s (ns_state ns)"

inductive shard_reachable :: "('d :: monoid_add, 'k, 'v) env \<Rightarrow> cmd_cfg \<Rightarrow> 'f :: bounded_lattice State \<Rightarrow> bool"
  for E cfg where
  init: "initial_state v shard h now k = Some s \<Longrightarrow> shard_reachable E cfg s"
| step: "\<lbrakk>shard_reachable E cfg s; shard_step E cfg s s'\<rbrakk> \<Longrightarrow> shard_reachable E cfg s'"

lemma initial_state_inv: "initial_state v shard h now k = Some s \<Longrightarrow> st_inv s"
  by (auto simp: initial_state_def State_new_def add_rollup_def st_inv_def sc_inv_def Let_def SeqNo_minimum_def
      trace_inv_default btree_wf_def)

lemma shard_step_ok:
  assumes "shard_step E cfg s s'" and "st_inv s"
  shows "st_inv s'" and "st_advances s s'"
  using assms cmd.compute_next_state_ok by (auto simp: run_cmd_def elim!: shard_step.cases)

lemma shard_reachable_inv: "shard_reachable E cfg s \<Longrightarrow> st_inv s"
  by (induction rule: shard_reachable.induct) (auto intro: initial_state_inv shard_step_ok(1))

lemma st_advances_trans: "st_advances s s' \<Longrightarrow> st_advances s' s'' \<Longrightarrow> st_advances s s''"
  by (auto simp: st_advances_def intro: less_trans order_trans)

text \<open>Running a list of commands that all commit.\<close>

fun run_cmds ::
  "('d :: monoid_add, 'k, 'v) env \<Rightarrow> cmd_cfg \<Rightarrow> clock \<Rightarrow> ('k, 'v, 'f :: bounded_lattice) Cmd list \<Rightarrow> 'f State \<Rightarrow> 'f State option" where
  "run_cmds E cfg ck [] s = Some s"
| "run_cmds E cfg ck (cmd # cmds) s =
     (if cmd_pre cfg cmd (st_collections s) \<and> st_seqno s < - 1 then
        (case run_cmd E cfg ck cmd s of
           Some (Inr ns) \<Rightarrow> run_cmds E cfg ck cmds (ns_state ns)
         | _ \<Rightarrow> None)
      else None)"

lemma run_cmds_reachable:
  "shard_reachable E cfg s \<Longrightarrow> run_cmds E cfg ck cmds s = Some s' \<Longrightarrow> shard_reachable E cfg s'"
  by (induction cmds arbitrary: s)
    (auto split: if_splits option.splits sum.splits intro: shard_reachable.step shard_step)

lemma shard_steps_ok:
  assumes "(shard_step E cfg)\<^sup>*\<^sup>* s s'" and "st_inv s"
  shows "st_inv s' \<and> (s' = s \<or> st_advances s s')"
  using assms
proof (induction rule: rtranclp_induct)
  case base
  then show ?case by simp
next
  case (step s' s'')
  then show ?case using shard_step_ok [of E cfg s' s''] st_advances_trans by blast
qed

lemma shard_steps_reachable: "(shard_step E cfg)\<^sup>*\<^sup>* s s' \<Longrightarrow> shard_reachable E cfg s \<Longrightarrow> shard_reachable E cfg s'"
  by (induction rule: rtranclp_induct) (auto intro: shard_reachable.step)

lemma run_cmds_steps: "run_cmds E cfg ck cmds s = Some s' \<Longrightarrow> (shard_step E cfg)\<^sup>*\<^sup>* s s'"
  by (induction cmds arbitrary: s)
    (auto split: if_splits option.splits sum.splits intro: shard_step converse_rtranclp_into_rtranclp)

end
