(* ===== verification/Commit.thy ===== *)
theory Commit
  imports Apply
begin

section \<open>What a commit does, and tombstones\<close>

text \<open>
  How the collections of a committed version relate to what the transition returned, that a
  tombstone stays one, and that making one ends.
\<close>

subsection \<open>The committed collections\<close>

text \<open>
  The collections of a committed version are those the transition returned, without the handles
  whose lease has run out and with the bookkeeping of rollups and garbage collection.
\<close>

definition committed :: "u64 \<Rightarrow> 'f StateCollections \<Rightarrow> 'f StateCollections \<Rightarrow> bool" where
  "committed walltime_ms c' c'' \<longleftrightarrow>
     sc_version c'' = sc_version c' \<and> sc_rollups c'' = sc_rollups c' \<and>
     sc_leased_readers c'' = filter (\<lambda>e. reader_retained walltime_ms (snd e)) (sc_leased_readers c') \<and>
     sc_critical_readers c'' = sc_critical_readers c' \<and>
     sc_writers c'' = filter (\<lambda>e. writer_retained walltime_ms (snd e)) (sc_writers c') \<and>
     sc_schemas c'' = sc_schemas c' \<and> sc_trace c'' = (sc_trace c')\<lparr>tr_roundtrip_structure := True\<rparr>"

lemma Trace_roundtrip_simps [simp]:
  "Trace_since (t\<lparr>tr_roundtrip_structure := x\<rparr>) = Trace_since t"
  "Trace_upper (t\<lparr>tr_roundtrip_structure := x\<rparr>) = Trace_upper t"
  "Trace_batches (t\<lparr>tr_roundtrip_structure := x\<rparr>) = Trace_batches t"
  by (simp_all add: Trace_since_def Trace_upper_def Trace_batches_def)

lemma maybe_gc_frame:
  "maybe_gc w n cfg s = (q, s') \<Longrightarrow> st_seqno s' = st_seqno s \<and>
     (\<exists>g. st_collections s' = (st_collections s)\<lparr>sc_last_gc_req := g\<rparr>)"
  by (auto simp: maybe_gc_def Let_def split: if_split_asm intro: exI [of _ "sc_last_gc_req (st_collections s)"])

lemma commit_frame:
  assumes "expire_at w s1 = (m, s2)"
    and "maybe_gc iw now gcfg (note_active_rollup ar now wr (set_roundtrip_structure s2)) = (gc, s5)"
  shows "st_seqno (note_active_gc ag now gc s5) = st_seqno s1"
    and "committed w (st_collections s1) (st_collections (note_active_gc ag now gc s5))"
proof -
  obtain g where "st_collections s5 = (st_collections (note_active_rollup ar now wr (set_roundtrip_structure s2)))\<lparr>sc_last_gc_req := g\<rparr>"
    "st_seqno s5 = st_seqno (note_active_rollup ar now wr (set_roundtrip_structure s2))"
    using maybe_gc_frame [OF assms(2)] by blast
  then show "st_seqno (note_active_gc ag now gc s5) = st_seqno s1"
    and "committed w (st_collections s1) (st_collections (note_active_gc ag now gc s5))"
    using assms(1)
    by (auto simp: expire_at_def Let_def note_active_gc_def note_active_rollup_def set_roundtrip_structure_def
        committed_def split: option.splits)
qed

lemma compute_next_state_Inr:
  assumes "compute_next_state cfg ck is_write is_rollup is_tomb work s = Some (Inr ns)"
  obtains c' where "work (st_seqno s + 1) (st_collections s) = Some (Continue (ns_work_ret ns), c')"
    and "committed (ck_expire ck) c' (st_collections (ns_state ns))" and "st_seqno (ns_state ns) = st_seqno s + 1"
    and "is_tombstone (st_collections s) \<Longrightarrow> is_rollup \<or> is_tomb"
proof -
  obtain s1 m s2 wr gc s5 where s1: "clone_apply (ck_apply ck) (cf_hostname cfg) work s = Some (Continue (ns_work_ret ns, s1))"
    and s2: "expire_at (ck_expire ck) s1 = (m, s2)"
    and s5: "maybe_gc is_write (ck_now ck) (cf_gc cfg)
        (note_active_rollup (cf_use_active_rollup cfg) (ck_now ck) wr (set_roundtrip_structure s2)) = (gc, s5)"
    and ns: "ns_state ns = note_active_gc (gc_use_active_gc (cf_gc cfg)) (ck_now ck) gc s5"
    and tomb: "\<not> (is_tombstone (st_collections s) \<and> \<not> (is_rollup \<or> is_tomb))"
    using assms by (fastforce simp: compute_next_state_def Let_def split: bind_splits ControlFlow.splits prod.splits if_splits)
  obtain c' where w: "work (st_seqno s + 1) (st_collections s) = Some (Continue (ns_work_ret ns), c')"
    "st_collections s1 = c'" "st_seqno s1 = st_seqno s + 1"
    using s1 by (auto simp: clone_apply_def Let_def SeqNo_next_def split: bind_splits ControlFlow.splits)
  show ?thesis
    using that [OF w(1)] commit_frame [OF s2 s5, of "gc_use_active_gc (cf_gc cfg)"] w ns tomb by auto
qed

lemma need_rollup_total:
  "sc_rollups (st_collections s) \<noteq> [] \<Longrightarrow> use_active \<or> of_nat thr \<noteq> (0 :: u64) \<Longrightarrow>
     \<exists>r. need_rollup thr use_active fb now s = Some r"
  by (cases "last (sc_rollups (st_collections s))") (auto simp: need_rollup_def latest_rollup_def Let_def)

lemma compute_next_state_commits:
  assumes work: "work (st_seqno s + 1) (st_collections s) = Some (Continue ret, c')"
    and "cf_use_active_rollup cfg \<or> of_nat (cf_rollup_threshold cfg) \<noteq> (0 :: u64)" and "sc_rollups c' \<noteq> []"
    and "is_tombstone (st_collections s) \<longrightarrow> is_rollup \<or> is_tomb"
  shows "\<exists>ns. compute_next_state cfg ck is_write is_rollup is_tomb work s = Some (Inr ns)"
proof -
  let ?s1 = "\<lparr>st_shard_id = st_shard_id s, st_seqno = SeqNo_next (st_seqno s),
    st_walltime_ms = (if ck_apply ck \<le> st_walltime_ms s then st_walltime_ms s + 1 else ck_apply ck),
    st_hostname = cf_hostname cfg, st_collections = c'\<rparr>"
  obtain m s2 where s2: "expire_at (ck_expire ck) ?s1 = (m, s2)" by fastforce
  have "sc_rollups (st_collections (set_roundtrip_structure s2)) \<noteq> []"
    using s2 assms(3) by (auto simp: expire_at_def Let_def set_roundtrip_structure_def)
  then obtain wr where wr: "need_rollup (cf_rollup_threshold cfg) (cf_use_active_rollup cfg)
      (cf_rollup_fallback_threshold_ms cfg) (ck_now ck) (set_roundtrip_structure s2) = Some wr"
    using need_rollup_total assms(2) by blast
  obtain gc s5 where s5: "maybe_gc is_write (ck_now ck) (cf_gc cfg)
        (note_active_rollup (cf_use_active_rollup cfg) (ck_now ck) wr (set_roundtrip_structure s2)) = (gc, s5)"
    by fastforce
  have "clone_apply (ck_apply ck) (cf_hostname cfg) work s = Some (Continue (ret, ?s1))"
    using work by (simp add: clone_apply_def Let_def SeqNo_next_def)
  with s2 wr s5 commit_frame(1) [OF s2 s5, of "gc_use_active_gc (cf_gc cfg)"] assms(4) show ?thesis
    by (auto simp: compute_next_state_def Let_def)
qed

lemma committed_tombstone:
  assumes "committed w c' c''" and "is_tombstone c'"
  shows "is_tombstone c''" and "shrink_measure c'' = shrink_measure c'"
proof -
  show "is_tombstone c''" using assms by (simp add: committed_def is_tombstone_def)
  with assms show "shrink_measure c'' = shrink_measure c'"
    by (simp add: committed_def shrink_measure_def nonempty_batches_def)
qed

subsection \<open>Tombstones\<close>

text \<open>Once a tombstone, always a tombstone.\<close>

lemma tombstone_step:
  assumes "shard_step E cfg s s'" and inv: "st_inv s" and tomb: "is_tombstone (st_collections s)"
  shows "is_tombstone (st_collections s')"
proof -
  obtain ck cmd ns where run: "run_cmd E cfg ck cmd s = Some (Inr ns)" and pre: "cmd_pre cfg cmd (st_collections s)"
    and s': "s' = ns_state ns"
    using assms(1) by (auto elim: shard_step.cases)
  obtain c' where work: "cmd_work E cfg (ck_work ck) cmd (st_seqno s + 1) (st_collections s) = Some (Continue (ns_work_ret ns), c')"
    and com: "committed (ck_expire ck) c' (st_collections s')" and kind: "cmd_is_rollup cmd \<or> cmd_is_become_tombstone cmd"
    using compute_next_state_Inr [OF run [unfolded run_cmd_def]] tomb s' by metis
  have "is_tombstone c'"
  proof (cases "cmd_is_rollup cmd")
    case True
    then obtain q r where "cmd = Cmd_add_rollup q r" by (auto simp: cmd_is_rollup_def split: Cmd.splits)
    with work tomb show ?thesis
      by (auto dest!: map_flow_conv simp: add_rollup_def is_tombstone_def split: option.splits if_splits list.splits)
  next
    case False
    with kind have cmd: "cmd = Cmd_become_tombstone" by (auto simp: cmd_is_become_tombstone_def split: Cmd.splits)
    with work obtain r where r: "become_tombstone_and_shrink (st_collections s) = Some (r, c')" by (auto dest: map_flow_conv)
    have "sc_inv (st_collections s)" "Trace_upper (st_trace s) = top" "Trace_since (st_trace s) = top"
      using inv tomb by (simp_all add: st_inv_def is_tombstone_def)
    then show ?thesis
      using become_tombstone_and_shrink_ok [of "st_collections s"] pre r by (metis cmd cmd_pre.simps(6) option.inject prod.inject)
  qed
  with com show ?thesis by (rule committed_tombstone(1))
qed

lemma tombstone_steps:
  assumes "(shard_step E cfg)\<^sup>*\<^sup>* s s'" and "st_inv s" and "is_tombstone (st_collections s)"
  shows "is_tombstone (st_collections s')"
  using assms
proof (induction rule: rtranclp_induct)
  case base
  then show ?case by simp
next
  case (step s' s'')
  with shard_steps_ok [OF step(1)] show ?case using tombstone_step by blast
qed

text \<open>\<open>shrink_measure\<close> bounds the versions it takes to shrink a tombstone.\<close>

lemma become_tombstone_loop_ok:
  fixes s :: "'f :: bounded_lattice State"
  assumes "st_inv s" and "Trace_upper (st_trace s) = top" and "Trace_since (st_trace s) = top" and "(bot :: 'f) \<noteq> top"
    and "cf_use_active_rollup cfg \<or> of_nat (cf_rollup_threshold cfg) \<noteq> (0 :: u64)"
    and "shrink_measure (st_collections s) < fuel" and "unat (st_seqno s) + shrink_measure (st_collections s) < 2 ^ 64 - 1"
  shows "\<exists>s'. become_tombstone_loop E cfg cks fuel s = Some s' \<and> is_tombstone (st_collections s') \<and>
    is_single_empty_batch (st_collections s')"
  using assms
proof (induction fuel arbitrary: s)
  case 0
  then show ?case by simp
next
  case (Suc fuel)
  let ?c = "st_collections s" and ?w = "cmd_work E cfg (ck_work (cks fuel)) Cmd_become_tombstone :: (_, _, 'f) work_fn"
  have inv: "sc_inv ?c" using Suc.prems(1) by (simp add: st_inv_def)
  obtain r c' where op: "become_tombstone_and_shrink ?c = Some (r, c')" and "sc_inv c'" and "sc_advances ?c c'" and tomb: "is_tombstone c'"
    and cont: "r = Continue () \<longrightarrow> shrink_measure c' < shrink_measure ?c"
    and brk: "r = Break () \<longrightarrow> c' = ?c \<and> is_single_empty_batch ?c"
    by (rule become_tombstone_and_shrink_ok [OF inv Suc.prems(2-4)])
  show ?case
  proof (cases r)
    case (Break u)
    with op have "run_cmd E cfg (cks fuel) Cmd_become_tombstone s = Some (Inl (st_seqno s, R_unit))"
      by (simp add: run_cmd_def compute_next_state_def clone_apply_def Let_def)
    with brk Break tomb show ?thesis by simp
  next
    case (Continue u)
    have ne: "sc_rollups c' \<noteq> []"
      using other_rollups(9) [OF op] Suc.prems(1) by (simp add: st_inv_def)
    have work: "?w (st_seqno s + 1) ?c = Some (Continue R_unit, c')" using op Continue by simp
    have "cmd_is_become_tombstone (Cmd_become_tombstone :: (_, _, 'f) Cmd)" by (simp add: cmd_is_become_tombstone_def)
    then obtain ns where ns: "run_cmd E cfg (cks fuel) Cmd_become_tombstone s = Some (Inr ns)"
      using compute_next_state_commits [where work = ?w and s = s, OF work Suc.prems(5) ne] by (metis run_cmd_def)
    have com: "committed (ck_expire (cks fuel)) c' (st_collections (ns_state ns))" "st_seqno (ns_state ns) = st_seqno s + 1"
      using compute_next_state_Inr [OF ns [unfolded run_cmd_def]] work by (metis option.inject prod.inject)+
    have small: "unat (st_seqno s) < 2 ^ 64 - 1" using Suc.prems(7) by linarith
    then have top: "st_seqno s < - 1" by (simp add: word_less_nat_alt unsigned_minus_1_eq_mask mask_eq_exp_minus_1)
    have seqno: "unat (st_seqno (ns_state ns)) = unat (st_seqno s) + 1"
      using com(2) small by (simp add: unat_plus_if')
    have m: "shrink_measure (st_collections (ns_state ns)) < shrink_measure ?c" "is_tombstone (st_collections (ns_state ns))"
      using committed_tombstone [OF com(1) tomb] cont Continue by simp_all
    have "st_inv (ns_state ns)"
      using cmd.compute_next_state_ok(1) [OF ns [unfolded run_cmd_def] Suc.prems(1) _ top] Suc.prems(4) by simp
    then have "\<exists>s'. become_tombstone_loop E cfg cks fuel (ns_state ns) = Some s' \<and> is_tombstone (st_collections s') \<and>
        is_single_empty_batch (st_collections s')"
      using m Suc.prems(4-7) seqno by (intro Suc.IH) (auto simp: is_tombstone_def)
    with ns show ?thesis by simp
  qed
qed

end
