(* ===== verification/Shard_Props.thy ===== *)
theory Shard_Props
  imports Commit
begin

section \<open>Properties of the shard state machine\<close>

text \<open>
  What the state machine of a shard guarantees over all sequences of commands, what one append
  does, what readers see, how rollups and leases behave, and how a shard becomes a tombstone.
\<close>

subsection \<open>A sample environment\<close>

text \<open>
  Schemas are booleans: the second one adds a nullable field to the first.
\<close>

definition sample_struct :: "bool \<Rightarrow> DataType" where
  "sample_struct b = Struct (if b then [Field ''a'' Boolean True] else [])"

definition sample_schema_ops :: "bool schema_ops" where
  "sample_schema_ops = \<lparr>so_encode = (\<lambda>b. [if b then 1 else 0]), so_decode = (\<lambda>x. x = [1]),
     so_data_type = (\<lambda>b. Some (sample_struct b))\<rparr>"

definition sample_dt_ops :: dt_ops where
  "sample_dt_ops = \<lparr>dt_encode = (\<lambda>t. [if t = sample_struct True then 1 else 0]),
     dt_decode = (\<lambda>x. Some (sample_struct (x = [1])))\<rparr>"

definition sample_env :: "(int, bool, bool) env" where
  "sample_env = \<lparr>en_ext = sample_ext, en_key = sample_schema_ops, en_val = sample_schema_ops, en_dt = sample_dt_ops\<rparr>"

definition sample_cfg :: cmd_cfg where
  "sample_cfg = \<lparr>cf_hostname = ''host'', cf_build_version = \<lparr>major = 0, minor = 1, patch = 0\<rparr>,
     cf_writer_lease_duration = 8, cf_inline_writes_total_max_bytes = 8,
     cf_claim_unclaimed_compactions = False, cf_claim_compaction_percent = 100, cf_claim_compaction_min_version = None,
     cf_gc = \<lparr>gc_use_active_gc = False, gc_fallback_threshold_ms = 900, gc_min_versions = 2, gc_max_versions = 8\<rparr>,
     cf_use_active_rollup = True, cf_rollup_threshold = 8, cf_rollup_fallback_threshold_ms = 500\<rparr>"

definition sample_clock :: clock where
  "sample_clock = \<lparr>ck_work = 10, ck_apply = 10, ck_expire = 10, ck_now = 10\<rparr>"

definition sample_s0 :: "ts_frontier State" where
  "sample_s0 = the (initial_state \<lparr>major = 0, minor = 1, patch = 0\<rparr> (replicate 16 1) ''host'' 5 ''v0/r'')"

definition sample_debug :: HandleDebugState where
  "sample_debug = \<lparr>dbg_hostname = ''host'', dbg_purpose = ''test''\<rparr>"

text \<open>
  A critical reader and a schema, two appends that close the shard, then the since released and
  the first step of becoming a tombstone. The versions in between are written out.
\<close>

definition sample_append :: "ts_frontier \<Rightarrow> ts_frontier \<Rightarrow> u8 \<Rightarrow> (bool, bool, ts_frontier) Cmd" where
  "sample_append l u tok = Cmd_compare_and_append (sample_batch l u 1) [2] (replicate 16 tok) sample_debug"

definition sample_cmds_2 :: "(bool, bool, ts_frontier) Cmd list" where
  "sample_cmds_2 = [Cmd_register_critical_reader [1] (''o'', [0]) ''test'', Cmd_register_schema False False]"

definition sample_cmds_4 :: "(bool, bool, ts_frontier) Cmd list" where
  "sample_cmds_4 = [sample_append (At 0) (At 5) 1, sample_append (At 5) Closed 2]"

definition sample_cmds_6 :: "(bool, bool, ts_frontier) Cmd list" where
  "sample_cmds_6 = [Cmd_compare_and_downgrade_since [1] (''o'', [0]) (''o'', [1]) Closed, Cmd_become_tombstone]"

definition sample_shard ::
  "u64 \<Rightarrow> u64 \<Rightarrow> ActiveRollup option \<Rightarrow> (bytes, ts_frontier CriticalReaderState) btree_map
     \<Rightarrow> (bytes, ts_frontier WriterState) btree_map \<Rightarrow> ts_frontier Trace \<Rightarrow> ts_frontier State" where
  "sample_shard seqno ms rollup readers writers t =
     \<lparr>st_shard_id = replicate 16 1, st_seqno = seqno, st_walltime_ms = ms, st_hostname = ''host'',
      st_collections =
        \<lparr>sc_version = \<lparr>major = 0, minor = 1, patch = 0\<rparr>, sc_last_gc_req = seqno,
         sc_rollups = [(0, \<lparr>ro_key = ''v0/r'', ro_encoded_size_bytes = None\<rparr>)],
         sc_active_rollup = rollup, sc_active_gc = None, sc_leased_readers = [],
         sc_critical_readers = readers, sc_writers = writers,
         sc_schemas = [(0, \<lparr>es_key = [0], es_key_data_type = [0], es_val = [0], es_val_data_type = [0]\<rparr>)],
         sc_trace = t\<rparr>\<rparr>"

definition sample_sb :: "nat \<Rightarrow> ts_frontier HollowBatch \<Rightarrow> ts_frontier SpineBatch" where
  "sample_sb i hb = \<lparr>sb_id = SpineId i (i + 1), sb_desc = hb_desc hb, sb_parts = [\<lparr>ihb_id = SpineId i (i + 1), ihb_batch = hb\<rparr>],
     sb_active_compaction = None, sb_len = hb_len hb\<rparr>"

definition sample_spine :: "ts_frontier \<Rightarrow> ts_frontier HollowBatch \<Rightarrow> ts_frontier HollowBatch \<Rightarrow> ts_frontier Trace" where
  "sample_spine since a b =
     \<lparr>tr_spine = \<lparr>sp_effort = 1, sp_next_id = 2, sp_since = since, sp_upper = Closed,
        sp_merging = [\<lparr>ms_batches = [sample_sb 0 a, sample_sb 1 b],
          ms_merge = Some \<lparr>ifm_id = SpineId 0 2, ifm_merge = \<lparr>fm_since = At 0, fm_remaining_work = 2\<rparr>\<rparr>\<rparr>]\<rparr>,
      tr_roundtrip_structure = True\<rparr>"

definition sample_reader :: "ts_frontier CriticalReaderState" where
  "sample_reader = \<lparr>cr_since = At 0, cr_opaque = (''o'', [0]), cr_debug = sample_debug\<rparr>"

definition sample_writer :: "ts_frontier WriterState" where
  "sample_writer = \<lparr>ws_last_heartbeat_timestamp_ms = 10, ws_lease_duration_ms = 8,
     ws_most_recent_write_token = replicate 16 2, ws_most_recent_write_upper = Closed, ws_debug = sample_debug\<rparr>"

definition sample_s2 :: "ts_frontier State" where
  "sample_s2 = sample_shard 2 11 None [([1], sample_reader)] [] Trace_default"

definition sample_s4 :: "ts_frontier State" where
  "sample_s4 = sample_shard 4 13 None [([1], sample_reader)] [([2], sample_writer)]
     (sample_spine (At 0) (sample_batch (At 0) (At 5) 1) (sample_batch (At 5) Closed 1))"

definition sample_s6 :: "ts_frontier State" where
  "sample_s6 = sample_shard 6 15 (Some \<lparr>arol_seqno = 6, arol_start_ms = 10\<rparr>) [] []
     (sample_spine Closed (HollowBatch_empty (hb_desc (sample_batch (At 0) (At 5) 1))) (sample_batch (At 5) Closed 1))"

lemma sample_s0_reachable: "shard_reachable sample_env sample_cfg sample_s0"
proof -
  have "initial_state \<lparr>major = 0, minor = 1, patch = 0\<rparr> (replicate 16 1) ''host'' 5 ''v0/r'' = Some sample_s0"
    by code_simp
  then show ?thesis by (rule shard_reachable.init)
qed

lemma sample_run_2: "run_cmds sample_env sample_cfg sample_clock sample_cmds_2 sample_s0 = Some sample_s2"
  by code_simp

lemma sample_run_4: "run_cmds sample_env sample_cfg sample_clock sample_cmds_4 sample_s2 = Some sample_s4"
  by code_simp

lemma sample_run_6: "run_cmds sample_env sample_cfg sample_clock sample_cmds_6 sample_s4 = Some sample_s6"
  by code_simp

lemmas sample_s2_reachable = run_cmds_reachable [OF sample_s0_reachable sample_run_2]
lemmas sample_s4_reachable = run_cmds_reachable [OF sample_s2_reachable sample_run_4]
lemmas sample_s6_reachable = run_cmds_reachable [OF sample_s4_reachable sample_run_6]
lemmas sample_s6_steps = run_cmds_steps [OF sample_run_6]

subsection \<open>Every version of a shard\<close>

text \<open>
  C3: In every version of a shard that its commands reach from the first one, the trace passes
  \<open>validate\<close>, no leased or critical reader has a since the trace has moved beyond, no writer
  remembers an upper beyond the trace's, schema ids are consecutive from zero, a rollup is kept
  (so \<open>latest_rollup\<close> does not panic), and no leased reader holds a version older than what
  garbage collection was last asked to remove.
\<close>

theorem shard_reachable_ok:
  assumes "shard_reachable E cfg s"
  shows "Trace_validate (st_trace s) = Inr () \<and>
    (\<forall>since \<in> set (reader_sinces (st_collections s)). Trace_since (st_trace s) \<le> since) \<and>
    (\<forall>w \<in> set (btree_values (sc_writers (st_collections s))). ws_most_recent_write_upper w \<le> Trace_upper (st_trace s)) \<and>
    btree_keys (sc_schemas (st_collections s)) = [0..<length (sc_schemas (st_collections s))] \<and>
    latest_rollup s \<noteq> None \<and>
    sc_last_gc_req (st_collections s) \<le> seqno_since s \<and> seqno_since s \<le> st_seqno s"
proof -
  have inv: "sc_inv (st_collections s)" and le: "sc_last_gc_req (st_collections s) \<le> st_seqno s"
    and ne: "sc_rollups (st_collections s) \<noteq> []"
    using shard_reachable_inv [OF assms] by (simp_all add: st_inv_def)
  have "Trace_validate (st_trace s) = Inr ()"
    using inv by (simp add: sc_inv_def Trace_validate_def trace_inv_def spine_inv_validate)
  then show ?thesis
    using inv ne reader_sinces_ge [OF inv] last_gc_req_le_seqno_since [OF inv le] seqno_since_le(1)
    by (auto simp: sc_inv_def btree_all_def list_all_iff latest_rollup_def)
qed

theorem shard_reachable_ok_witness:
  "Trace_validate (st_trace sample_s4) = Inr () \<and> latest_rollup sample_s4 \<noteq> None"
  using shard_reachable_ok [OF sample_s4_reachable] by blast

text \<open>
  C15: Later versions only advance: along any sequence of commands the shard id stays, sequence
  numbers do not decrease, the since and the upper of the trace and the point up to which
  garbage collection was asked for never go back, and registered schemas are never changed or
  removed.
\<close>

theorem shard_history:
  assumes "shard_reachable E cfg s" and "(shard_step E cfg)\<^sup>*\<^sup>* s s'"
  shows "st_shard_id s' = st_shard_id s \<and> st_seqno s \<le> st_seqno s' \<and>
    Trace_since (st_trace s) \<le> Trace_since (st_trace s') \<and> Trace_upper (st_trace s) \<le> Trace_upper (st_trace s') \<and>
    sc_last_gc_req (st_collections s) \<le> sc_last_gc_req (st_collections s') \<and>
    take (length (sc_schemas (st_collections s))) (sc_schemas (st_collections s')) = sc_schemas (st_collections s)"
  using shard_steps_ok [OF assms(2) shard_reachable_inv [OF assms(1)]]
  by (auto simp: st_advances_def)

theorem shard_history_witness:
  "st_shard_id sample_s6 = st_shard_id sample_s4 \<and> Trace_since (st_trace sample_s4) \<le> Trace_since (st_trace sample_s6)"
  using shard_history [OF sample_s4_reachable sample_s6_steps] by blast

text \<open>
  C10: Garbage collection is safe for readers. When a command assigns a garbage collection up to
  a sequence number, neither the new version nor any later one has a leased reader that holds
  an older version, including readers registered after the assignment.
\<close>

theorem gc_req_safe:
  assumes "shard_reachable E cfg s" and "cmd_pre cfg cmd (st_collections s)" and "st_seqno s < - 1"
    and "run_cmd E cfg ck cmd s = Some (Inr ns)" and "ns_garbage_collection ns = Some q"
    and "(shard_step E cfg)\<^sup>*\<^sup>* (ns_state ns) s'"
  shows "\<forall>r \<in> set (btree_values (sc_leased_readers (st_collections s'))). gcr_new_seqno_since q \<le> lr_seqno r"
proof -
  note ok = cmd.compute_next_state_ok [OF assms(4) [unfolded run_cmd_def] shard_reachable_inv [OF assms(1)] assms(2,3)]
  have "st_inv s'" "sc_last_gc_req (st_collections (ns_state ns)) \<le> sc_last_gc_req (st_collections s')"
    using shard_steps_ok [OF assms(6) ok(1)] by (auto simp: st_advances_def)
  with ok(4) [OF assms(5)] show ?thesis
    by (auto simp: st_inv_def sc_inv_def btree_all_def list_all_iff intro: order_trans)
qed

text \<open>
  The first command of the sample shard assigns a garbage collection; a leased reader registered
  after it holds a version that is not collected.
\<close>

definition sample_gc_step :: "((bool, bool, ts_frontier) Reply, ts_frontier) NextState" where
  "sample_gc_step = projr (the (run_cmd sample_env sample_cfg sample_clock (hd sample_cmds_2) sample_s0))"

definition sample_leased :: "ts_frontier State" where
  "sample_leased = the (run_cmds sample_env sample_cfg sample_clock
     [Cmd_register_leased_reader [9] ''test'' 8 False] (ns_state sample_gc_step))"

lemma sample_gc_facts:
  "run_cmd sample_env sample_cfg sample_clock (hd sample_cmds_2) sample_s0 = Some (Inr sample_gc_step) \<and>
   cmd_pre sample_cfg (hd sample_cmds_2) (st_collections sample_s0) \<and> st_seqno sample_s0 < - 1 \<and>
   ns_garbage_collection sample_gc_step = Some \<lparr>gcr_shard_id = replicate 16 1, gcr_new_seqno_since = 1\<rparr> \<and>
   run_cmds sample_env sample_cfg sample_clock [Cmd_register_leased_reader [9] ''test'' 8 False] (ns_state sample_gc_step)
     = Some sample_leased \<and>
   map lr_seqno (btree_values (sc_leased_readers (st_collections sample_leased))) = [2]"
  by code_simp

lemma sample_leased_reachable: "shard_reachable sample_env sample_cfg sample_leased"
  using sample_gc_facts run_cmds_reachable shard_reachable.step [OF sample_s0_reachable shard_step] by metis

theorem gc_req_safe_witness:
  "list_all (\<lambda>r. 1 \<le> lr_seqno r) (btree_values (sc_leased_readers (st_collections sample_leased))) \<and>
   sc_leased_readers (st_collections sample_leased) \<noteq> []"
proof -
  have "(shard_step sample_env sample_cfg)\<^sup>*\<^sup>* (ns_state sample_gc_step) sample_leased"
    using sample_gc_facts run_cmds_steps by blast
  from gc_req_safe [OF sample_s0_reachable _ _ _ _ this] sample_gc_facts show ?thesis
    by (fastforce simp: list_all_iff)
qed

end
