(* ===== verification/Replay.thy ===== *)
theory Replay
  imports Diff_Roundtrip Shard_Props
begin

section \<open>Replaying the diffs of a shard\<close>

text \<open>
  Composition of the diffs with the state machine of a shard: a reader that holds a version and
  applies the diffs of the versions that follow reaches the latest one.
\<close>

definition State_trim :: "'f State \<Rightarrow> 'f State" where
  "State_trim s = s\<lparr>st_collections := (st_collections s)\<lparr>sc_trace := Trace_trim (st_trace s)\<rparr>\<rparr>"

definition same_state :: "'f State \<Rightarrow> 'f State \<Rightarrow> bool" where
  "same_state a b \<longleftrightarrow> State_trim a = State_trim b"

lemma same_state_iff:
  "same_state a b \<longleftrightarrow>
     same_trace (st_trace a) (st_trace b) \<and>
     a = b\<lparr>st_collections := (st_collections b)\<lparr>sc_trace := st_trace a\<rparr>\<rparr>"
  by (cases a; cases b; cases "st_collections a"; cases "st_collections b")
    (auto simp: same_state_def State_trim_def same_trace_def)

text \<open>What storing a version as a diff to the one before it relies on.\<close>

definition diffable :: "'f :: bounded_lattice State \<Rightarrow> 'f State \<Rightarrow> bool" where
  "diffable s s' \<longleftrightarrow>
     storable (st_trace s) \<and> storable (st_trace s') \<and> same_ranges (st_trace s) (st_trace s') \<and>
     run_refs_by_key (set (Trace_batches (st_trace s)) \<union> set (Trace_batches (st_trace s')))"

lemma apply_collections_ok:
  assumes "sc_inv f" and "sc_inv t" and "r = f\<lparr>sc_trace := sc_trace r\<rparr>"
    and "sd_applier_version d = sc_version t"
    and "sd_rollups d = diff_map (sc_rollups f) (sc_rollups t)"
    and "sd_last_gc_req d = diff_field_single (sc_last_gc_req f) (sc_last_gc_req t)"
    and "sd_active_rollup d = diff_field_sorted_iter unit_cmp (=) (option_entries (sc_active_rollup f)) (option_entries (sc_active_rollup t))"
    and "sd_active_gc d = diff_field_sorted_iter unit_cmp (=) (option_entries (sc_active_gc f)) (option_entries (sc_active_gc t))"
    and "sd_leased_readers d = diff_map (sc_leased_readers f) (sc_leased_readers t)"
    and "sd_critical_readers d = diff_map (sc_critical_readers f) (sc_critical_readers t)"
    and "sd_writers d = diff_map (sc_writers f) (sc_writers t)"
    and "sd_schemas d = diff_map (sc_schemas f) (sc_schemas t)"
  shows "apply_diff_collections d r = Inr (t\<lparr>sc_trace := sc_trace r\<rparr>)"
proof -
  have wf: "btree_wf (sc_rollups c)" "btree_wf (sc_leased_readers c)" "btree_wf (sc_critical_readers c)" "btree_wf (sc_writers c)"
    "btree_wf (sc_schemas c)" if "sc_inv c" for c :: "'a StateCollections"
    using that by (simp_all add: sc_inv_def btree_wf_def sorted_wrt_upt)
  obtain t' where r: "r = f\<lparr>sc_trace := t'\<rparr>" using assms(3) by blast
  show ?thesis
    unfolding apply_diff_collections_def assms(4-) r
    by (simp add: apply_map_ok wf assms(1,2) apply_single_ok apply_option_ok)
qed

text \<open>One step: the diff between a version and the next, applied by a reader at that version.\<close>

lemma from_diff_ok:
  assumes f: "st_inv f" and t: "st_inv t" and id: "st_shard_id f = st_shard_id t" and el: "elements_ok el" and d: "diffable f t"
  obtains d where "from_diff el f t = Some d" and "trace_diff el (st_trace f) (st_trace t) d"
    and "sd_seqno_from d = st_seqno f" and "sd_seqno_to d = st_seqno t" and "sd_walltime_ms d = st_walltime_ms t"
    and "sd_hostname d = diff_field_single (st_hostname f) (st_hostname t)"
    and "\<forall>r. r = (st_collections f)\<lparr>sc_trace := sc_trace r\<rparr> \<longrightarrow>
      apply_diff_collections d r = Inr ((st_collections t)\<lparr>sc_trace := sc_trace r\<rparr>)"
proof -
  have flat: "flatten el (st_trace f) = Some (flat_of el (st_trace f))" "flatten el (st_trace t) = Some (flat_of el (st_trace t))"
    using storable_flat(1) el d by (auto simp: diffable_def)
  have inv: "sc_inv (st_collections f)" "sc_inv (st_collections t)" "sc_rollups (st_collections t) \<noteq> []"
    using f t by (simp_all add: st_inv_def)
  then obtain rollup where "latest_rollup t = Some rollup" by (auto simp: latest_rollup_def Let_def)
  with flat id obtain d where d: "from_diff el f t = Some d" by (cases rollup) (simp add: from_diff_def Let_def)
  show ?thesis
  proof
    show "from_diff el f t = Some d" by (fact d)
    show "trace_diff el (st_trace f) (st_trace t) d" "sd_seqno_from d = st_seqno f" "sd_seqno_to d = st_seqno t"
      "sd_walltime_ms d = st_walltime_ms t" "sd_hostname d = diff_field_single (st_hostname f) (st_hostname t)"
      using d flat by (auto simp: from_diff_def StateDiff_new_def trace_diff_def Let_def split: bind_splits if_splits)
    show "\<forall>r. r = (st_collections f)\<lparr>sc_trace := sc_trace r\<rparr> \<longrightarrow>
      apply_diff_collections d r = Inr ((st_collections t)\<lparr>sc_trace := sc_trace r\<rparr>)"
      using d flat
      by (auto intro!: apply_collections_ok [OF inv(1,2)] simp: from_diff_def StateDiff_new_def Let_def split: bind_splits if_splits)
  qed
qed

text \<open>A reader's copy of a version: the version up to vacant levels of its spine.\<close>

definition reader_at :: "'f :: bounded_lattice State \<Rightarrow> 'f State \<Rightarrow> bool" where
  "reader_at r s \<longleftrightarrow> same_state r s \<and> storable (st_trace r)"

lemma apply_diff_ok:
  assumes f: "st_inv f" and t: "st_inv t" and id: "st_shard_id f = st_shard_id t" and seqno: "st_seqno f \<noteq> st_seqno t"
    and el: "elements_ok el" and df: "diffable f t" and r: "reader_at r f"
  obtains d r' where "from_diff el f t = Some d" and "sd_seqno_from d = st_seqno f" and "sd_seqno_to d = st_seqno t"
    and "apply_diff el d r = Some (Inr r')" and "reader_at r' t"
proof -
  obtain d where d: "from_diff el f t = Some d" "trace_diff el (st_trace f) (st_trace t) d"
      "sd_seqno_from d = st_seqno f" "sd_seqno_to d = st_seqno t" "sd_walltime_ms d = st_walltime_ms t"
      "sd_hostname d = diff_field_single (st_hostname f) (st_hostname t)"
    and c: "\<forall>r. r = (st_collections f)\<lparr>sc_trace := sc_trace r\<rparr> \<longrightarrow>
      apply_diff_collections d r = Inr ((st_collections t)\<lparr>sc_trace := sc_trace r\<rparr>)"
    using from_diff_ok [OF f t id el df] .
  have sr: "same_trace (st_trace r) (st_trace f)" "r = f\<lparr>st_collections := (st_collections f)\<lparr>sc_trace := st_trace r\<rparr>\<rparr>"
    using r by (simp_all add: reader_at_def same_state_iff)
  have rf: "st_seqno r = st_seqno f" "st_hostname r = st_hostname f" "st_shard_id r = st_shard_id f"
    "st_collections r = (st_collections f)\<lparr>sc_trace := st_trace r\<rparr>"
    using arg_cong [OF sr(2), of st_seqno] arg_cong [OF sr(2), of st_hostname] arg_cong [OF sr(2), of st_shard_id]
      arg_cong [OF sr(2), of st_collections] by simp_all
  have cr: "apply_diff_collections d (st_collections r) = Inr ((st_collections t)\<lparr>sc_trace := st_trace r\<rparr>)"
    using c rf(4) by simp
  obtain t' where t': "apply_diff_trace el d (st_trace r) = Some (Inr t')" "same_trace t' (st_trace t)" "storable t'"
    using apply_diff_trace_ok [of "st_trace f" "st_trace t" el d "st_trace r"] df el d(2) sr(1) r
    by (auto simp: diffable_def reader_at_def)
  let ?r = "r\<lparr>st_seqno := st_seqno t, st_walltime_ms := st_walltime_ms t, st_hostname := st_hostname t,
    st_collections := (st_collections t)\<lparr>sc_trace := t'\<rparr>\<rparr>"
  have "apply_diff el d r = Some (Inr ?r)"
    using rf seqno d(3-6) cr t'(1) by (simp add: apply_diff_def force_apply_single_ok)
  moreover have "reader_at ?r t"
    using t'(2,3) rf(3) id by (cases r; cases t) (simp add: reader_at_def same_state_iff)
  ultimately show ?thesis using that d by blast
qed

lemma shard_step_seqno: "shard_step E cfg s s' \<Longrightarrow> st_seqno s' = SeqNo_next (st_seqno s) \<and> st_seqno s < - 1"
  by (auto elim!: shard_step.cases compute_next_state_Inr simp: run_cmd_def SeqNo_next_def)

lemma shard_step_diff:
  assumes "shard_reachable E cfg f" and step: "shard_step E cfg f t" and "elements_ok el" and "diffable f t" and "reader_at r f"
  obtains d r' where "from_diff el f t = Some d" and "sd_seqno_from d = st_seqno f" and "sd_seqno_to d = st_seqno t"
    and "apply_diff el d r = Some (Inr r')" and "reader_at r' t"
proof -
  have inv: "st_inv f" by (rule shard_reachable_inv [OF assms(1)])
  note ok = shard_step_ok [OF step inv]
  have "st_shard_id f = st_shard_id t" "st_seqno f \<noteq> st_seqno t" using ok(2) by (auto simp: st_advances_def)
  then show ?thesis using apply_diff_ok [OF inv ok(1) _ _ assms(3-5)] that by blast
qed

subsection \<open>The log of a shard\<close>

text \<open>
  Of the versions \<open>vs\<close>, the diffs of each one to the one before it. Consensus holds them encoded,
  each under the sequence number of the version it leads to.
\<close>

fun shard_diffs :: "('f \<Rightarrow> 'f \<Rightarrow> Ordering) \<Rightarrow> 'f State list \<Rightarrow> 'f StateDiff list option" where
  "shard_diffs el (f # t # vs) = do {
     d \<leftarrow> from_diff el f t;
     rest \<leftarrow> shard_diffs el (t # vs);
     Some (d # rest)
   }"
| "shard_diffs el _ = Some []"

definition encode_diffs :: "('f StateDiff \<Rightarrow> bytes) \<Rightarrow> 'f StateDiff list \<Rightarrow> (SeqNo \<times> bytes) list" where
  "encode_diffs encode ds = map (\<lambda>d. (sd_seqno_to d, encode d)) ds"

lemma encode_diffs_simps [simp]:
  "encode_diffs encode [] = []" "encode_diffs encode (d # ds) = (sd_seqno_to d, encode d) # encode_diffs encode ds"
  "encode_diffs encode (ds @ ds') = encode_diffs encode ds @ encode_diffs encode ds'"
  by (simp_all add: encode_diffs_def)

definition versions ::
  "('d :: monoid_add, 'k, 'v) env \<Rightarrow> cmd_cfg \<Rightarrow> 'f :: bounded_lattice State list \<Rightarrow> bool" where
  "versions E cfg vs \<longleftrightarrow>
     vs \<noteq> [] \<and> shard_reachable E cfg (hd vs) \<and> successively (\<lambda>f t. shard_step E cfg f t \<and> diffable f t) vs"

lemma versions_Cons:
  "versions E cfg (f # t # vs) \<longleftrightarrow> shard_reachable E cfg f \<and> shard_step E cfg f t \<and> diffable f t \<and> versions E cfg (t # vs)"
  by (auto simp: versions_def intro: shard_reachable.step)

lemma versions_append: "versions E cfg (vs @ v # ws) \<Longrightarrow> versions E cfg (vs @ [v]) \<and> versions E cfg (v # ws)"
proof (induction vs rule: induct_list012)
  case 1
  then show ?case by (simp add: versions_def)
next
  case (2 f)
  then show ?case by (auto simp: versions_Cons) (simp add: versions_def)
next
  case (3 f t vs)
  then show ?case by (auto simp: versions_Cons)
qed

lemma diffs_total:
  assumes "versions E cfg vs" and "elements_ok el"
  obtains ds where "shard_diffs el vs = Some ds" and "map sd_seqno_to ds = map st_seqno (tl vs)"
proof -
  have "\<exists>ds. shard_diffs el vs = Some ds \<and> map sd_seqno_to ds = map st_seqno (tl vs)"
    using assms
  proof (induction vs rule: induct_list012)
    case (3 f t vs)
    then have s: "shard_reachable E cfg f" "shard_step E cfg f t" "diffable f t" "versions E cfg (t # vs)"
      by (simp_all add: versions_Cons)
    have "st_inv f" using s(1) by (rule shard_reachable_inv)
    then obtain d where "from_diff el f t = Some d" "sd_seqno_to d = st_seqno t"
      using from_diff_ok [of f t el] shard_step_ok [OF s(2)] s(3) "3.prems"(2) by (metis st_advances_def)
    with "3.IH"(2) [OF s(4)] "3.prems"(2) show ?case by auto
  qed (auto simp: versions_def)
  then show ?thesis using that by blast
qed

lemma apply_log:
  assumes "versions E cfg (v # vs)" and "elements_ok el" and "\<forall>d \<in> set ds. decode (encode d) = Some d" and "reader_at r v"
    and "shard_diffs el (v # vs) = Some ds"
  shows "\<exists>r'. apply_encoded_diffs el decode (encode_diffs encode ds) r = Some r' \<and> reader_at r' (last (v # vs))"
  using assms(1,3,4,5)
proof (induction vs arbitrary: v r ds)
  case Nil
  then show ?case by (auto simp: apply_encoded_diffs_def)
next
  case (Cons t vs)
  then have s: "shard_reachable E cfg v" "shard_step E cfg v t" "diffable v t" "versions E cfg (t # vs)"
    by (simp_all add: versions_Cons)
  obtain d r' where d: "from_diff el v t = Some d" "sd_seqno_from d = st_seqno v" "sd_seqno_to d = st_seqno t"
      "apply_diff el d r = Some (Inr r')" "reader_at r' t"
    using shard_step_diff [OF s(1,2) assms(2) s(3) Cons.prems(3)] .
  obtain ds' where ds': "shard_diffs el (t # vs) = Some ds'" "ds = d # ds'"
    using Cons.prems(4) d(1) by (auto split: bind_splits)
  have seqno: "st_seqno r = st_seqno v" "st_seqno r' = st_seqno t"
    using Cons.prems(3) d(5) by (auto simp: reader_at_def same_state_def State_trim_def dest: arg_cong [of _ _ st_seqno])
  obtain r'' where r'': "apply_encoded_diffs el decode (encode_diffs encode ds') r' = Some r''" "reader_at r'' (last (t # vs))"
    using Cons.IH [OF s(4) _ d(5) ds'(1)] Cons.prems(2) ds'(2) by auto
  then obtain ds'' where "decode_diffs decode (st_seqno t) (encode_diffs encode ds') = Some ds''" "apply_diffs el ds'' r' = Some r''"
    by (auto simp: apply_encoded_diffs_def seqno split: bind_splits)
  then have "apply_encoded_diffs el decode (encode_diffs encode ds) r = Some r''"
    using shard_step_seqno [OF s(2)] d Cons.prems(2) by (simp add: apply_encoded_diffs_def seqno ds'(2))
  with r''(2) show ?case by auto
qed

lemma decode_skips:
  assumes "\<forall>e \<in> set l. fst e \<noteq> SeqNo_next n"
  shows "decode_diffs decode n (l @ l') = decode_diffs decode n l'"
  using assms by (induction l) auto

lemma diffs_append:
  "vs \<noteq> [] \<Longrightarrow> shard_diffs el (vs @ ws) = Some ds \<Longrightarrow>
     \<exists>ds1 ds2. shard_diffs el vs = Some ds1 \<and> shard_diffs el (last vs # ws) = Some ds2 \<and> ds = ds1 @ ds2"
proof (induction vs arbitrary: ds rule: induct_list012)
  case (3 f t vs)
  then show ?case by (fastforce split: bind_splits)
qed auto

lemma versions_seqnos:
  assumes "versions E cfg vs"
  shows "sorted_wrt (<) (map st_seqno vs)"
proof -
  have "successively (<) (map st_seqno vs)"
    using assms
  proof (induction vs rule: induct_list012)
    case (3 f t vs)
    then have s: "shard_step E cfg f t" "shard_reachable E cfg f" "versions E cfg (t # vs)" by (simp_all add: versions_Cons)
    have "st_seqno f < st_seqno t"
      using shard_step_ok(2) [OF s(1) shard_reachable_inv [OF s(2)]] by (simp add: st_advances_def)
    with "3.IH"(2) [OF s(3)] show ?case by simp
  qed auto
  then show ?thesis by (simp add: successively_iff_sorted_wrt_strong transp_on_less)
qed

lemma log_before:
  assumes "versions E cfg (vs @ [v])" and "elements_ok el" and "shard_diffs el (vs @ [v]) = Some ds"
  shows "\<forall>e \<in> set (encode_diffs encode ds). fst e \<noteq> SeqNo_next (st_seqno v)"
proof
  fix e assume "e \<in> set (encode_diffs encode ds)"
  then have "fst e \<in> set (map sd_seqno_to ds)" by (auto simp: encode_diffs_def)
  then have "fst e \<in> set (map st_seqno (tl (vs @ [v])))"
    using diffs_total [OF assms(1,2)] assms(3) by (metis option.inject)
  with versions_seqnos [OF assms(1)] have "fst e \<le> st_seqno v \<and> 0 < fst e"
    by (cases vs) (force simp: sorted_wrt_append intro: less_imp_le le_less_trans [OF word_zero_le])+
  then show "fst e \<noteq> SeqNo_next (st_seqno v)"
    unfolding SeqNo_next_def using u64_less_succ [of "st_seqno v"] by (cases "st_seqno v = - 1") auto
qed

subsection \<open>A sample log\<close>

text \<open>The version between two of the sample shard: one batch has been appended.\<close>

definition sample_s3 :: "ts_frontier State" where
  "sample_s3 = sample_s4\<lparr>st_seqno := 3, st_walltime_ms := 12, st_collections := (st_collections sample_s4)
     \<lparr>sc_last_gc_req := 2,
      sc_writers := [([2], sample_writer\<lparr>ws_most_recent_write_token := replicate 16 1, ws_most_recent_write_upper := At 5\<rparr>)],
      sc_trace := \<lparr>tr_spine = \<lparr>sp_effort = 1, sp_next_id = 1, sp_since = At 0, sp_upper = At 5,
        sp_merging = [\<lparr>ms_batches = [sample_sb 0 (sample_batch (At 0) (At 5) 1)], ms_merge = None\<rparr>]\<rparr>,
        tr_roundtrip_structure = True\<rparr>\<rparr>\<rparr>"

lemma run_cmds_step: "run_cmds E cfg ck [cmd] s = Some s' \<Longrightarrow> shard_step E cfg s s'"
  using shard_step.shard_step [of E cfg ck cmd s] by (auto split: if_splits option.splits sum.splits)

lemma sample_step_3: "shard_step sample_env sample_cfg sample_s2 sample_s3"
proof -
  have "run_cmds sample_env sample_cfg sample_clock [sample_append (At 0) (At 5) 1] sample_s2 = Some sample_s3" by code_simp
  then show ?thesis by (rule run_cmds_step)
qed

lemma sample_step_4: "shard_step sample_env sample_cfg sample_s3 sample_s4"
proof -
  have "run_cmds sample_env sample_cfg sample_clock [sample_append (At 5) Closed 2] sample_s3 = Some sample_s4" by code_simp
  then show ?thesis by (rule run_cmds_step)
qed

lemma sample_elements: "elements_ok ts_elements_cmp"
  using ts_elements_cmp_eq preorder_on [OF cmp_of_preorder, of ts_elements] by (simp add: elements_ok_def ts_elements_cmp_def [abs_def])

text \<open>Without run references the condition on their keys is void.\<close>

fun is_single :: "'f RunPart \<Rightarrow> bool" where
  "is_single (Single _) = True"
| "is_single (Many _) = False"

lemma run_refs_by_keyI: "\<forall>b \<in> B. list_all is_single (hb_parts b) \<Longrightarrow> run_refs_by_key B"
  unfolding run_refs_by_key_def list_all_iff by (metis is_single.simps(2))

lemmas sample_s3_reachable = shard_reachable.step [OF sample_s2_reachable sample_step_3]

definition sample_fits :: "ts_frontier State \<Rightarrow> bool" where
  "sample_fits s \<longleftrightarrow>
     tr_roundtrip_structure (st_trace s) \<and> list_all HollowBatch_wf (Trace_batches (st_trace s)) \<and>
     spine_len (tr_spine (st_trace s)) \<le> MAX_TOTAL_LEN \<and> length (sp_merging (tr_spine (st_trace s))) \<le> MAX_LEVELS \<and>
     list_all (\<lambda>b. list_all is_single (hb_parts b)) (Trace_batches (st_trace s))"

lemma sample_s2_fits: "sample_fits sample_s2" by code_simp
lemma sample_s3_fits: "sample_fits sample_s3" by code_simp
lemma sample_s4_fits: "sample_fits sample_s4" by code_simp

lemma fits_storable: "shard_reachable E cfg s \<Longrightarrow> sample_fits s \<Longrightarrow> storable (st_trace s)"
  using shard_reachable_inv [of E cfg s] by (simp add: sample_fits_def storable_def st_inv_def sc_inv_def)

lemma sample_diffable:
  assumes "shard_reachable E cfg s" "shard_reachable E cfg s'" "sample_fits s" "sample_fits s'" "same_ranges (st_trace s) (st_trace s')"
  shows "diffable s s'"
  unfolding diffable_def using assms fits_storable [of E cfg]
  by (auto intro!: run_refs_by_keyI simp: sample_fits_def list_all_iff)

lemma sample_ranges: "same_ranges (st_trace sample_s2) (st_trace sample_s3)" "same_ranges (st_trace sample_s3) (st_trace sample_s4)"
  by code_simp+

lemmas sample_diffable_3 = sample_diffable [OF sample_s2_reachable sample_s3_reachable sample_s2_fits sample_s3_fits sample_ranges(1)]
lemmas sample_diffable_4 = sample_diffable [OF sample_s3_reachable sample_s4_reachable sample_s3_fits sample_s4_fits sample_ranges(2)]

lemma reader_at_self: "storable (st_trace s) \<Longrightarrow> reader_at s s"
  by (simp add: reader_at_def same_state_def)

lemmas sample_reader = reader_at_self [OF fits_storable [OF sample_s3_reachable sample_s3_fits]]

lemma replay_log:
  assumes vs: "versions E cfg (vs @ v # ws)" and el: "elements_ok el" and r: "reader_at r v"
  shows "\<exists>ds. shard_diffs el (vs @ v # ws) = Some ds \<and>
    ((\<forall>d \<in> set ds. decode (encode d) = Some d) \<longrightarrow>
      (\<exists>r'. apply_encoded_diffs el decode (encode_diffs encode ds) r = Some r' \<and> reader_at r' (last (v # ws))))"
proof -
  obtain ds where ds: "shard_diffs el ((vs @ [v]) @ ws) = Some ds" using diffs_total [OF vs el] by auto
  obtain ds1 ds2 where ds12: "shard_diffs el (vs @ [v]) = Some ds1" "shard_diffs el (v # ws) = Some ds2" "ds = ds1 @ ds2"
    using diffs_append [OF _ ds] by auto
  have v: "versions E cfg (vs @ [v])" "versions E cfg (v # ws)" using versions_append [OF vs] by simp_all
  have "\<exists>r'. apply_encoded_diffs el decode (encode_diffs encode ds) r = Some r' \<and> reader_at r' (last (v # ws))"
    if "\<forall>d \<in> set ds. decode (encode d) = Some d"
  proof -
    obtain r' where r': "apply_encoded_diffs el decode (encode_diffs encode ds2) r = Some r'" "reader_at r' (last (v # ws))"
      using apply_log [OF v(2) el _ r ds12(2), of decode encode] \<open>\<forall>d \<in> set ds. _ d\<close> ds12(3) by auto
    have "st_seqno r = st_seqno v"
      using r by (auto simp: reader_at_def same_state_def State_trim_def dest: arg_cong [of _ _ st_seqno])
    then have "apply_encoded_diffs el decode (encode_diffs encode ds) r = Some r'"
      using r'(1) by (simp add: apply_encoded_diffs_def ds12(3) decode_skips [OF log_before [OF v(1) el ds12(1)]])
    with r'(2) show ?thesis by auto
  qed
  with ds show ?thesis by auto
qed

subsection \<open>Properties\<close>

text \<open>
  C9: A version of a shard and the next one, written by any command: taking the diff of the two
  does not panic, and a reader that holds the former and applies the diff holds the latter. Every
  field is restored: readers, writers, rollups, schemas, the since and upper of the trace, its
  batches, and the spine's levels with their merges (up to vacant levels above the highest
  batch). The two versions must fit what the encoding supports: batches are well formed, run
  references with the same blob key are the same reference, and parts with the same spine id
  cover the same times.
\<close>

theorem diff_roundtrip:
  assumes "shard_reachable E cfg f" and "shard_step E cfg f t" and "elements_ok el" and "diffable f t" and "reader_at r f"
  shows "\<exists>d r'. from_diff el f t = Some d \<and> apply_diff el d r = Some (Inr r') \<and> reader_at r' t"
  using shard_step_diff [OF assms] by metis

theorem diff_roundtrip_witness:
  "\<exists>d r'. from_diff ts_elements_cmp sample_s3 sample_s4 = Some d \<and> apply_diff ts_elements_cmp d sample_s3 = Some (Inr r') \<and>
     reader_at r' sample_s4 \<and> length (Trace_batches (st_trace sample_s4)) = 2"
proof -
  have "length (Trace_batches (st_trace sample_s4)) = 2" by code_simp
  then show ?thesis
    using diff_roundtrip [OF sample_s3_reachable sample_step_4 sample_elements sample_diffable_4 sample_reader] by blast
qed

text \<open>
  C1: Readers follow the shard: a reader that holds any version of the shard and is given the
  whole log, the encoded diffs of all its versions, skips the diffs up to the version it holds,
  applies the others without a panic, and then holds the latest version. The protobuf encoding
  of each of these diffs is assumed to decode to that diff.
\<close>

theorem log_replay:
  assumes vs: "versions E cfg (vs @ v # ws)" and el: "elements_ok el" and r: "reader_at r v"
  shows "\<exists>ds. shard_diffs el (vs @ v # ws) = Some ds \<and>
    ((\<forall>d \<in> set ds. decode (encode d) = Some d) \<longrightarrow>
      (\<exists>r'. apply_encoded_diffs el decode (encode_diffs encode ds) r = Some r' \<and> reader_at r' (last (v # ws))))"
  by (rule replay_log [OF assms])

text \<open>Witness: three versions, and a reader that holds the second one.\<close>

definition sample_encode :: "ts_frontier StateDiff \<Rightarrow> bytes" where
  "sample_encode d = [ucast (sd_seqno_to d)]"

definition sample_decode :: "bytes \<Rightarrow> ts_frontier StateDiff option" where
  "sample_decode b = List.find (\<lambda>d. sample_encode d = b) (the (shard_diffs ts_elements_cmp [sample_s2, sample_s3, sample_s4]))"

theorem log_replay_witness:
  "\<exists>ds r'. shard_diffs ts_elements_cmp [sample_s2, sample_s3, sample_s4] = Some ds \<and> length ds = 2 \<and>
     apply_encoded_diffs ts_elements_cmp sample_decode (encode_diffs sample_encode ds) sample_s3 = Some r' \<and>
     reader_at r' sample_s4"
proof -
  have vs: "versions sample_env sample_cfg ([sample_s2] @ sample_s3 # [sample_s4])"
    using sample_s2_reachable sample_step_3 sample_step_4 sample_diffable_3 sample_diffable_4 by (simp add: versions_def)
  have "(case shard_diffs ts_elements_cmp [sample_s2, sample_s3, sample_s4] of None \<Rightarrow> False
     | Some ds \<Rightarrow> length ds = 2 \<and> map sample_encode ds = [[3], [4]])" by code_simp
  then obtain a b where ds: "shard_diffs ts_elements_cmp [sample_s2, sample_s3, sample_s4] = Some [a, b]"
      "sample_encode a = [3]" "sample_encode b = [4]"
    by (auto split: option.splits simp: numeral_2_eq_2 length_Suc_conv)
  have "\<forall>d \<in> set [a, b]. sample_decode (sample_encode d) = Some d" using ds by (simp add: sample_decode_def)
  then show ?thesis
    using log_replay [OF vs sample_elements sample_reader, of sample_decode sample_encode] ds(1) by auto
qed

end
