(* ===== verification/Field_Diffs.thy ===== *)
theory Field_Diffs
  imports State_Diff
begin

section \<open>The encoding of state diffs\<close>

text \<open>
  Translation of the columnar encoding of diffs (\<open>internal/state_diff.rs\<close>, \<open>internal/diff.proto\<close>)
  and of \<open>StateDiff::into_proto\<close> and \<open>from_proto\<close> (\<open>internal/encoding.rs\<close>). The protobuf messages
  of the single keys and values are of a type \<open>'p\<close>: writing and reading them is \<open>prost\<close>'s, an
  argument of the definitions, as are the conversions of the types they stand for.
\<close>

subsection \<open>Messages\<close>

datatype ProtoStateField =
  DeprecatedRollups | LastGcReq | LeasedReaders | Writers | Since | LegacyBatches | CriticalReaders | Hostname
| Rollups | HollowBatches | SpineBatches | SpineMerges | Schemas | ActiveRollupField | ActiveGcField

datatype ProtoStateFieldDiffType = DT_Insert | DT_Update | DT_Delete

fun i32_of_field :: "ProtoStateField \<Rightarrow> int" where
  "i32_of_field DeprecatedRollups = 0"
| "i32_of_field LastGcReq = 1"
| "i32_of_field LeasedReaders = 2"
| "i32_of_field Writers = 3"
| "i32_of_field Since = 4"
| "i32_of_field LegacyBatches = 5"
| "i32_of_field CriticalReaders = 6"
| "i32_of_field Hostname = 7"
| "i32_of_field Rollups = 8"
| "i32_of_field HollowBatches = 9"
| "i32_of_field SpineBatches = 10"
| "i32_of_field SpineMerges = 11"
| "i32_of_field Schemas = 12"
| "i32_of_field ActiveRollupField = 13"
| "i32_of_field ActiveGcField = 14"

fun i32_of_diff_type :: "ProtoStateFieldDiffType \<Rightarrow> int" where
  "i32_of_diff_type DT_Insert = 0"
| "i32_of_diff_type DT_Update = 1"
| "i32_of_diff_type DT_Delete = 2"

definition field_try_from :: "int \<Rightarrow> ProtoStateField option" where
  "field_try_from i =
     find (\<lambda>f. i32_of_field f = i)
       [DeprecatedRollups, LastGcReq, LeasedReaders, Writers, Since, LegacyBatches, CriticalReaders, Hostname,
        Rollups, HollowBatches, SpineBatches, SpineMerges, Schemas, ActiveRollupField, ActiveGcField]"

definition diff_type_try_from :: "int \<Rightarrow> ProtoStateFieldDiffType option" where
  "diff_type_try_from i = find (\<lambda>t. i32_of_diff_type t = i) [DT_Insert, DT_Update, DT_Delete]"

record ProtoStateFieldDiffs =
  pfd_fields :: "int list"
  pfd_diff_types :: "int list"
  pfd_data_lens :: "u64 list"
  pfd_data_bytes :: bytes

record ProtoStateDiff =
  psd_applier_version :: string
  psd_seqno_from :: u64
  psd_seqno_to :: u64
  psd_walltime_ms :: u64
  psd_latest_rollup_key :: string
  psd_field_diffs :: "ProtoStateFieldDiffs option"

subsection \<open>Writing\<close>

record ProtoStateFieldDiffsWriter =
  fw_data_buf :: bytes
  fw_proto :: ProtoStateFieldDiffs

definition push_field :: "ProtoStateField \<Rightarrow> ProtoStateFieldDiffsWriter \<Rightarrow> ProtoStateFieldDiffsWriter" where
  "push_field field w = w\<lparr>fw_proto := (fw_proto w)\<lparr>pfd_fields := pfd_fields (fw_proto w) @ [i32_of_field field]\<rparr>\<rparr>"

definition push_diff_type :: "ProtoStateFieldDiffType \<Rightarrow> ProtoStateFieldDiffsWriter \<Rightarrow> ProtoStateFieldDiffsWriter" where
  "push_diff_type diff_type w =
     w\<lparr>fw_proto := (fw_proto w)\<lparr>pfd_diff_types := pfd_diff_types (fw_proto w) @ [i32_of_diff_type diff_type]\<rparr>\<rparr>"

text \<open>\<open>msg\<close> is what \<open>encode_raw\<close> appends to the buffer.\<close>

definition encode_proto :: "bytes \<Rightarrow> ProtoStateFieldDiffsWriter \<Rightarrow> ProtoStateFieldDiffsWriter" where
  "encode_proto msg w =
     (let len_before = length (fw_data_buf w);
          data_buf = fw_data_buf w @ msg;
          written_len = length data_buf - len_before
      in w\<lparr>fw_data_buf := data_buf,
           fw_proto := (fw_proto w)\<lparr>pfd_data_lens := pfd_data_lens (fw_proto w) @ [of_nat written_len]\<rparr>\<rparr>)"

definition writer_into_proto :: "ProtoStateFieldDiffsWriter \<Rightarrow> ProtoStateFieldDiffs option" where
  "writer_into_proto w = do {
     assert (pfd_data_bytes (fw_proto w) = []);
     Some ((fw_proto w)\<lparr>pfd_data_bytes := fw_data_buf w\<rparr>)
   }"

definition into_writer :: "ProtoStateFieldDiffs \<Rightarrow> ProtoStateFieldDiffsWriter" where
  "into_writer p = \<lparr>fw_data_buf = pfd_data_bytes p, fw_proto = p\<lparr>pfd_data_bytes := []\<rparr>\<rparr>"

subsection \<open>Reading\<close>

datatype field_diffs_error =
  LengthsDisagree nat nat
| UnknownDiffType int
| DataSlicesMismatch nat nat
| DataLensOverflow nat nat
| DataBytesMismatch u64 nat

fun expected_data_slices :: "nat \<Rightarrow> int list \<Rightarrow> field_diffs_error + nat" where
  "expected_data_slices n [] = Inr n"
| "expected_data_slices n (t # ts) =
     (case diff_type_try_from t of
        Some DT_Insert \<Rightarrow> expected_data_slices (n + 1 + 1) ts
      | Some DT_Update \<Rightarrow> expected_data_slices (n + 1 + 2) ts
      | Some DT_Delete \<Rightarrow> expected_data_slices (n + 1 + 1) ts
      | None \<Rightarrow> Inl (UnknownDiffType t))"

definition checked_add :: "u64 \<Rightarrow> u64 \<Rightarrow> u64 option" where
  "checked_add a b = (if unat a + unat b < 2 ^ 64 then Some (a + b) else None)"

fun checked_sum :: "u64 \<Rightarrow> u64 list \<Rightarrow> u64 option" where
  "checked_sum acc [] = Some acc"
| "checked_sum acc (len # lens) = do {
     acc' \<leftarrow> checked_add acc len;
     checked_sum acc' lens
   }"

definition validate :: "ProtoStateFieldDiffs \<Rightarrow> field_diffs_error + unit" where
  "validate p =
     (if length (pfd_fields p) \<noteq> length (pfd_diff_types p) then
        Inl (LengthsDisagree (length (pfd_fields p)) (length (pfd_diff_types p)))
      else
        and_then (expected_data_slices 0 (pfd_diff_types p)) (\<lambda>n.
          if n \<noteq> length (pfd_data_lens p) then Inl (DataSlicesMismatch n (length (pfd_data_lens p)))
          else
            (case checked_sum 0 (pfd_data_lens p) of
               None \<Rightarrow> Inl (DataLensOverflow (length (pfd_data_lens p)) (length (pfd_data_bytes p)))
             | Some expected_data_bytes \<Rightarrow>
                 if unat expected_data_bytes \<noteq> length (pfd_data_bytes p) then
                   Inl (DataBytesMismatch expected_data_bytes (length (pfd_data_bytes p)))
                 else Inr ())))"

record ProtoStateFieldDiff =
  pf_key :: bytes
  pf_diff_type :: ProtoStateFieldDiffType
  pf_from :: bytes
  pf_to :: bytes

record ProtoStateFieldDiffsIter =
  it_len :: nat
  it_diff_idx :: nat
  it_data_idx :: nat
  it_data_offset :: u64
  it_diffs :: ProtoStateFieldDiffs

definition field_diffs_iter :: "ProtoStateFieldDiffs \<Rightarrow> ProtoStateFieldDiffsIter option" where
  "field_diffs_iter p = do {
     let len = length (pfd_fields p);
     assert (length (pfd_diff_types p) = len);
     Some \<lparr>it_len = len, it_diff_idx = 0, it_data_idx = 0, it_data_offset = 0, it_diffs = p\<rparr>
   }"

text \<open>Indexing and slicing panic out of range; the sum of two offsets wraps around.\<close>

definition index_opt :: "'a list \<Rightarrow> nat \<Rightarrow> 'a option" where
  "index_opt xs i = (if i < length xs then Some (xs ! i) else panic)"

definition bytes_slice :: "bytes \<Rightarrow> u64 \<Rightarrow> u64 \<Rightarrow> bytes option" where
  "bytes_slice bs start stop =
     (if start \<le> stop \<and> unat stop \<le> length bs then Some (take (unat stop - unat start) (drop (unat start) bs)) else panic)"

definition next_data :: "ProtoStateFieldDiffsIter \<Rightarrow> (bytes \<times> ProtoStateFieldDiffsIter) option" where
  "next_data it = do {
     let start = it_data_offset it;
     len \<leftarrow> index_opt (pfd_data_lens (it_diffs it)) (it_data_idx it);
     let stop = start + len;
     data \<leftarrow> bytes_slice (pfd_data_bytes (it_diffs it)) start stop;
     Some (data, it\<lparr>it_data_idx := it_data_idx it + 1, it_data_offset := stop\<rparr>)
   }"

datatype TryFromProtoError =
  UnknownEnumVariant string int
| InvalidSemverVersion string
| InvalidPersistState string
| InvalidFieldDiffs field_diffs_error
| OtherProtoError string

definition iter_next ::
  "ProtoStateFieldDiffsIter
     \<Rightarrow> ((TryFromProtoError + ProtoStateField \<times> ProtoStateFieldDiff) option \<times> ProtoStateFieldDiffsIter) option" where
  "iter_next it =
     (if it_len it \<le> it_diff_idx it then Some (None, it)
      else do {
        f \<leftarrow> index_opt (pfd_fields (it_diffs it)) (it_diff_idx it);
        case field_try_from f of
          None \<Rightarrow> Some (Some (Inl (UnknownEnumVariant ''ProtoStateField'' f)), it)
        | Some field \<Rightarrow> do {
            t \<leftarrow> index_opt (pfd_diff_types (it_diffs it)) (it_diff_idx it);
            case diff_type_try_from t of
              None \<Rightarrow> Some (Some (Inl (UnknownEnumVariant ''ProtoStateFieldDiffType'' t)), it)
            | Some diff_type \<Rightarrow> do {
                (key, it1) \<leftarrow> next_data it;
                (from, to, it2) \<leftarrow>
                  (case diff_type of
                     DT_Insert \<Rightarrow> do { (to, it2) \<leftarrow> next_data it1; Some ([], to, it2) }
                   | DT_Update \<Rightarrow> do {
                       (from, it2) \<leftarrow> next_data it1;
                       (to, it3) \<leftarrow> next_data it2;
                       Some (from, to, it3)
                     }
                   | DT_Delete \<Rightarrow> do { (from, it2) \<leftarrow> next_data it1; Some (from, [], it2) });
                let diff = \<lparr>pf_key = key, pf_diff_type = diff_type, pf_from = from, pf_to = to\<rparr>;
                Some (Some (Inr (field, diff)), it2\<lparr>it_diff_idx := it_diff_idx it2 + 1\<rparr>)
              }
          }
      })"

subsection \<open>Keys and values\<close>

text \<open>
  The conversions of one type: \<open>into_proto\<close> and \<open>into_rust\<close> of the type, \<open>encode_raw\<close> and
  \<open>decode\<close> of its message.
\<close>

record ('p, 'v) codec =
  cd_into_proto :: "'v \<Rightarrow> 'p"
  cd_encode_raw :: "'p \<Rightarrow> bytes"
  cd_decode :: "bytes \<Rightarrow> string + 'p"
  cd_into_rust :: "'p \<Rightarrow> TryFromProtoError + 'v"

record ('p, 'f) codecs =
  co_unit :: "('p, unit) codec"
  co_string :: "('p, string) codec"
  co_seqno :: "('p, SeqNo) codec"
  co_rollup :: "('p, HollowRollup) codec"
  co_active_rollup :: "('p, ActiveRollup) codec"
  co_active_gc :: "('p, ActiveGc) codec"
  co_leased_reader_id :: "('p, bytes) codec"
  co_leased_reader :: "('p, 'f LeasedReaderState) codec"
  co_critical_reader_id :: "('p, bytes) codec"
  co_critical_reader :: "('p, 'f CriticalReaderState) codec"
  co_writer_id :: "('p, bytes) codec"
  co_writer :: "('p, 'f WriterState) codec"
  co_schema_id :: "('p, nat) codec"
  co_schemas :: "('p, EncodedSchemas) codec"
  co_frontier :: "('p, 'f) codec"
  co_batch :: "('p, 'f HollowBatch) codec"
  co_spine_id :: "('p, SpineId) codec"
  co_spine_batch :: "('p, 'f ThinSpineBatch) codec"
  co_merge :: "('p, 'f ThinMerge) codec"

abbreviation encode_value :: "('p, 'v) codec \<Rightarrow> 'v \<Rightarrow> ProtoStateFieldDiffsWriter \<Rightarrow> ProtoStateFieldDiffsWriter" where
  "encode_value c v \<equiv> encode_proto (cd_encode_raw c (cd_into_proto c v))"

definition field_diff_into_proto ::
  "('p, 'k) codec \<Rightarrow> ('p, 'v) codec \<Rightarrow> ProtoStateField \<Rightarrow> ('k, 'v) StateFieldDiff
     \<Rightarrow> ProtoStateFieldDiffsWriter \<Rightarrow> ProtoStateFieldDiffsWriter" where
  "field_diff_into_proto ck cv field diff w =
     (let w1 = encode_value ck (sfd_key diff) (push_field field w)
      in case sfd_val diff of
           Insert to \<Rightarrow> encode_value cv to (push_diff_type DT_Insert w1)
         | Update from to \<Rightarrow> encode_value cv to (encode_value cv from (push_diff_type DT_Update w1))
         | Delete from \<Rightarrow> encode_value cv from (push_diff_type DT_Delete w1))"

fun field_diffs_into_proto ::
  "('p, 'k) codec \<Rightarrow> ('p, 'v) codec \<Rightarrow> ProtoStateField \<Rightarrow> ('k, 'v) StateFieldDiff list
     \<Rightarrow> ProtoStateFieldDiffsWriter \<Rightarrow> ProtoStateFieldDiffsWriter" where
  "field_diffs_into_proto ck cv field [] w = w"
| "field_diffs_into_proto ck cv field (d # ds) w =
     field_diffs_into_proto ck cv field ds (field_diff_into_proto ck cv field d w)"

definition decode_message :: "('p, 'v) codec \<Rightarrow> bytes \<Rightarrow> TryFromProtoError + 'p" where
  "decode_message c bs = (case cd_decode c bs of Inl e \<Rightarrow> Inl (InvalidPersistState e) | Inr m \<Rightarrow> Inr m)"

definition field_diff_into_rust ::
  "('p, 'k) codec \<Rightarrow> ('p, 'w) codec \<Rightarrow> ('w \<Rightarrow> 'v) \<Rightarrow> ProtoStateFieldDiff \<Rightarrow> ('k, 'v) StateFieldDiff list
     \<Rightarrow> TryFromProtoError + ('k, 'v) StateFieldDiff list" where
  "field_diff_into_rust ck cv v_fn proto diffs =
     and_then
       (case pf_diff_type proto of
          DT_Insert \<Rightarrow>
            and_then (decode_message cv (pf_to proto)) (\<lambda>to.
            and_then (cd_into_rust cv to) (\<lambda>to.
              Inr (Insert (v_fn to))))
        | DT_Update \<Rightarrow>
            and_then (decode_message cv (pf_from proto)) (\<lambda>from.
            and_then (decode_message cv (pf_to proto)) (\<lambda>to.
            and_then (cd_into_rust cv from) (\<lambda>from.
            and_then (cd_into_rust cv to) (\<lambda>to.
              Inr (Update (v_fn from) (v_fn to))))))
        | DT_Delete \<Rightarrow>
            and_then (decode_message cv (pf_from proto)) (\<lambda>from.
            and_then (cd_into_rust cv from) (\<lambda>from.
              Inr (Delete (v_fn from)))))
       (\<lambda>val.
         and_then (decode_message ck (pf_key proto)) (\<lambda>key.
         and_then (cd_into_rust ck key) (\<lambda>key.
           Inr (diffs @ [field_diff key val]))))"

subsection \<open>Diffs\<close>

record version_ops =
  vo_to_string :: "semver \<Rightarrow> string"
  vo_parse :: "string \<Rightarrow> semver option"

definition empty_field_diffs :: ProtoStateFieldDiffs where
  "empty_field_diffs = \<lparr>pfd_fields = [], pfd_diff_types = [], pfd_data_lens = [], pfd_data_bytes = []\<rparr>"

definition write_field_diffs :: "('p, 'f) codecs \<Rightarrow> 'f StateDiff \<Rightarrow> ProtoStateFieldDiffsWriter \<Rightarrow> ProtoStateFieldDiffsWriter" where
  "write_field_diffs C d w =
     (let w = field_diffs_into_proto (co_unit C) (co_string C) Hostname (sd_hostname d) w;
          w = field_diffs_into_proto (co_unit C) (co_seqno C) LastGcReq (sd_last_gc_req d) w;
          w = field_diffs_into_proto (co_seqno C) (co_rollup C) Rollups (sd_rollups d) w;
          w = field_diffs_into_proto (co_unit C) (co_active_rollup C) ActiveRollupField (sd_active_rollup d) w;
          w = field_diffs_into_proto (co_unit C) (co_active_gc C) ActiveGcField (sd_active_gc d) w;
          w = field_diffs_into_proto (co_leased_reader_id C) (co_leased_reader C) LeasedReaders (sd_leased_readers d) w;
          w = field_diffs_into_proto (co_critical_reader_id C) (co_critical_reader C) CriticalReaders (sd_critical_readers d) w;
          w = field_diffs_into_proto (co_writer_id C) (co_writer C) Writers (sd_writers d) w;
          w = field_diffs_into_proto (co_schema_id C) (co_schemas C) Schemas (sd_schemas d) w;
          w = field_diffs_into_proto (co_unit C) (co_frontier C) Since (sd_since d) w;
          w = field_diffs_into_proto (co_batch C) (co_unit C) LegacyBatches (sd_legacy_batches d) w;
          w = field_diffs_into_proto (co_spine_id C) (co_batch C) HollowBatches (sd_hollow_batches d) w;
          w = field_diffs_into_proto (co_spine_id C) (co_spine_batch C) SpineBatches (sd_spine_batches d) w
      in field_diffs_into_proto (co_spine_id C) (co_merge C) SpineMerges (sd_merges d) w)"

definition diff_into_proto :: "version_ops \<Rightarrow> ('p, 'f) codecs \<Rightarrow> 'f StateDiff \<Rightarrow> ProtoStateDiff option" where
  "diff_into_proto V C d = do {
     field_diffs \<leftarrow> writer_into_proto (write_field_diffs C d (into_writer empty_field_diffs));
     Some \<lparr>psd_applier_version = vo_to_string V (sd_applier_version d), psd_seqno_from = sd_seqno_from d,
       psd_seqno_to = sd_seqno_to d, psd_walltime_ms = sd_walltime_ms d,
       psd_latest_rollup_key = sd_latest_rollup_key d, psd_field_diffs = Some field_diffs\<rparr>
   }"

text \<open>The dispatch on the field. Rollups were once stored by their key only.\<close>

fun field_into_rust ::
  "('p, 'f) codecs \<Rightarrow> ProtoStateField \<Rightarrow> ProtoStateFieldDiff \<Rightarrow> 'f StateDiff \<Rightarrow> TryFromProtoError + 'f StateDiff" where
  "field_into_rust C Hostname diff d =
     and_then (field_diff_into_rust (co_unit C) (co_string C) (\<lambda>v. v) diff (sd_hostname d)) (\<lambda>l. Inr (d\<lparr>sd_hostname := l\<rparr>))"
| "field_into_rust C LastGcReq diff d =
     and_then (field_diff_into_rust (co_unit C) (co_seqno C) (\<lambda>v. v) diff (sd_last_gc_req d)) (\<lambda>l. Inr (d\<lparr>sd_last_gc_req := l\<rparr>))"
| "field_into_rust C ActiveGcField diff d =
     and_then (field_diff_into_rust (co_unit C) (co_active_gc C) (\<lambda>v. v) diff (sd_active_gc d)) (\<lambda>l. Inr (d\<lparr>sd_active_gc := l\<rparr>))"
| "field_into_rust C ActiveRollupField diff d =
     and_then (field_diff_into_rust (co_unit C) (co_active_rollup C) (\<lambda>v. v) diff (sd_active_rollup d))
       (\<lambda>l. Inr (d\<lparr>sd_active_rollup := l\<rparr>))"
| "field_into_rust C Rollups diff d =
     and_then (field_diff_into_rust (co_seqno C) (co_rollup C) (\<lambda>v. v) diff (sd_rollups d)) (\<lambda>l. Inr (d\<lparr>sd_rollups := l\<rparr>))"
| "field_into_rust C DeprecatedRollups diff d =
     and_then (field_diff_into_rust (co_seqno C) (co_string C) (\<lambda>k. \<lparr>ro_key = k, ro_encoded_size_bytes = None\<rparr>) diff (sd_rollups d))
       (\<lambda>l. Inr (d\<lparr>sd_rollups := l\<rparr>))"
| "field_into_rust C LeasedReaders diff d =
     and_then (field_diff_into_rust (co_leased_reader_id C) (co_leased_reader C) (\<lambda>v. v) diff (sd_leased_readers d))
       (\<lambda>l. Inr (d\<lparr>sd_leased_readers := l\<rparr>))"
| "field_into_rust C CriticalReaders diff d =
     and_then (field_diff_into_rust (co_critical_reader_id C) (co_critical_reader C) (\<lambda>v. v) diff (sd_critical_readers d))
       (\<lambda>l. Inr (d\<lparr>sd_critical_readers := l\<rparr>))"
| "field_into_rust C Writers diff d =
     and_then (field_diff_into_rust (co_writer_id C) (co_writer C) (\<lambda>v. v) diff (sd_writers d)) (\<lambda>l. Inr (d\<lparr>sd_writers := l\<rparr>))"
| "field_into_rust C Schemas diff d =
     and_then (field_diff_into_rust (co_schema_id C) (co_schemas C) (\<lambda>v. v) diff (sd_schemas d)) (\<lambda>l. Inr (d\<lparr>sd_schemas := l\<rparr>))"
| "field_into_rust C Since diff d =
     and_then (field_diff_into_rust (co_unit C) (co_frontier C) (\<lambda>v. v) diff (sd_since d)) (\<lambda>l. Inr (d\<lparr>sd_since := l\<rparr>))"
| "field_into_rust C LegacyBatches diff d =
     and_then (field_diff_into_rust (co_batch C) (co_unit C) (\<lambda>v. v) diff (sd_legacy_batches d))
       (\<lambda>l. Inr (d\<lparr>sd_legacy_batches := l\<rparr>))"
| "field_into_rust C HollowBatches diff d =
     and_then (field_diff_into_rust (co_spine_id C) (co_batch C) (\<lambda>v. v) diff (sd_hollow_batches d))
       (\<lambda>l. Inr (d\<lparr>sd_hollow_batches := l\<rparr>))"
| "field_into_rust C SpineBatches diff d =
     and_then (field_diff_into_rust (co_spine_id C) (co_spine_batch C) (\<lambda>v. v) diff (sd_spine_batches d))
       (\<lambda>l. Inr (d\<lparr>sd_spine_batches := l\<rparr>))"
| "field_into_rust C SpineMerges diff d =
     and_then (field_diff_into_rust (co_spine_id C) (co_merge C) (\<lambda>v. v) diff (sd_merges d)) (\<lambda>l. Inr (d\<lparr>sd_merges := l\<rparr>))"

text \<open>
  The loop over the iterator: it ends with the iterator or at the first error. A loop that does
  not end, like a panic, is \<open>None\<close>.
\<close>

partial_function (option) read_field_diffs ::
  "('p, 'f) codecs \<Rightarrow> ProtoStateFieldDiffsIter \<Rightarrow> 'f StateDiff \<Rightarrow> (TryFromProtoError + 'f StateDiff) option" where
  "read_field_diffs C it d = do {
     (item, it') \<leftarrow> iter_next it;
     case item of
       None \<Rightarrow> Some (Inr d)
     | Some (Inl e) \<Rightarrow> Some (Inl e)
     | Some (Inr (field, diff)) \<Rightarrow>
         (case field_into_rust C field diff d of
            Inl e \<Rightarrow> Some (Inl e)
          | Inr d' \<Rightarrow> read_field_diffs C it' d')
   }"

definition diff_from_proto ::
  "version_ops \<Rightarrow> ('p, 'f) codecs \<Rightarrow> ProtoStateDiff \<Rightarrow> (TryFromProtoError + 'f StateDiff) option" where
  "diff_from_proto V C proto =
     (case (if psd_applier_version proto = [] then Some \<lparr>major = 0, minor = 0, patch = 0\<rparr> else vo_parse V (psd_applier_version proto)) of
        None \<Rightarrow> Some (Inl (InvalidSemverVersion (psd_applier_version proto)))
      | Some applier_version \<Rightarrow>
          let d = StateDiff_new applier_version (psd_seqno_from proto) (psd_seqno_to proto) (psd_walltime_ms proto)
                    (psd_latest_rollup_key proto)
          in case psd_field_diffs proto of
               None \<Rightarrow> Some (Inr d)
             | Some field_diffs \<Rightarrow>
                 (case validate field_diffs of
                    Inl e \<Rightarrow> Some (Inl (InvalidFieldDiffs e))
                  | Inr _ \<Rightarrow> do {
                      it \<leftarrow> field_diffs_iter field_diffs;
                      read_field_diffs C it d
                    }))"

text \<open>\<open>StateDiff::encode\<close> and \<open>decode\<close>. Code that is older than the data it reads halts.\<close>

record diff_ops =
  do_encode :: "ProtoStateDiff \<Rightarrow> bytes"
  do_decode :: "bytes \<Rightarrow> ProtoStateDiff option"

definition code_can_read_data :: "semver \<Rightarrow> semver \<Rightarrow> bool" where
  "code_can_read_data code_version data_version \<longleftrightarrow> \<not> semver_less code_version data_version"

definition diff_encode :: "diff_ops \<Rightarrow> version_ops \<Rightarrow> ('p, 'f) codecs \<Rightarrow> 'f StateDiff \<Rightarrow> bytes option" where
  "diff_encode D V C d = do {
     proto \<leftarrow> diff_into_proto V C d;
     Some (do_encode D proto)
   }"

definition diff_decode :: "diff_ops \<Rightarrow> version_ops \<Rightarrow> ('p, 'f) codecs \<Rightarrow> semver \<Rightarrow> bytes \<Rightarrow> 'f StateDiff option" where
  "diff_decode D V C build_version buf = do {
     proto \<leftarrow> do_decode D buf;
     r \<leftarrow> diff_from_proto V C proto;
     case r of
       Inl _ \<Rightarrow> panic
     | Inr diff \<Rightarrow> do {
         assert (code_can_read_data build_version (sd_applier_version diff));
         Some diff
       }
   }"

end
