(* ===== verification/Field_Diffs_Props.thy ===== *)
theory Field_Diffs_Props
  imports Field_Diffs
begin

section \<open>Properties of the encoding of state diffs\<close>

text \<open>
  The columnar encoding is described by the list of entries it stands for. Writing builds the
  encoding of a list of entries, \<open>validate\<close> accepts nothing else, and iterating over the encoding
  yields the entries one by one. So decoding never panics and always ends, on any input, and
  decoding an encoded diff gives the diff.
\<close>

subsection \<open>Entries\<close>

fun slices :: "ProtoStateFieldDiff \<Rightarrow> bytes list" where
  "slices fd =
     pf_key fd # (case pf_diff_type fd of DT_Insert \<Rightarrow> [pf_to fd] | DT_Update \<Rightarrow> [pf_from fd, pf_to fd] | DT_Delete \<Rightarrow> [pf_from fd])"

definition canonical :: "ProtoStateFieldDiff \<Rightarrow> bool" where
  "canonical fd \<longleftrightarrow> (pf_diff_type fd = DT_Insert \<longrightarrow> pf_from fd = []) \<and> (pf_diff_type fd = DT_Delete \<longrightarrow> pf_to fd = [])"

type_synonym entry = "int \<times> ProtoStateFieldDiff"

definition all_slices :: "entry list \<Rightarrow> bytes list" where
  "all_slices es = concat (map (\<lambda>e. slices (snd e)) es)"

lemma all_slices_simps [simp]:
  "all_slices [] = []" "all_slices (e # es) = slices (snd e) @ all_slices es"
  "all_slices (es @ es') = all_slices es @ all_slices es'"
  by (simp_all add: all_slices_def)

definition proto_of :: "entry list \<Rightarrow> ProtoStateFieldDiffs" where
  "proto_of es =
     \<lparr>pfd_fields = map fst es, pfd_diff_types = map (\<lambda>e. i32_of_diff_type (pf_diff_type (snd e))) es,
      pfd_data_lens = map (\<lambda>s. of_nat (length s)) (all_slices es), pfd_data_bytes = concat (all_slices es)\<rparr>"

text \<open>The iterator before the entries \<open>es'\<close>.\<close>

definition it_at :: "entry list \<Rightarrow> entry list \<Rightarrow> ProtoStateFieldDiffsIter" where
  "it_at es es' =
     \<lparr>it_len = length (es @ es'), it_diff_idx = length es, it_data_idx = length (all_slices es),
      it_data_offset = of_nat (length (concat (all_slices es))), it_diffs = proto_of (es @ es')\<rparr>"

definition fits :: "entry list \<Rightarrow> bool" where
  "fits es \<longleftrightarrow> (\<forall>e \<in> set es. canonical (snd e)) \<and> length (concat (all_slices es)) < 2 ^ 64"

subsection \<open>Iterating\<close>

lemma diff_type_try_from [simp]: "diff_type_try_from (i32_of_diff_type t) = Some t"
  by (cases t) (simp_all add: diff_type_try_from_def)

lemma diff_type_try_from_Some: "diff_type_try_from i = Some t \<longleftrightarrow> i = i32_of_diff_type t"
  by (cases t) (auto simp: diff_type_try_from_def)

lemma field_try_from [simp]: "field_try_from (i32_of_field f) = Some f"
  by (cases f) (simp_all add: field_try_from_def)

lemma next_data_ok:
  assumes "length (concat (ss @ s # ss')) < 2 ^ 64"
    and "pfd_data_lens (it_diffs it) = map (\<lambda>s. of_nat (length s)) (ss @ s # ss')"
    and "pfd_data_bytes (it_diffs it) = concat (ss @ s # ss')"
    and "it_data_idx it = length ss" and "it_data_offset it = of_nat (length (concat ss))"
  shows "next_data it = Some (s, it\<lparr>it_data_idx := length (ss @ [s]), it_data_offset := of_nat (length (concat (ss @ [s])))\<rparr>)"
proof -
  have le: "length (concat ss) + length s < 2 ^ 64" using assms(1) by simp
  have u: "unat (of_nat (length (concat ss)) :: u64) = length (concat ss)"
    "unat (of_nat (length (concat ss) + length s) :: u64) = length (concat ss) + length s"
    using le by (simp_all add: unat_of_nat del: of_nat_add)
  have "bytes_slice (concat (ss @ s # ss')) (of_nat (length (concat ss))) (of_nat (length (concat ss) + length s)) = Some s"
    unfolding bytes_slice_def u word_le_nat_alt by simp
  then show ?thesis
    using assms(2-) by (simp add: next_data_def index_opt_def nth_append Let_def)
qed

lemma iter_next_end: "iter_next (it_at es []) = Some (None, it_at es [])"
  by (simp add: iter_next_def it_at_def)

lemma iter_next_unknown:
  "field_try_from (fst e) = None \<Longrightarrow>
     iter_next (it_at es (e # es')) = Some (Some (Inl (UnknownEnumVariant ''ProtoStateField'' (fst e))), it_at es (e # es'))"
  by (simp add: iter_next_def it_at_def proto_of_def index_opt_def nth_append)

text \<open>The iterator after \<open>n\<close> more slices, in the middle of an entry.\<close>

definition it_mid :: "entry list \<Rightarrow> bytes list \<Rightarrow> entry list \<Rightarrow> ProtoStateFieldDiffsIter" where
  "it_mid es ss es' =
     (it_at es es')\<lparr>it_data_idx := length (all_slices es @ ss), it_data_offset := of_nat (length (concat (all_slices es @ ss)))\<rparr>"

lemma next_data_mid:
  assumes "fits (es @ e # es')" and "slices (snd e) = ss @ s # ss'"
  shows "next_data (it_mid es ss (e # es')) = Some (s, it_mid es (ss @ [s]) (e # es'))"
proof -
  let ?it = "it_mid es ss (e # es')" and ?ss = "all_slices es @ ss"
  have "next_data ?it = Some (s, ?it\<lparr>it_data_idx := length (?ss @ [s]), it_data_offset := of_nat (length (concat (?ss @ [s])))\<rparr>)"
    by (rule next_data_ok [of _ _ "ss' @ all_slices es'"])
      (use assms in \<open>simp_all add: fits_def it_mid_def it_at_def proto_of_def del: slices.simps\<close>)
  then show ?thesis by (simp add: it_mid_def)
qed

lemma iter_next_entry:
  assumes fits: "fits (es @ e # es')" and field: "field_try_from (fst e) = Some f"
  shows "iter_next (it_at es (e # es')) = Some (Some (Inr (f, snd e)), it_at (es @ [e]) es')"
proof -
  define fd where "fd = snd e"
  let ?it = "it_at es (e # es')"
  have can: "canonical fd" using fits by (simp add: fits_def fd_def)
  have idx: "\<not> it_len ?it \<le> it_diff_idx ?it" "index_opt (pfd_fields (it_diffs ?it)) (it_diff_idx ?it) = Some (fst e)"
    "index_opt (pfd_diff_types (it_diffs ?it)) (it_diff_idx ?it) = Some (i32_of_diff_type (pf_diff_type fd))"
    by (simp_all add: it_at_def proto_of_def index_opt_def nth_append fd_def)
  have start: "?it = it_mid es [] (e # es')" by (simp add: it_mid_def it_at_def)
  have finish: "(it_mid es (slices fd) (e # es'))\<lparr>it_diff_idx := Suc (it_diff_idx (it_mid es (slices fd) (e # es')))\<rparr> = it_at (es @ [e]) es'"
    by (simp add: it_mid_def it_at_def fd_def del: slices.simps)
  note mid = next_data_mid [OF fits, folded fd_def]
  show ?thesis
  proof (cases "pf_diff_type fd")
    case DT_Insert
    then have fd: "fd = \<lparr>pf_key = pf_key fd, pf_diff_type = DT_Insert, pf_from = [], pf_to = pf_to fd\<rparr>"
      "slices fd = [pf_key fd, pf_to fd]" using can by (cases fd, simp add: canonical_def)+
    have "iter_next ?it = Some (Some (Inr (f, \<lparr>pf_key = pf_key fd, pf_diff_type = DT_Insert, pf_from = [], pf_to = pf_to fd\<rparr>)),
        (it_mid es (slices fd) (e # es'))\<lparr>it_diff_idx := Suc (it_diff_idx (it_mid es (slices fd) (e # es')))\<rparr>)"
      using idx mid [of "[]" "pf_key fd" "[pf_to fd]"] mid [of "[pf_key fd]" "pf_to fd" "[]"] DT_Insert
      unfolding start by (simp add: iter_next_def diff_type_try_from_def field fd(2))
    then show ?thesis unfolding finish fd(1) [symmetric] by (simp add: fd_def)
  next
    case DT_Update
    then have fd: "fd = \<lparr>pf_key = pf_key fd, pf_diff_type = DT_Update, pf_from = pf_from fd, pf_to = pf_to fd\<rparr>"
      "slices fd = [pf_key fd, pf_from fd, pf_to fd]" by (cases fd, simp)+
    have "iter_next ?it = Some (Some (Inr (f, \<lparr>pf_key = pf_key fd, pf_diff_type = DT_Update, pf_from = pf_from fd, pf_to = pf_to fd\<rparr>)),
        (it_mid es (slices fd) (e # es'))\<lparr>it_diff_idx := Suc (it_diff_idx (it_mid es (slices fd) (e # es')))\<rparr>)"
      using idx mid [of "[]" "pf_key fd" "[pf_from fd, pf_to fd]"] mid [of "[pf_key fd]" "pf_from fd" "[pf_to fd]"]
        mid [of "[pf_key fd, pf_from fd]" "pf_to fd" "[]"] DT_Update
      unfolding start by (simp add: iter_next_def diff_type_try_from_def field fd(2))
    then show ?thesis unfolding finish fd(1) [symmetric] by (simp add: fd_def)
  next
    case DT_Delete
    then have fd: "fd = \<lparr>pf_key = pf_key fd, pf_diff_type = DT_Delete, pf_from = pf_from fd, pf_to = []\<rparr>"
      "slices fd = [pf_key fd, pf_from fd]" using can by (cases fd, simp add: canonical_def)+
    have "iter_next ?it = Some (Some (Inr (f, \<lparr>pf_key = pf_key fd, pf_diff_type = DT_Delete, pf_from = pf_from fd, pf_to = []\<rparr>)),
        (it_mid es (slices fd) (e # es'))\<lparr>it_diff_idx := Suc (it_diff_idx (it_mid es (slices fd) (e # es')))\<rparr>)"
      using idx mid [of "[]" "pf_key fd" "[pf_from fd]"] mid [of "[pf_key fd]" "pf_from fd" "[]"] DT_Delete
      unfolding start by (simp add: iter_next_def diff_type_try_from_def field fd(2))
    then show ?thesis unfolding finish fd(1) [symmetric] by (simp add: fd_def)
  qed
qed

subsection \<open>What validation accepts\<close>

fun slice_count :: "ProtoStateFieldDiffType \<Rightarrow> nat" where
  "slice_count DT_Insert = 2"
| "slice_count DT_Update = 3"
| "slice_count DT_Delete = 2"

lemma expected_data_slices_eq:
  "expected_data_slices n is = Inr k \<Longrightarrow>
     \<exists>ts. is = map i32_of_diff_type ts \<and> k = n + sum_list (map slice_count ts)"
proof (induction n "is" rule: expected_data_slices.induct)
  case (2 n i "is")
  then obtain t where t: "diff_type_try_from i = Some t" by (cases "diff_type_try_from i") auto
  then have "expected_data_slices (n + slice_count t) is = Inr k"
    using "2.prems" by (cases t) (simp_all add: numeral_eq_Suc)
  moreover have "expected_data_slices (n + slice_count t) is = Inr k \<Longrightarrow>
      \<exists>ts. is = map i32_of_diff_type ts \<and> k = (n + slice_count t) + sum_list (map slice_count ts)"
    using "2.IH" t by (cases t) (simp_all add: numeral_eq_Suc)
  ultimately obtain ts where "is = map i32_of_diff_type ts" "k = n + slice_count t + sum_list (map slice_count ts)" by blast
  then show ?case using t by (intro exI [of _ "t # ts"]) (simp add: diff_type_try_from_Some)
qed simp

lemma checked_sum_eq: "checked_sum acc lens = Some s \<Longrightarrow> unat s = unat acc + sum_list (map unat lens)"
proof (induction acc lens rule: checked_sum.induct)
  case (2 acc len lens)
  then show ?case by (auto simp: checked_add_def unat_word_ariths split: bind_splits if_splits)
qed simp

lemma split_bytes:
  "sum_list (map unat lens) = length bs \<Longrightarrow> \<exists>ss. concat ss = bs \<and> map (\<lambda>s. of_nat (length s)) ss = (lens :: u64 list)"
proof (induction lens arbitrary: bs)
  case (Cons len lens)
  have "sum_list (map unat lens) = length (drop (unat len) bs)" using Cons.prems by simp
  then obtain ss where "concat ss = drop (unat len) bs" "map (\<lambda>s. of_nat (length s)) ss = lens"
    using Cons.IH by blast
  with Cons.prems show ?case by (intro exI [of _ "take (unat len) bs # ss"]) (auto simp: min_absorb2)
qed simp

lemma entry_of_slices:
  assumes "slice_count t \<le> length ss"
  obtains fd ss' where "ss = slices fd @ ss'" and "pf_diff_type fd = t" and "canonical fd"
    and "length ss = slice_count t + length ss'"
proof (cases t)
  case DT_Insert
  then obtain k b ss' where "ss = k # b # ss'" using assms by (auto simp: numeral_eq_Suc Suc_le_length_iff)
  with DT_Insert that [of "\<lparr>pf_key = k, pf_diff_type = t, pf_from = [], pf_to = b\<rparr>" ss'] show ?thesis by (simp add: canonical_def)
next
  case DT_Update
  then obtain k a b ss' where "ss = k # a # b # ss'" using assms by (auto simp: numeral_eq_Suc Suc_le_length_iff)
  with DT_Update that [of "\<lparr>pf_key = k, pf_diff_type = t, pf_from = a, pf_to = b\<rparr>" ss'] show ?thesis by (simp add: canonical_def)
next
  case DT_Delete
  then obtain k a ss' where "ss = k # a # ss'" using assms by (auto simp: numeral_eq_Suc Suc_le_length_iff)
  with DT_Delete that [of "\<lparr>pf_key = k, pf_diff_type = t, pf_from = a, pf_to = []\<rparr>" ss'] show ?thesis by (simp add: canonical_def)
qed

lemma entries_of_slices:
  assumes "length fs = length ts" and "length ss = sum_list (map slice_count ts)"
  shows "\<exists>es. map fst es = fs \<and> map (\<lambda>e. pf_diff_type (snd e)) es = ts \<and> all_slices es = ss \<and> (\<forall>e \<in> set es. canonical (snd e))"
  using assms
proof (induction fs ts arbitrary: ss rule: list_induct2)
  case (Cons f fs t ts)
  then have "slice_count t \<le> length ss" by simp
  then obtain fd ss' where fd: "ss = slices fd @ ss'" "pf_diff_type fd = t" "canonical fd" "length ss = slice_count t + length ss'"
    by (rule entry_of_slices)
  obtain es where "map fst es = fs" "map (\<lambda>e. pf_diff_type (snd e)) es = ts" "all_slices es = ss'" "\<forall>e \<in> set es. canonical (snd e)"
    using Cons.IH [of ss'] Cons.prems fd(4) by auto
  with fd show ?case by (intro exI [of _ "(f, fd) # es"]) (simp del: slices.simps)
qed auto

lemma validate_entries:
  assumes "validate p = Inr ()"
  obtains es where "p = proto_of es" and "fits es"
proof -
  obtain ts where ts: "pfd_diff_types p = map i32_of_diff_type ts" "length (pfd_data_lens p) = sum_list (map slice_count ts)"
      "length (pfd_fields p) = length ts"
    and sum: "sum_list (map unat (pfd_data_lens p)) = length (pfd_data_bytes p)" "length (pfd_data_bytes p) < 2 ^ 64"
  proof -
    obtain n s where n: "expected_data_slices 0 (pfd_diff_types p) = Inr n" "n = length (pfd_data_lens p)"
        "length (pfd_fields p) = length (pfd_diff_types p)"
      and s: "checked_sum 0 (pfd_data_lens p) = Some s" "unat s = length (pfd_data_bytes p)"
      using assms by (cases "expected_data_slices 0 (pfd_diff_types p)") (auto simp: validate_def split: if_splits option.splits)
    have "unat s < 2 ^ 64" using unsigned_less [of s] by simp
    then show ?thesis
      using that expected_data_slices_eq [OF n(1)] checked_sum_eq [OF s(1)] n s(2) by auto
  qed
  obtain ss where ss: "concat ss = pfd_data_bytes p" "map (\<lambda>s. of_nat (length s)) ss = pfd_data_lens p"
    using split_bytes [OF sum(1)] by blast
  have "length ss = sum_list (map slice_count ts)" using arg_cong [OF ss(2), of length] ts(2) by simp
  then obtain es where es: "map fst es = pfd_fields p" "map (\<lambda>e. pf_diff_type (snd e)) es = ts" "all_slices es = ss"
      "\<forall>e \<in> set es. canonical (snd e)"
    using entries_of_slices [OF ts(3), of ss] by blast
  have "map (\<lambda>e. i32_of_diff_type (pf_diff_type (snd e))) es = pfd_diff_types p"
    unfolding ts(1) es(2) [symmetric] by simp
  with es ss have "p = proto_of es" by (cases p) (simp add: proto_of_def)
  moreover have "fits es" using es ss sum(2) by (simp add: fits_def)
  ultimately show ?thesis by (rule that)
qed

lemma expected_data_slices_of:
  "expected_data_slices n (map (\<lambda>e. i32_of_diff_type (pf_diff_type (snd e))) es) = Inr (n + length (all_slices es))"
proof (induction es arbitrary: n)
  case (Cons e es)
  show ?case using Cons.IH by (cases "pf_diff_type (snd e)") (simp_all add: diff_type_try_from_def)
qed simp

lemma checked_sum_of:
  "unat acc + sum_list (map unat lens) < 2 ^ 64 \<Longrightarrow> \<exists>s. checked_sum acc lens = Some s"
proof (induction lens arbitrary: acc)
  case (Cons len lens)
  then have "unat (acc + len) = unat acc + unat len" by (simp add: unat_word_ariths)
  with Cons show ?case by (simp add: checked_add_def)
qed simp

lemma validate_proto_of:
  assumes "fits es"
  shows "validate (proto_of es) = Inr ()"
proof -
  have small: "length s < 2 ^ 64" if "s \<in> set (all_slices es)" for s
    using assms member_le_sum_list [of "length s" "map length (all_slices es)"] that by (simp add: fits_def length_concat)
  have sum: "sum_list (map unat (map (\<lambda>s. of_nat (length s) :: u64) (all_slices es))) = length (concat (all_slices es))"
    using small by (auto simp: length_concat unat_of_nat comp_def intro!: arg_cong [where f = sum_list])
  then have "unat (0 :: u64) + sum_list (map unat (map (\<lambda>s. of_nat (length s) :: u64) (all_slices es))) < 2 ^ 64"
    unfolding sum using assms by (simp add: fits_def)
  then obtain s where s: "checked_sum 0 (map (\<lambda>s. of_nat (length s)) (all_slices es)) = Some s"
    using checked_sum_of by blast
  then show ?thesis
    using checked_sum_eq [OF s] sum by (simp add: validate_def proto_of_def expected_data_slices_of)
qed

subsection \<open>Decoding\<close>

lemma read_total:
  assumes "fits (es @ es')"
  shows "\<exists>r. read_field_diffs C (it_at es es') d = Some r"
  using assms
proof (induction es' arbitrary: es d)
  case Nil
  show ?case by (subst read_field_diffs.simps) (simp add: iter_next_end)
next
  case (Cons e es')
  show ?case
  proof (cases "field_try_from (fst e)")
    case None
    then show ?thesis by (subst read_field_diffs.simps) (simp add: iter_next_unknown)
  next
    case (Some f)
    note step = iter_next_entry [OF Cons.prems Some]
    show ?thesis
      using Cons.IH [of "es @ [e]"] Cons.prems
      by (subst read_field_diffs.simps) (auto simp: step split: sum.splits)
  qed
qed

subsection \<open>Encoding\<close>

abbreviation value_bytes :: "('p, 'v) codec \<Rightarrow> 'v \<Rightarrow> bytes" where
  "value_bytes c v \<equiv> cd_encode_raw c (cd_into_proto c v)"

definition proto_entry :: "('p, 'k) codec \<Rightarrow> ('p, 'v) codec \<Rightarrow> ProtoStateField \<Rightarrow> ('k, 'v) StateFieldDiff \<Rightarrow> entry" where
  "proto_entry ck cv field d =
     (i32_of_field field,
      case sfd_val d of
        Insert to \<Rightarrow> \<lparr>pf_key = value_bytes ck (sfd_key d), pf_diff_type = DT_Insert, pf_from = [], pf_to = value_bytes cv to\<rparr>
      | Update from to \<Rightarrow>
          \<lparr>pf_key = value_bytes ck (sfd_key d), pf_diff_type = DT_Update, pf_from = value_bytes cv from, pf_to = value_bytes cv to\<rparr>
      | Delete from \<Rightarrow> \<lparr>pf_key = value_bytes ck (sfd_key d), pf_diff_type = DT_Delete, pf_from = value_bytes cv from, pf_to = []\<rparr>)"

definition represents :: "ProtoStateFieldDiffsWriter \<Rightarrow> entry list \<Rightarrow> bool" where
  "represents w es \<longleftrightarrow> w = \<lparr>fw_data_buf = concat (all_slices es), fw_proto = (proto_of es)\<lparr>pfd_data_bytes := []\<rparr>\<rparr>"

lemma fst_proto_entry [simp]: "fst (proto_entry ck cv field d) = i32_of_field field"
  by (simp add: proto_entry_def)

lemma proto_entry_canonical: "canonical (snd (proto_entry ck cv field d))"
  by (simp add: proto_entry_def canonical_def split: StateFieldValDiff.splits)

lemma write_entry: "represents w es \<Longrightarrow> represents (field_diff_into_proto ck cv field d w) (es @ [proto_entry ck cv field d])"
  by (simp add: represents_def field_diff_into_proto_def proto_entry_def encode_proto_def push_field_def push_diff_type_def
      proto_of_def Let_def split: StateFieldValDiff.splits)

lemma write_entries:
  "represents w es \<Longrightarrow> represents (field_diffs_into_proto ck cv field ds w) (es @ map (proto_entry ck cv field) ds)"
proof (induction ds arbitrary: w es)
  case (Cons d ds)
  from Cons.IH [OF write_entry [OF Cons.prems]] show ?case by simp
qed simp

definition diff_entries :: "('p, 'f) codecs \<Rightarrow> 'f StateDiff \<Rightarrow> entry list" where
  "diff_entries C d =
     map (proto_entry (co_unit C) (co_string C) Hostname) (sd_hostname d) @
     map (proto_entry (co_unit C) (co_seqno C) LastGcReq) (sd_last_gc_req d) @
     map (proto_entry (co_seqno C) (co_rollup C) Rollups) (sd_rollups d) @
     map (proto_entry (co_unit C) (co_active_rollup C) ActiveRollupField) (sd_active_rollup d) @
     map (proto_entry (co_unit C) (co_active_gc C) ActiveGcField) (sd_active_gc d) @
     map (proto_entry (co_leased_reader_id C) (co_leased_reader C) LeasedReaders) (sd_leased_readers d) @
     map (proto_entry (co_critical_reader_id C) (co_critical_reader C) CriticalReaders) (sd_critical_readers d) @
     map (proto_entry (co_writer_id C) (co_writer C) Writers) (sd_writers d) @
     map (proto_entry (co_schema_id C) (co_schemas C) Schemas) (sd_schemas d) @
     map (proto_entry (co_unit C) (co_frontier C) Since) (sd_since d) @
     map (proto_entry (co_batch C) (co_unit C) LegacyBatches) (sd_legacy_batches d) @
     map (proto_entry (co_spine_id C) (co_batch C) HollowBatches) (sd_hollow_batches d) @
     map (proto_entry (co_spine_id C) (co_spine_batch C) SpineBatches) (sd_spine_batches d) @
     map (proto_entry (co_spine_id C) (co_merge C) SpineMerges) (sd_merges d)"

lemma write_diff: "represents (write_field_diffs C d (into_writer empty_field_diffs)) (diff_entries C d)"
proof -
  have w: "represents (into_writer empty_field_diffs) []"
    by (simp add: represents_def into_writer_def empty_field_diffs_def proto_of_def)
  show ?thesis
    unfolding write_field_diffs_def Let_def diff_entries_def
    by (rule write_entries [OF write_entries [OF write_entries [OF write_entries [OF write_entries [OF write_entries [OF write_entries
        [OF write_entries [OF write_entries [OF write_entries [OF write_entries [OF write_entries [OF write_entries [OF write_entries
        [OF w]]]]]]]]]]]]], unfolded append_Nil append_assoc])
qed

lemma diff_entries_canonical: "e \<in> set (diff_entries C d) \<Longrightarrow> canonical (snd e)"
  unfolding diff_entries_def by (auto simp: proto_entry_canonical)

text \<open>What is asked of the conversions of a value.\<close>

definition codes :: "('p, 'v) codec \<Rightarrow> 'v \<Rightarrow> bool" where
  "codes c v \<longleftrightarrow> (case cd_decode c (value_bytes c v) of Inl _ \<Rightarrow> False | Inr m \<Rightarrow> cd_into_rust c m = Inr v)"

fun val_codes :: "('p, 'v) codec \<Rightarrow> 'v StateFieldValDiff \<Rightarrow> bool" where
  "val_codes c (Insert to) = codes c to"
| "val_codes c (Update from to) = (codes c from \<and> codes c to)"
| "val_codes c (Delete from) = codes c from"

definition field_codes :: "('p, 'k) codec \<Rightarrow> ('p, 'v) codec \<Rightarrow> ('k, 'v) StateFieldDiff list \<Rightarrow> bool" where
  "field_codes ck cv ds \<longleftrightarrow> list_all (\<lambda>d. codes ck (sfd_key d) \<and> val_codes cv (sfd_val d)) ds"

definition diff_codes :: "('p, 'f) codecs \<Rightarrow> 'f StateDiff \<Rightarrow> bool" where
  "diff_codes C d \<longleftrightarrow>
     field_codes (co_unit C) (co_string C) (sd_hostname d) \<and>
     field_codes (co_unit C) (co_seqno C) (sd_last_gc_req d) \<and>
     field_codes (co_seqno C) (co_rollup C) (sd_rollups d) \<and>
     field_codes (co_unit C) (co_active_rollup C) (sd_active_rollup d) \<and>
     field_codes (co_unit C) (co_active_gc C) (sd_active_gc d) \<and>
     field_codes (co_leased_reader_id C) (co_leased_reader C) (sd_leased_readers d) \<and>
     field_codes (co_critical_reader_id C) (co_critical_reader C) (sd_critical_readers d) \<and>
     field_codes (co_writer_id C) (co_writer C) (sd_writers d) \<and>
     field_codes (co_schema_id C) (co_schemas C) (sd_schemas d) \<and>
     field_codes (co_unit C) (co_frontier C) (sd_since d) \<and>
     field_codes (co_batch C) (co_unit C) (sd_legacy_batches d) \<and>
     field_codes (co_spine_id C) (co_batch C) (sd_hollow_batches d) \<and>
     field_codes (co_spine_id C) (co_spine_batch C) (sd_spine_batches d) \<and>
     field_codes (co_spine_id C) (co_merge C) (sd_merges d)"

lemma into_rust_entry:
  assumes "codes ck (sfd_key d)" and "val_codes cv (sfd_val d)"
  shows "field_diff_into_rust ck cv (\<lambda>v. v) (snd (proto_entry ck cv field d)) ds = Inr (ds @ [d])"
  using assms
  by (cases d; cases "sfd_val d")
    (auto simp: field_diff_into_rust_def proto_entry_def decode_message_def codes_def split: sum.splits)

text \<open>Reading the entries \<open>es\<close> changes the diff read so far by \<open>u\<close>.\<close>

definition reads :: "('p, 'f) codecs \<Rightarrow> entry list \<Rightarrow> ('f StateDiff \<Rightarrow> 'f StateDiff) \<Rightarrow> bool" where
  "reads C es u \<longleftrightarrow>
     (\<forall>before after sd. fits (before @ es @ after) \<longrightarrow>
        read_field_diffs C (it_at before (es @ after)) sd = read_field_diffs C (it_at (before @ es) after) (u sd))"

lemma reads_append: "reads C es u \<Longrightarrow> reads C es' u' \<Longrightarrow> reads C (es @ es') (u' \<circ> u)"
  unfolding reads_def by (metis (no_types, lifting) append.assoc comp_apply)

lemma reads_Nil: "reads C [] (\<lambda>sd. sd)"
  by (simp add: reads_def)

lemma reads_entry:
  assumes "field_into_rust C field (snd e) = (\<lambda>sd. Inr (u sd))" and "fst e = i32_of_field field"
  shows "reads C [e] u"
  unfolding reads_def
proof (intro allI impI)
  fix before after sd assume "fits (before @ [e] @ after)"
  then have "iter_next (it_at before ([e] @ after)) = Some (Some (Inr (field, snd e)), it_at (before @ [e]) after)"
    using iter_next_entry [of before e after field] assms(2) by simp
  then show "read_field_diffs C (it_at before ([e] @ after)) sd = read_field_diffs C (it_at (before @ [e]) after) (u sd)"
    by (subst read_field_diffs.simps) (simp add: assms(1))
qed

text \<open>The entries of one field are read into the list of that field.\<close>

lemma reads_segment:
  assumes dispatch: "\<And>fd sd. field_into_rust C field fd sd =
      and_then (field_diff_into_rust ck cv (\<lambda>v. v) fd (get sd)) (\<lambda>l. Inr (upd (\<lambda>_. l) sd))"
    and upd: "\<And>f g sd. upd f (upd g sd) = upd (\<lambda>l. f (g l)) sd" "\<And>sd. upd (\<lambda>l. l) sd = sd"
      "\<And>sd l. upd (\<lambda>_. get sd @ l) sd = upd (\<lambda>l'. l' @ l) sd"
    and "field_codes ck cv ds"
  shows "reads C (map (proto_entry ck cv field) ds) (upd (\<lambda>l. l @ ds))"
  using assms(5)
proof (induction ds)
  case Nil
  then show ?case using reads_Nil by (simp add: reads_def upd(2))
next
  case (Cons d ds)
  have "reads C [proto_entry ck cv field d] (upd (\<lambda>l. l @ [d]))"
    using Cons.prems by (intro reads_entry [of _ field]) (simp_all add: fun_eq_iff dispatch into_rust_entry field_codes_def upd(3))
  moreover have "reads C (map (proto_entry ck cv field) ds) (upd (\<lambda>l. l @ ds))"
    using Cons by (simp add: field_codes_def)
  ultimately have "reads C ([proto_entry ck cv field d] @ map (proto_entry ck cv field) ds) (upd (\<lambda>l. l @ ds) \<circ> upd (\<lambda>l. l @ [d]))"
    by (rule reads_append)
  then show ?case by (simp add: reads_def comp_def upd(1))
qed

lemmas reads_fields =
  reads_segment [where field = Hostname and get = sd_hostname and upd = sd_hostname_update, OF field_into_rust.simps(1)]
  reads_segment [where field = LastGcReq and get = sd_last_gc_req and upd = sd_last_gc_req_update, OF field_into_rust.simps(2)]
  reads_segment [where field = Rollups and get = sd_rollups and upd = sd_rollups_update, OF field_into_rust.simps(5)]
  reads_segment [where field = ActiveRollupField and get = sd_active_rollup and upd = sd_active_rollup_update, OF field_into_rust.simps(4)]
  reads_segment [where field = ActiveGcField and get = sd_active_gc and upd = sd_active_gc_update, OF field_into_rust.simps(3)]
  reads_segment [where field = LeasedReaders and get = sd_leased_readers and upd = sd_leased_readers_update, OF field_into_rust.simps(7)]
  reads_segment [where field = CriticalReaders and get = sd_critical_readers and upd = sd_critical_readers_update, OF field_into_rust.simps(8)]
  reads_segment [where field = Writers and get = sd_writers and upd = sd_writers_update, OF field_into_rust.simps(9)]
  reads_segment [where field = Schemas and get = sd_schemas and upd = sd_schemas_update, OF field_into_rust.simps(10)]
  reads_segment [where field = Since and get = sd_since and upd = sd_since_update, OF field_into_rust.simps(11)]
  reads_segment [where field = LegacyBatches and get = sd_legacy_batches and upd = sd_legacy_batches_update, OF field_into_rust.simps(12)]
  reads_segment [where field = HollowBatches and get = sd_hollow_batches and upd = sd_hollow_batches_update, OF field_into_rust.simps(13)]
  reads_segment [where field = SpineBatches and get = sd_spine_batches and upd = sd_spine_batches_update, OF field_into_rust.simps(14)]
  reads_segment [where field = SpineMerges and get = sd_merges and upd = sd_merges_update, OF field_into_rust.simps(15)]

lemma reads_diff:
  assumes "diff_codes C d"
  shows "reads C (diff_entries C d)
    (sd_merges_update (\<lambda>l. l @ sd_merges d) \<circ>
     sd_spine_batches_update (\<lambda>l. l @ sd_spine_batches d) \<circ>
     sd_hollow_batches_update (\<lambda>l. l @ sd_hollow_batches d) \<circ>
     sd_legacy_batches_update (\<lambda>l. l @ sd_legacy_batches d) \<circ>
     sd_since_update (\<lambda>l. l @ sd_since d) \<circ>
     sd_schemas_update (\<lambda>l. l @ sd_schemas d) \<circ>
     sd_writers_update (\<lambda>l. l @ sd_writers d) \<circ>
     sd_critical_readers_update (\<lambda>l. l @ sd_critical_readers d) \<circ>
     sd_leased_readers_update (\<lambda>l. l @ sd_leased_readers d) \<circ>
     sd_active_gc_update (\<lambda>l. l @ sd_active_gc d) \<circ>
     sd_active_rollup_update (\<lambda>l. l @ sd_active_rollup d) \<circ>
     sd_rollups_update (\<lambda>l. l @ sd_rollups d) \<circ>
     sd_last_gc_req_update (\<lambda>l. l @ sd_last_gc_req d) \<circ>
     sd_hostname_update (\<lambda>l. l @ sd_hostname d))"
  unfolding diff_entries_def
  by (intro reads_append reads_fields) (use assms in \<open>simp_all add: diff_codes_def\<close>)

lemma diff_reads_back:
  assumes "diff_codes C d"
  obtains u where "reads C (diff_entries C d) u"
    and "u (StateDiff_new (sd_applier_version d) (sd_seqno_from d) (sd_seqno_to d) (sd_walltime_ms d) (sd_latest_rollup_key d)) = d"
  by (rule that, rule reads_diff [OF assms]) (cases d, simp add: StateDiff_new_def)

lemma proto_roundtrip:
  assumes codes: "diff_codes C d" and len: "sum_list (map length (all_slices (diff_entries C d))) < 2 ^ 64"
    and version: "vo_to_string V (sd_applier_version d) \<noteq> []" "vo_parse V (vo_to_string V (sd_applier_version d)) = Some (sd_applier_version d)"
  shows "\<exists>proto. diff_into_proto V C d = Some proto \<and> diff_from_proto V C proto = Some (Inr d)"
proof -
  let ?es = "diff_entries C d" and ?new = "StateDiff_new (sd_applier_version d) (sd_seqno_from d) (sd_seqno_to d) (sd_walltime_ms d) (sd_latest_rollup_key d)"
  have fits: "fits ?es" using len diff_entries_canonical by (auto simp: fits_def length_concat)
  have enc: "writer_into_proto (write_field_diffs C d (into_writer empty_field_diffs)) = Some (proto_of ?es)"
    using write_diff [of C d] by (simp add: represents_def writer_into_proto_def proto_of_def)
  obtain u where u: "reads C ?es u" "u ?new = d" using diff_reads_back [OF codes] .
  have "read_field_diffs C (it_at [] (?es @ [])) ?new = read_field_diffs C (it_at ([] @ ?es) []) d"
    using u(1) [unfolded reads_def, rule_format, of "[]" "[]" ?new] fits u(2) by simp
  also have "\<dots> = Some (Inr d)" by (subst read_field_diffs.simps) (simp add: iter_next_end)
  finally have read: "read_field_diffs C (it_at [] ?es) ?new = Some (Inr d)" by simp
  have iter: "field_diffs_iter (proto_of ?es) = Some (it_at [] ?es)"
    by (simp add: field_diffs_iter_def proto_of_def it_at_def)
  show ?thesis
    using read version by (simp add: diff_into_proto_def diff_from_proto_def enc iter validate_proto_of [OF fits])
qed

subsection \<open>Properties\<close>

text \<open>
  C11: Decoding the fields of a diff is safe on any input, also on bytes that were not written by
  this code: whatever the columns and the lengths they declare (wrapping sums included), whatever
  the messages decode to, \<open>from_proto\<close> ends without a panic, with a diff or an error.
\<close>

theorem diff_from_proto_total: "\<exists>r. diff_from_proto V C proto = Some r"
proof -
  have "\<exists>r. (field_diffs_iter p \<bind> (\<lambda>it. read_field_diffs C it d)) = Some r" if v: "validate p = Inr ()" for p d
  proof -
    obtain es where es: "p = proto_of es" "fits es" using validate_entries [OF v] .
    then have "field_diffs_iter p = Some (it_at [] es)" by (simp add: field_diffs_iter_def proto_of_def it_at_def)
    then show ?thesis using read_total [of "[]" es] es(2) by simp
  qed
  then show ?thesis
    unfolding diff_from_proto_def Let_def by (auto split: option.splits sum.splits)
qed

text \<open>
  C12: Encoding a diff does not panic, and decoding the result gives the diff back, every field
  and the order of its entries included, as long as the messages of its keys and values and its
  version do and they fit in memory.
\<close>

theorem diff_proto_roundtrip:
  assumes codes: "diff_codes C d" and len: "sum_list (map length (all_slices (diff_entries C d))) < 2 ^ 64"
    and version: "vo_to_string V (sd_applier_version d) \<noteq> []" "vo_parse V (vo_to_string V (sd_applier_version d)) = Some (sd_applier_version d)"
  shows "\<exists>proto. diff_into_proto V C d = Some proto \<and> diff_from_proto V C proto = Some (Inr d)"
  by (rule proto_roundtrip [OF assms])

text \<open>Witness: messages that are their bytes, and a diff that changes three fields.\<close>

definition raw_codec :: "('v \<Rightarrow> bytes) \<Rightarrow> (bytes \<Rightarrow> TryFromProtoError + 'v) \<Rightarrow> (bytes, 'v) codec" where
  "raw_codec enc dec = \<lparr>cd_into_proto = enc, cd_encode_raw = (\<lambda>b. b), cd_decode = Inr, cd_into_rust = dec\<rparr>"

definition no_codec :: "(bytes, 'v) codec" where
  "no_codec = raw_codec (\<lambda>_. []) (\<lambda>_. Inl (OtherProtoError ''unused''))"

definition string_bytes :: "string \<Rightarrow> bytes" where
  "string_bytes cs = map (\<lambda>c. of_nat (of_char c)) cs"

definition bytes_string :: "bytes \<Rightarrow> string" where
  "bytes_string bs = map (\<lambda>b. char_of (unat b)) bs"

definition sample_codecs :: "(bytes, 'f) codecs" where
  "sample_codecs =
     \<lparr>co_unit = raw_codec (\<lambda>_. []) (\<lambda>_. Inr ()), co_string = raw_codec string_bytes (Inr \<circ> bytes_string),
      co_seqno = raw_codec (\<lambda>n. [ucast n]) (\<lambda>bs. Inr (ucast (hd bs))),
      co_rollup = raw_codec (string_bytes \<circ> ro_key) (\<lambda>bs. Inr \<lparr>ro_key = bytes_string bs, ro_encoded_size_bytes = None\<rparr>),
      co_active_rollup = no_codec, co_active_gc = no_codec, co_leased_reader_id = no_codec, co_leased_reader = no_codec,
      co_critical_reader_id = no_codec, co_critical_reader = no_codec, co_writer_id = no_codec, co_writer = no_codec,
      co_schema_id = no_codec, co_schemas = no_codec, co_frontier = no_codec, co_batch = no_codec,
      co_spine_id = no_codec, co_spine_batch = no_codec, co_merge = no_codec\<rparr>"

definition sample_versions :: version_ops where
  "sample_versions = \<lparr>vo_to_string = (\<lambda>_. ''0.1.0''), vo_parse = (\<lambda>_. Some \<lparr>major = 0, minor = 1, patch = 0\<rparr>)\<rparr>"

definition sample_diff :: "ts_frontier StateDiff" where
  "sample_diff =
     (StateDiff_new \<lparr>major = 0, minor = 1, patch = 0\<rparr> 4 5 20 ''r5'')
       \<lparr>sd_hostname := [field_diff () (Update ''a'' ''b'')], sd_last_gc_req := [field_diff () (Update 2 3)],
        sd_rollups := [field_diff 1 (Delete \<lparr>ro_key = ''r1'', ro_encoded_size_bytes = None\<rparr>),
                       field_diff 5 (Insert \<lparr>ro_key = ''r5'', ro_encoded_size_bytes = None\<rparr>)]\<rparr>"

theorem diff_proto_roundtrip_witness:
  "length (all_slices (diff_entries sample_codecs sample_diff)) = 10 \<and>
    (\<exists>proto. diff_into_proto sample_versions sample_codecs sample_diff = Some proto \<and>
       diff_from_proto sample_versions sample_codecs proto = Some (Inr sample_diff))"
proof -
  have "length (all_slices (diff_entries sample_codecs sample_diff)) = 10" by code_simp
  moreover have "diff_codes sample_codecs sample_diff" by code_simp
  moreover have "sum_list (map length (all_slices (diff_entries sample_codecs sample_diff))) = 10" by code_simp
  moreover have "sd_applier_version sample_diff = \<lparr>major = 0, minor = 1, patch = 0\<rparr>" by code_simp
  ultimately show ?thesis
    using diff_proto_roundtrip [of sample_codecs sample_diff sample_versions] by (simp add: sample_versions_def)
qed

end
