(* ===== verification/Schema_Props.thy ===== *)
theory Schema_Props
  imports Schema
begin

section \<open>Migrations are type correct\<close>

text \<open>
  When an old type is found compatible with a new one, the migration applies to every array of
  the old type without a panic and returns an array of the new type and the same length.

  The arrow operations are parameters; \<open>arrow_ok\<close> states what their documentation promises.
\<close>

subsection \<open>Fields by name\<close>

lemma find_from_None: "find_from k name fs = None \<longleftrightarrow> name \<notin> f_name ` set fs"
  by (induction fs arbitrary: k) auto

lemma find_from_Some:
  "find_from k name fs = Some (i, f) \<Longrightarrow> k \<le> i \<and> i - k < length fs \<and> fs ! (i - k) = f \<and> f_name f = name"
proof (induction fs arbitrary: k)
  case (Cons g fs)
  show ?case
  proof (cases "f_name g = name")
    case False
    with Cons have "Suc k \<le> i \<and> i - Suc k < length fs \<and> fs ! (i - Suc k) = f \<and> f_name f = name" by simp
    then show ?thesis by (auto simp: nth_Cons' Suc_le_eq)
  qed (use Cons in simp)
qed simp

lemma fields_find_Some: "fields_find name fs = Some (i, f) \<Longrightarrow> i < length fs \<and> fs ! i = f \<and> f_name f = name"
  using find_from_Some [of 0] by simp

lemma find_from_update:
  "find_from k name fs = Some (i, f) \<Longrightarrow> f_name x = name \<Longrightarrow> find_from k name (fs[i - k := x]) = Some (i, x)"
proof (induction fs arbitrary: k)
  case (Cons g fs)
  show ?case
  proof (cases "f_name g = name")
    case False
    then have "find_from (Suc k) name fs = Some (i, f)" using Cons.prems by simp
    moreover from this have "i - k = Suc (i - Suc k)" using find_from_Some by fastforce
    ultimately show ?thesis using Cons False by simp
  qed (use Cons in auto)
qed simp

lemma fields_find_update: "fields_find name fs = Some (i, f) \<Longrightarrow> f_name x = name \<Longrightarrow> fields_find name (fs[i := x]) = Some (i, x)"
  using find_from_update [of 0] by simp

lemma fields_find_nth:
  assumes "distinct (map f_name fs)" and "i < length fs"
  shows "fields_find (f_name (fs ! i)) fs = Some (i, fs ! i)"
proof (cases "fields_find (f_name (fs ! i)) fs")
  case None
  with assms(2) show ?thesis by (auto simp: find_from_None)
next
  case (Some r)
  then obtain j f where r: "r = (j, f)" "j < length fs" "fs ! j = f" "f_name f = f_name (fs ! i)"
    using fields_find_Some by (cases r) blast
  then have "map f_name fs ! j = map f_name fs ! i" using assms(2) by simp
  then have "j = i" using assms r(2) by (metis length_map nth_eq_iff_index_eq)
  with r Some show ?thesis by simp
qed

text \<open>Replacing the field of a name, or adding it at the end.\<close>

definition put_field :: "Field \<Rightarrow> Field list \<Rightarrow> Field list" where
  "put_field n fs = (case fields_find (f_name n) fs of Some (i, _) \<Rightarrow> fs[i := n] | None \<Rightarrow> fs @ [n])"

lemma put_field_names:
  "map f_name (put_field n fs) = (if f_name n \<in> f_name ` set fs then map f_name fs else map f_name fs @ [f_name n])"
proof (cases "fields_find (f_name n) fs")
  case None
  then have "f_name n \<notin> f_name ` set fs" by (simp add: find_from_None)
  with None show ?thesis by (simp add: put_field_def)
next
  case (Some r)
  then obtain i f where r: "r = (i, f)" "i < length fs" "fs ! i = f" "f_name f = f_name n"
    using fields_find_Some by (cases r) blast
  then have "map f_name (fs[i := n]) = map f_name fs"
    by (simp add: map_update list_update_same_conv)
  moreover have "f_name n \<in> f_name ` set fs" using r by (metis image_eqI nth_mem)
  ultimately show ?thesis using Some r by (simp add: put_field_def)
qed

lemma put_field_distinct: "distinct (map f_name fs) \<Longrightarrow> distinct (map f_name (put_field n fs))"
  by (simp add: put_field_names)

lemma put_field_find:
  assumes "distinct (map f_name fs)" and "m \<noteq> f_name n"
  shows "fields_find m (put_field n fs) = fields_find m fs"
proof (cases "fields_find m fs")
  case None
  then have "m \<notin> set (map f_name (put_field n fs))"
    using assms by (simp only: put_field_names) (auto simp: find_from_None)
  then have "fields_find m (put_field n fs) = None" by (simp add: find_from_None)
  with None show ?thesis by simp
next
  case (Some r)
  then obtain i f where r: "r = (i, f)" "i < length fs" "fs ! i = f" "f_name f = m"
    using fields_find_Some by (cases r) blast
  have "i < length (put_field n fs) \<and> put_field n fs ! i = f"
    using r assms(2)
    by (auto simp: put_field_def nth_append nth_list_update split: option.splits dest!: fields_find_Some)
  with fields_find_nth [OF put_field_distinct [OF assms(1)], of i n] r Some show ?thesis by auto
qed

lemma foldl_put_field:
  assumes "distinct (map f_name fs)" and "distinct (map f_name ns)"
  shows "distinct (map f_name (foldl (\<lambda>fs n. put_field n fs) fs ns))"
    and "m \<notin> f_name ` set ns \<Longrightarrow> fields_find m (foldl (\<lambda>fs n. put_field n fs) fs ns) = fields_find m fs"
  using assms by (induction ns arbitrary: fs) (simp_all add: put_field_distinct put_field_find)

lemma foldl_put_names: "f_name ` set (foldl (\<lambda>fs n. put_field n fs) fs ns) = f_name ` set fs \<union> f_name ` set ns"
proof (induction ns arbitrary: fs)
  case (Cons n ns)
  have "f_name ` set (put_field n fs) = insert (f_name n) (f_name ` set fs)"
    using arg_cong [OF put_field_names [of n fs], of set] by (auto split: if_splits)
  with Cons show ?case by simp
qed simp

subsection \<open>The order of fields\<close>

lemma filter_sorted_indices:
  assumes "distinct xs" and "sorted js" and "distinct js" and "set js \<subseteq> {..<length xs}"
  shows "filter (\<lambda>x. x \<in> set (map ((!) xs) js)) xs = map ((!) xs) js"
proof -
  have "filter (\<lambda>i. xs ! i \<in> set (map ((!) xs) js)) [0..<length xs] = js"
  proof (rule sorted_distinct_set_unique)
    show "set (filter (\<lambda>i. xs ! i \<in> set (map ((!) xs) js)) [0..<length xs]) = set js"
      using assms(1,4) by (auto simp: nth_eq_iff_index_eq)
  qed (use assms in \<open>auto simp: sorted_wrt_filter\<close>)
  then show ?thesis
    by (metis (no_types, lifting) filter_map map_nth comp_def filter_cong)
qed

text \<open>
  One round of the loop over the new fields, for a field the old struct has: the migrations it
  emits.
\<close>

definition found_migrations :: "Field \<Rightarrow> Field \<Rightarrow> StructArrayMigration list \<Rightarrow> bool" where
  "found_migrations o' n pre \<longleftrightarrow>
     (f_nullable o' \<longrightarrow> f_nullable n) \<and>
     (pre = [MakeNull (f_name n)] \<and> f_nullable o' \<and> f_type n = Null \<or>
      (\<exists>m. backward_compatible_typ (f_type o') (f_type n) = Some (Some m) \<and>
         pre = (if \<not> f_nullable o' \<and> f_nullable n then [AlterFieldNullable (f_name n)] else []) @
           (if m = NoOp then [] else [Recurse (f_name n) m])))"

lemma compatible_fields_found:
  assumes "compatible_fields old added (n # ns) = Some (Some ms)" and "fields_find (f_name n) old = Some (i, o')"
  shows "\<not> added \<and> (\<exists>pre ms'. compatible_fields old False ns = Some (Some ms') \<and> ms = pre @ ms' \<and> found_migrations o' n pre)"
proof -
  have na: "\<not> added" and nn: "\<not> (f_nullable o' \<and> \<not> f_nullable n)"
    using assms by (auto split: if_splits)
  note op = assms(1) [unfolded compatible_fields.simps assms(2) option.case prod.case if_not_P [OF na] if_not_P [OF nn]]
  show ?thesis
  proof (cases "is_struct (f_type o') \<and> f_nullable o' \<and> f_type n = Null")
    case True
    with op na obtain ms' where "compatible_fields old False ns = Some (Some ms')" "ms = [MakeNull (f_name n)] @ ms'" by auto
    moreover have "found_migrations o' n [MakeNull (f_name n)]" using True nn by (simp add: found_migrations_def)
    ultimately show ?thesis using na by blast
  next
    case False
    note op = op [unfolded if_not_P [OF False]]
    obtain t where ty: "backward_compatible_typ (f_type o') (f_type n) = Some t"
      using op by (auto split: bind_splits)
    note op = op [unfolded ty Option.bind.simps Let_def]
    obtain m where m: "t = Some m" using op by (cases t) auto
    note op = op [unfolded m option.case]
    obtain pre ms' where "compatible_fields old False ns = Some (Some ms')" "ms = pre @ ms'"
      "pre = (if \<not> f_nullable o' \<and> f_nullable n then [AlterFieldNullable (f_name n)] else []) @
           (if m = NoOp then [] else [Recurse (f_name n) m])"
      using op na by (auto split: if_splits)
    moreover from this(3) have "found_migrations o' n pre" using nn ty m unfolding found_migrations_def by blast
    ultimately show ?thesis using na by blast
  qed
qed

lemma compatible_fields_new:
  assumes "compatible_fields old added (n # ns) = Some (Some ms)" and "fields_find (f_name n) old = None"
  shows "\<exists>ms'. f_nullable n \<and> compatible_fields old True ns = Some (Some ms') \<and>
    ms = AddFieldNullableAtEnd (f_name n) (f_type n) # ms'"
  using assms by (auto split: if_splits)

text \<open>What the loop over the new fields accepts: fields of the old struct, then added ones.\<close>

lemma compatible_fields_split:
  assumes "compatible_fields old added ns = Some (Some ms)"
  shows "\<exists>com add. ns = com @ add \<and> f_name ` set com \<subseteq> f_name ` set old \<and> f_name ` set add \<inter> f_name ` set old = {} \<and>
    (added \<longrightarrow> com = [])"
  using assms
proof (induction ns arbitrary: added ms)
  case Nil
  then show ?case by simp
next
  case (Cons n ns)
  show ?case
  proof (cases "fields_find (f_name n) old")
    case None
    then obtain ms' where "compatible_fields old True ns = Some (Some ms')"
      using compatible_fields_new [OF Cons.prems] by blast
    from Cons.IH [OF this] obtain add where "ns = add" "f_name ` set add \<inter> f_name ` set old = {}" by auto
    with None show ?thesis by (intro exI [of _ "[]"] exI [of _ "n # ns"]) (auto simp: find_from_None)
  next
    case (Some r)
    then obtain ms' where na: "\<not> added" and "compatible_fields old False ns = Some (Some ms')"
      using compatible_fields_found [OF Cons.prems] by (cases r) blast
    from Cons.IH [OF this(2)] obtain com add where "ns = com @ add" "f_name ` set com \<subseteq> f_name ` set old"
      "f_name ` set add \<inter> f_name ` set old = {}" by blast
    moreover have "f_name n \<in> f_name ` set old" using Some by (metis find_from_None option.distinct(1))
    ultimately show ?thesis using na by (intro exI [of _ "n # com"] exI [of _ add]) auto
  qed
qed

lemma foldl_put_common:
  assumes "distinct (map f_name fs)" and "f_name ` set com \<subseteq> f_name ` set fs"
  shows "map f_name (foldl (\<lambda>fs n. put_field n fs) fs com) = map f_name fs"
  using assms
proof (induction com arbitrary: fs)
  case (Cons n com)
  then have names: "map f_name (put_field n fs) = map f_name fs" by (simp add: put_field_names)
  moreover have "f_name ` set com \<subseteq> f_name ` set (put_field n fs)"
    using Cons.prems(2) names by (metis (no_types, lifting) image_set insert_subset list.simps(15) image_insert)
  ultimately show ?case using Cons.IH [of "put_field n fs"] Cons.prems(1) by simp
qed simp

lemma foldl_put_added:
  assumes "distinct (map f_name add)" and "f_name ` set add \<inter> f_name ` set fs = {}"
  shows "foldl (\<lambda>fs n. put_field n fs) fs add = fs @ add"
  using assms
proof (induction add arbitrary: fs)
  case (Cons n add)
  then have "fields_find (f_name n) fs = None" by (auto simp: find_from_None)
  then have "put_field n fs = fs @ [n]" by (simp add: put_field_def)
  with Cons show ?case by auto
qed simp

lemma foldl_put_member:
  assumes "distinct (map f_name fs)" and "distinct (map f_name ns)" and "n \<in> set ns"
  shows "n \<in> set (foldl (\<lambda>fs n. put_field n fs) fs ns)"
  using assms
proof (induction ns arbitrary: fs)
  case (Cons m ns)
  show ?case
  proof (cases "n = m")
    case True
    obtain i where i: "fields_find (f_name n) (put_field n fs) = Some (i, n)"
    proof -
      have "n \<in> set (put_field n fs)"
        by (auto simp: put_field_def set_update_memI split: option.splits dest!: fields_find_Some)
      then show ?thesis using that fields_find_nth [OF put_field_distinct [OF Cons.prems(1)]] by (metis in_set_conv_nth)
    qed
    have "fields_find (f_name n) (foldl (\<lambda>fs n. put_field n fs) (put_field n fs) ns) = Some (i, n)"
      using foldl_put_field(2) [of "put_field n fs" ns "f_name n"] put_field_distinct Cons.prems i True by simp
    then show ?thesis using True by (metis fields_find_Some foldl_Cons nth_mem)
  next
    case False
    with Cons show ?thesis by (simp add: put_field_distinct)
  qed
qed simp

text \<open>Without reordering, the fields that are put are the new ones, after the old ones that are dropped.\<close>

lemma put_fields_order:
  assumes "distinct (map f_name old)" and "distinct (map f_name new)" and "same_order old new"
    and "compatible_fields old False new = Some (Some ms)"
  shows "filter (\<lambda>f. f_name f \<in> f_name ` set new) (foldl (\<lambda>fs n. put_field n fs) old new) = new"
proof -
  obtain com add where new: "new = com @ add" and com: "f_name ` set com \<subseteq> f_name ` set old"
    and add: "f_name ` set add \<inter> f_name ` set old = {}"
    using compatible_fields_split [OF assms(4)] by blast
  let ?fs = "foldl (\<lambda>fs n. put_field n fs) old com" and ?js = "map (\<lambda>n. fst (the (fields_find (f_name n) old))) com"
  have names: "map f_name ?fs = map f_name old" by (rule foldl_put_common [OF assms(1) com])
  then have name_set: "f_name ` set ?fs = f_name ` set old" by (metis list.set_map)
  have whole: "foldl (\<lambda>fs n. put_field n fs) old new = ?fs @ add"
    using foldl_put_added [of add ?fs] assms(2) add name_set by (simp add: new)
  have idx: "\<exists>i f. fields_find (f_name n) old = Some (i, f) \<and> i < length old \<and> f_name (old ! i) = f_name n" if n: "n \<in> set com" for n
  proof -
    have "fields_find (f_name n) old \<noteq> None" using n com by (auto simp: find_from_None)
    then show ?thesis using fields_find_Some by fastforce
  qed
  have nth: "f_name n = map f_name old ! fst (the (fields_find (f_name n) old))" if "n \<in> set com" for n
    using idx [OF that] by auto
  then have js: "map f_name com = map ((!) (map f_name old)) ?js" by simp
  have "sorted ?js"
  proof -
    have "List.map_filter (\<lambda>n. fields_find (f_name n) old) new = map (\<lambda>n. the (fields_find (f_name n) old)) com"
    proof -
      have "List.map_filter (\<lambda>n. fields_find (f_name n) old) add = []"
        using add by (auto simp: List.map_filter_def filter_empty_conv find_from_None)
      moreover have "List.map_filter (\<lambda>n. fields_find (f_name n) old) com = map (\<lambda>n. the (fields_find (f_name n) old)) com"
      proof -
        have "filter (\<lambda>n. fields_find (f_name n) old \<noteq> None) com = com" using idx by (intro filter_True) blast
        then show ?thesis by (simp only: List.map_filter_def comp_def)
      qed
      ultimately show ?thesis by (simp add: new List.map_filter_def)
    qed
    with assms(3) show ?thesis by (simp add: same_order_def successively_conv_sorted_wrt comp_def)
  qed
  moreover have "distinct ?js"
  proof -
    have "distinct (map f_name com)" using assms(2) new by simp
    then have "distinct (map ((!) (map f_name old)) ?js)" by (simp only: js)
    then show ?thesis by (simp only: distinct_map [of _ ?js])
  qed
  moreover have "set ?js \<subseteq> {..<length (map f_name old)}"
  proof
    fix j assume "j \<in> set ?js"
    then obtain n where n: "n \<in> set com" "j = fst (the (fields_find (f_name n) old))" by auto
    with idx [OF n(1)] show "j \<in> {..<length (map f_name old)}" by auto
  qed
  ultimately have "filter (\<lambda>x. x \<in> f_name ` set com) (map f_name old) = map f_name com"
    using filter_sorted_indices [OF assms(1), of ?js] unfolding js [symmetric] by simp
  then have "map f_name (filter (\<lambda>f. f_name f \<in> f_name ` set com) ?fs) = map f_name com"
    by (simp add: names [symmetric] filter_map comp_def)
  moreover have "inj_on f_name (set (filter (\<lambda>f. f_name f \<in> f_name ` set com) ?fs) \<union> set com)"
  proof -
    have "inj_on f_name (set ?fs)" using names assms(1) by (metis distinct_map)
    moreover have "set com \<subseteq> set ?fs" using foldl_put_member [OF assms(1), of com] assms(2) new by auto
    ultimately show ?thesis by (auto intro: inj_on_subset)
  qed
  ultimately have kept: "filter (\<lambda>f. f_name f \<in> f_name ` set com) ?fs = com" by (metis inj_on_map_eq_map)
  have both: "filter (\<lambda>f. f_name f \<in> f_name ` set new) ?fs = filter (\<lambda>f. f_name f \<in> f_name ` set com) ?fs"
  proof (rule filter_cong [OF refl])
    fix f assume "f \<in> set ?fs"
    then have "f_name f \<in> f_name ` set old" using names by (metis image_eqI image_set)
    with add show "(f_name f \<in> f_name ` set new) = (f_name f \<in> f_name ` set com)" by (auto simp: new)
  qed
  have added: "filter (\<lambda>f. f_name f \<in> f_name ` set new) add = add" by (auto simp: new filter_id_conv)
  show ?thesis unfolding whole filter_append both kept added by (rule new [symmetric])
qed

subsection \<open>Arrow arrays\<close>

text \<open>
  \<open>nulls\<close> is the validity mask of an array and \<open>masks n m\<close> says that every null of \<open>m\<close> is
  one of \<open>n\<close>. A column fits a field when it has its type, the length of the struct, and, for a
  field that is not nullable, no nulls but where the struct is null.
\<close>

definition col_ok ::
  "('a, 'o, 'n) arrow_ops \<Rightarrow> ('a \<Rightarrow> 'n option) \<Rightarrow> ('n option \<Rightarrow> 'n option \<Rightarrow> bool) \<Rightarrow> 'n option \<Rightarrow> nat \<Rightarrow> Field \<Rightarrow> 'a \<Rightarrow> bool" where
  "col_ok A nulls masks n len f a \<longleftrightarrow>
     ar_data_type A a = f_type f \<and> ar_len A a = len \<and> (f_nullable f \<or> masks n (nulls a))"

text \<open>
  What the arrow crate documents: taking a struct or list array apart gives columns that fit,
  and the constructors accept what fits and build an array of the type and length asked for.
\<close>

definition arrow_ok ::
  "('a, 'o, 'n) arrow_ops \<Rightarrow> ('a \<Rightarrow> 'n option) \<Rightarrow> ('n option \<Rightarrow> 'n option \<Rightarrow> bool) \<Rightarrow> bool" where
  "arrow_ok A nulls masks \<longleftrightarrow>
     (\<forall>n. masks n None) \<and>
     (\<forall>t len. ar_data_type A (ar_new_null_array A t len) = t \<and> ar_len A (ar_new_null_array A t len) = len) \<and>
     (\<forall>a fs. ar_data_type A a = Struct fs \<longrightarrow>
        (\<exists>arrays. ar_struct_parts A a = (fs, arrays, nulls a) \<and> list_all2 (col_ok A nulls masks (nulls a) (ar_len A a)) fs arrays)) \<and>
     (\<forall>fs arrays n len. list_all2 (col_ok A nulls masks n len) fs arrays \<and> (n = None \<or> (\<exists>b. nulls b = n \<and> ar_len A b = len)) \<longrightarrow>
        (\<exists>a. (if arrays = [] then ar_struct_new_empty_fields A len n else ar_struct_new A fs arrays n) = Some a \<and>
           ar_data_type A a = Struct fs \<and> ar_len A a = len \<and> nulls a = n)) \<and>
     (\<forall>a f s. ar_data_type A a \<in> {List f, Map f s} \<longrightarrow>
        (\<exists>offs entries. ar_list_parts A a = (f, offs, entries, nulls a) \<and> col_ok A nulls masks None (ar_len A entries) f entries \<and>
           (\<forall>field entries'. col_ok A nulls masks None (ar_len A entries) field entries' \<longrightarrow>
              (\<exists>a'. ar_list_new A field offs entries' (nulls a) = Some a' \<and> ar_data_type A a' = List field \<and>
                 ar_len A a' = ar_len A a \<and> nulls a' = nulls a))))"

lemma arrow_okD:
  assumes "arrow_ok A nulls masks"
  shows "masks n None" and "ar_data_type A (ar_new_null_array A t len) = t" and "ar_len A (ar_new_null_array A t len) = len"
  using assms [unfolded arrow_ok_def, THEN conjunct1] assms [unfolded arrow_ok_def, THEN conjunct2, THEN conjunct1]
  by simp_all

lemma arrow_struct_parts:
  assumes "arrow_ok A nulls masks" and "ar_data_type A a = Struct fs"
  shows "\<exists>arrays. ar_struct_parts A a = (fs, arrays, nulls a) \<and> list_all2 (col_ok A nulls masks (nulls a) (ar_len A a)) fs arrays"
  using assms(1) [unfolded arrow_ok_def, THEN conjunct2, THEN conjunct2, THEN conjunct1] assms(2) by blast

lemma arrow_struct_new:
  assumes "arrow_ok A nulls masks" and "list_all2 (col_ok A nulls masks n len) fs arrays"
    and "n = None \<or> (\<exists>b. nulls b = n \<and> ar_len A b = len)"
  shows "\<exists>a. (if arrays = [] then ar_struct_new_empty_fields A len n else ar_struct_new A fs arrays n) = Some a \<and>
    ar_data_type A a = Struct fs \<and> ar_len A a = len \<and> nulls a = n"
  using assms(1) [unfolded arrow_ok_def, THEN conjunct2, THEN conjunct2, THEN conjunct2, THEN conjunct1] assms(2,3) by metis

lemma arrow_list:
  assumes "arrow_ok A nulls masks" and "ar_data_type A a \<in> {List f, Map f s}"
  shows "\<exists>offs entries. ar_list_parts A a = (f, offs, entries, nulls a) \<and> col_ok A nulls masks None (ar_len A entries) f entries \<and>
    (\<forall>field entries'. col_ok A nulls masks None (ar_len A entries) field entries' \<longrightarrow>
      (\<exists>a'. ar_list_new A field offs entries' (nulls a) = Some a' \<and> ar_data_type A a' = List field \<and>
         ar_len A a' = ar_len A a \<and> nulls a' = nulls a))"
  by (rule assms(1) [unfolded arrow_ok_def, THEN conjunct2, THEN conjunct2, THEN conjunct2, THEN conjunct2, rule_format, OF assms(2)])

text \<open>What a migration from one type to another has to do.\<close>

definition mig_ok ::
  "('a, 'o, 'n) arrow_ops \<Rightarrow> ('a \<Rightarrow> 'n option) \<Rightarrow> ('n option \<Rightarrow> 'n option \<Rightarrow> bool) \<Rightarrow> ArrayMigration \<Rightarrow> DataType \<Rightarrow> DataType \<Rightarrow> bool" where
  "mig_ok A nulls masks m old new \<longleftrightarrow>
     (\<forall>a. ar_data_type A a = old \<longrightarrow>
        (\<exists>a'. migrate A m a = Some a' \<and> ar_data_type A a' = new \<and> ar_len A a' = ar_len A a \<and>
           (\<forall>n. masks n (nulls a) \<longrightarrow> masks n (nulls a'))))"

subsection \<open>Migrating the fields of a struct\<close>

lemma add_column:
  assumes "arrow_ok A nulls masks" and "f_nullable f" and "list_all2 (col_ok A nulls masks n len) fs arrays"
  shows "list_all2 (col_ok A nulls masks n len) (fs @ [f]) (arrays @ [ar_new_null_array A (f_type f) len])"
  using arrow_okD(2,3) [OF assms(1)] assms(2) by (intro list_all2_appendI assms(3)) (simp add: col_ok_def)

lemma migrate_fields_append:
  "migrate_fields A (xs @ ys) len fa = Option.bind (migrate_fields A xs len fa) (migrate_fields A ys len)"
  by (induction xs arbitrary: fa) (auto split: bind_splits)

lemma found_step:
  assumes arrow: "arrow_ok A nulls masks" and found: "found_migrations o' n pre"
    and find: "fields_find (f_name n) fs = Some (i, o')" and cols: "list_all2 (col_ok A nulls masks N len) fs arrays"
    and mig: "\<And>m. backward_compatible_typ (f_type o') (f_type n) = Some (Some m) \<Longrightarrow> mig_ok A nulls masks m (f_type o') (f_type n)"
  shows "\<exists>arrays'. migrate_fields A pre len (fs, arrays) = Some (put_field n fs, arrays') \<and>
    list_all2 (col_ok A nulls masks N len) (put_field n fs) arrays'"
proof -
  have i: "i < length fs" "fs ! i = o'" "f_name o' = f_name n" using fields_find_Some [OF find] by auto
  have put: "put_field n fs = fs[i := n]" using find by (simp add: put_field_def)
  have len: "i < length arrays" using cols i(1) by (simp add: list_all2_lengthD)
  have a: "col_ok A nulls masks N len o' (arrays ! i)" using list_all2_nthD [OF cols i(1)] i(2) by simp
  have upd: "list_all2 (col_ok A nulls masks N len) (fs[i := n]) (arrays[i := b])" if "col_ok A nulls masks N len n b" for b
    using cols that by (rule list_all2_update_cong)
  have nullable: "f_nullable o' \<longrightarrow> f_nullable n" using found by (simp add: found_migrations_def)
  from found consider "pre = [MakeNull (f_name n)]" "f_nullable o'" "f_type n = Null"
    | m where "backward_compatible_typ (f_type o') (f_type n) = Some (Some m)"
      "pre = (if \<not> f_nullable o' \<and> f_nullable n then [AlterFieldNullable (f_name n)] else []) @
           (if m = NoOp then [] else [Recurse (f_name n) m])"
    by (auto simp: found_migrations_def)
  then show ?thesis
  proof cases
    case 1
    let ?b = "ar_new_null_array A Null (ar_len A (arrays ! i))"
    have n: "n = Field (f_name n) Null True" using 1 nullable by (cases n) simp
    have "col_ok A nulls masks N len n ?b" using arrow_okD(2,3) [OF arrow] a 1 nullable by (simp add: col_ok_def)
    from upd [OF this] show ?thesis using 1 find len n by (auto simp: put)
  next
    case (2 m)
    obtain a' where a': "migrate A m (arrays ! i) = Some a'" "ar_data_type A a' = f_type n" "ar_len A a' = len"
      "f_nullable n \<or> masks N (nulls a')"
      using mig [OF 2(1)] a nullable by (auto simp: mig_ok_def col_ok_def)
    have fits: "list_all2 (col_ok A nulls masks N len) (fs[i := n]) (arrays[i := a'])"
      using a' by (intro upd) (simp add: col_ok_def)
    show ?thesis
    proof (cases "m = NoOp")
      case True
      then have same: "a' = arrays ! i" "f_type o' = f_type n" using a' a by (simp_all add: col_ok_def)
      have "migrate_fields A pre len (fs, arrays) = Some (fs[i := n], arrays)"
      proof (cases "\<not> f_nullable o' \<and> f_nullable n")
        case True
        then have "Field (f_name o') (f_type o') True = n" using same i by (cases n) simp
        with True 2(2) \<open>m = NoOp\<close> find show ?thesis by simp
      next
        case False
        then have "o' = n" using same i nullable by (cases n; cases o') auto
        with False 2(2) \<open>m = NoOp\<close> i show ?thesis by auto
      qed
      with fits same len show ?thesis by (auto simp: put)
    next
      case False
      let ?o = "Field (f_name o') (f_type o') (f_nullable n)"
      have "migrate_fields A (if \<not> f_nullable o' \<and> f_nullable n then [AlterFieldNullable (f_name n)] else []) len (fs, arrays)
          = Some (fs[i := ?o], arrays)"
      proof (cases "\<not> f_nullable o' \<and> f_nullable n")
        case False
        then have "?o = o'" using nullable by (cases o') auto
        with False i show ?thesis by auto
      qed (use find in simp)
      moreover have "fields_find (f_name n) (fs[i := ?o]) = Some (i, ?o)" using find i by (simp add: fields_find_update)
      moreover have "Field (f_name n) (ar_data_type A a') (f_nullable n) = n" using a' by (cases n) simp
      ultimately have "migrate_fields A pre len (fs, arrays) = Some (fs[i := n], arrays[i := a'])"
        using 2(2) False len a'(1) by (simp add: migrate_fields_append)
      with fits show ?thesis by (auto simp: put)
    qed
  qed
qed

lemma fields_loop:
  assumes arrow: "arrow_ok A nulls masks" and "compatible_fields old added ns = Some (Some ms)"
    and "distinct (map f_name ns)" and "distinct (map f_name fs)"
    and "\<forall>n \<in> set ns. fields_find (f_name n) fs = fields_find (f_name n) old"
    and "list_all2 (col_ok A nulls masks N len) fs arrays"
    and mig: "\<And>n i o' m. n \<in> set ns \<Longrightarrow> fields_find (f_name n) old = Some (i, o') \<Longrightarrow>
      backward_compatible_typ (f_type o') (f_type n) = Some (Some m) \<Longrightarrow> mig_ok A nulls masks m (f_type o') (f_type n)"
  shows "\<exists>arrays'. migrate_fields A ms len (fs, arrays) = Some (foldl (\<lambda>fs n. put_field n fs) fs ns, arrays') \<and>
    list_all2 (col_ok A nulls masks N len) (foldl (\<lambda>fs n. put_field n fs) fs ns) arrays'"
  using assms(2-7)
proof (induction ns arbitrary: added ms fs arrays)
  case Nil
  then show ?case by auto
next
  case (Cons n ns)
  have "\<exists>pre ms' added' arrays'. ms = pre @ ms' \<and> compatible_fields old added' ns = Some (Some ms') \<and>
    migrate_fields A pre len (fs, arrays) = Some (put_field n fs, arrays') \<and>
    list_all2 (col_ok A nulls masks N len) (put_field n fs) arrays'"
  proof (cases "fields_find (f_name n) old")
    case None
    then have put: "put_field n fs = fs @ [n]" using Cons.prems(4) by (simp add: put_field_def)
    obtain ms' where n: "f_nullable n" "compatible_fields old True ns = Some (Some ms')"
      "ms = [AddFieldNullableAtEnd (f_name n) (f_type n)] @ ms'"
      using compatible_fields_new [OF Cons.prems(1) None] by auto
    have "Field (f_name n) (f_type n) True = n" using n(1) by (cases n) simp
    moreover have "list_all2 (col_ok A nulls masks N len) (fs @ [n]) (arrays @ [ar_new_null_array A (f_type n) len])"
      by (rule add_column [OF arrow n(1) Cons.prems(5)])
    ultimately have "migrate_fields A [AddFieldNullableAtEnd (f_name n) (f_type n)] len (fs, arrays) =
        Some (put_field n fs, arrays @ [ar_new_null_array A (f_type n) len]) \<and>
      list_all2 (col_ok A nulls masks N len) (put_field n fs) (arrays @ [ar_new_null_array A (f_type n) len])"
      by (simp add: put)
    with n(2,3) show ?thesis by blast
  next
    case (Some r)
    then obtain i o' where find: "fields_find (f_name n) old = Some (i, o')" by (cases r) auto
    obtain pre ms' where "compatible_fields old False ns = Some (Some ms')" "ms = pre @ ms'" and found: "found_migrations o' n pre"
      using compatible_fields_found [OF Cons.prems(1) find] by blast
    moreover have "\<exists>arrays'. migrate_fields A pre len (fs, arrays) = Some (put_field n fs, arrays') \<and>
        list_all2 (col_ok A nulls masks N len) (put_field n fs) arrays'"
      using Cons.prems(4) find by (intro found_step [OF arrow found _ Cons.prems(5) Cons.prems(6) [OF _ find]]) auto
    ultimately show ?thesis by blast
  qed
  then obtain pre ms' added' arrays' where ms: "ms = pre @ ms'" and rest: "compatible_fields old added' ns = Some (Some ms')"
    and pre: "migrate_fields A pre len (fs, arrays) = Some (put_field n fs, arrays')"
      "list_all2 (col_ok A nulls masks N len) (put_field n fs) arrays'"
    by blast
  have "\<exists>arrays''. migrate_fields A ms' len (put_field n fs, arrays') = Some (foldl (\<lambda>fs n. put_field n fs) (put_field n fs) ns, arrays'') \<and>
    list_all2 (col_ok A nulls masks N len) (foldl (\<lambda>fs n. put_field n fs) (put_field n fs) ns) arrays''"
  proof (rule Cons.IH [OF rest _ _ _ pre(2)])
    show "\<forall>m \<in> set ns. fields_find (f_name m) (put_field n fs) = fields_find (f_name m) old"
      using Cons.prems(2-4) by (auto simp: put_field_find image_iff)
  qed (use Cons.prems in \<open>auto simp: put_field_distinct\<close>)
  then show ?case using ms pre(1) by (simp add: migrate_fields_append)
qed

lemma remove_at_filter:
  assumes "distinct (map f_name fs)" and "fields_find name fs = Some (i, f)"
  shows "remove_at i fs = filter (\<lambda>g. f_name g \<noteq> name) fs"
proof -
  have i: "i < length fs" "fs ! i = f" "f_name f = name" using fields_find_Some [OF assms(2)] by auto
  have split: "fs = take i fs @ f # drop (Suc i) fs" using list_split_at [OF i(1)] i(2) by simp
  then have "distinct (map f_name (take i fs @ f # drop (Suc i) fs))" using assms(1) by metis
  then have "name \<notin> f_name ` set (take i fs)" "name \<notin> f_name ` set (drop (Suc i) fs)" using i(3) by auto
  then have "filter (\<lambda>g. f_name g \<noteq> name) (take i fs) = take i fs"
    "filter (\<lambda>g. f_name g \<noteq> name) (drop (Suc i) fs) = drop (Suc i) fs"
    by (auto simp: filter_id_conv)
  moreover have "filter (\<lambda>g. f_name g \<noteq> name) fs =
      filter (\<lambda>g. f_name g \<noteq> name) (take i fs) @ filter (\<lambda>g. f_name g \<noteq> name) (f # drop (Suc i) fs)"
    by (metis filter_append split)
  ultimately show ?thesis using i(3) by (simp add: remove_at_def)
qed

lemma list_all2_remove_at: "list_all2 P xs ys \<Longrightarrow> list_all2 P (remove_at i xs) (remove_at i ys)"
  unfolding remove_at_def by (intro list_all2_appendI list_all2_takeI list_all2_dropI)

lemma drops_loop:
  assumes "distinct (map f_name ds)" and "f_name ` set ds \<subseteq> f_name ` set fs" and "distinct (map f_name fs)"
    and "list_all2 P fs arrays"
  shows "\<exists>arrays'. migrate_fields A (map (\<lambda>f. DropField (f_name f)) ds) len (fs, arrays) =
      Some (filter (\<lambda>f. f_name f \<notin> f_name ` set ds) fs, arrays') \<and>
    list_all2 P (filter (\<lambda>f. f_name f \<notin> f_name ` set ds) fs) arrays'"
  using assms
proof (induction ds arbitrary: fs arrays)
  case Nil
  then show ?case by auto
next
  case (Cons d ds)
  let ?fs = "filter (\<lambda>g. f_name g \<noteq> f_name d) fs"
  obtain i f where find: "fields_find (f_name d) fs = Some (i, f)"
    using Cons.prems(2) find_from_None [of 0 "f_name d" fs] by (cases "fields_find (f_name d) fs") auto
  have i: "i < length arrays" using fields_find_Some [OF find] Cons.prems(4) by (simp add: list_all2_lengthD)
  have rm: "remove_at i fs = ?fs" by (rule remove_at_filter [OF Cons.prems(3) find])
  have step: "migrate_field A (DropField (f_name d)) len (fs, arrays) = Some (?fs, remove_at i arrays)"
    using find i rm by simp
  have cols: "list_all2 P ?fs (remove_at i arrays)" using list_all2_remove_at [OF Cons.prems(4), of i] rm by simp
  have ds: "f_name d \<notin> f_name ` set ds" "distinct (map f_name ds)" using Cons.prems(1) by simp_all
  have sub: "f_name ` set ds \<subseteq> f_name ` set ?fs"
  proof
    fix x assume x: "x \<in> f_name ` set ds"
    then obtain g where "g \<in> set fs" "x = f_name g" using Cons.prems(2) by auto
    moreover have "x \<noteq> f_name d" using x ds(1) by blast
    ultimately show "x \<in> f_name ` set ?fs" by auto
  qed
  have dist: "distinct (map f_name ?fs)" using Cons.prems(3) by (simp add: distinct_map_filter)
  obtain arrays' where
    "migrate_fields A (map (\<lambda>f. DropField (f_name f)) ds) len (?fs, remove_at i arrays) =
        Some (filter (\<lambda>f. f_name f \<notin> f_name ` set ds) ?fs, arrays')"
    "list_all2 P (filter (\<lambda>f. f_name f \<notin> f_name ` set ds) ?fs) arrays'"
    using Cons.IH [OF ds(2) sub dist cols] by blast
  moreover have "filter (\<lambda>f. f_name f \<notin> f_name ` set ds) ?fs = filter (\<lambda>f. f_name f \<notin> f_name ` set (d # ds)) fs"
    unfolding filter_filter by (rule filter_cong) auto
  moreover have "migrate_fields A (map (\<lambda>f. DropField (f_name f)) (d # ds)) len (fs, arrays) =
      migrate_fields A (map (\<lambda>f. DropField (f_name f)) ds) len (?fs, remove_at i arrays)"
    by (simp only: list.map(2) migrate_fields.simps(2) step Option.bind.simps)
  ultimately show ?case by metis
qed

subsection \<open>Types\<close>

text \<open>
  The types the theorem is about: field names are distinct in every struct, and maps are not
  marked as sorted.
\<close>

fun wf_type :: "DataType \<Rightarrow> bool" and wf_field :: "Field \<Rightarrow> bool" where
  "wf_type (Struct fs) \<longleftrightarrow> distinct (map f_name fs) \<and> list_all wf_field fs"
| "wf_type (List f) \<longleftrightarrow> wf_field f"
| "wf_type (Map f is_sorted) \<longleftrightarrow> \<not> is_sorted \<and> wf_field f"
| "wf_type _ \<longleftrightarrow> True"
| "wf_field (Field _ t _) \<longleftrightarrow> wf_type t"

lemma wf_field_type: "wf_field f \<longleftrightarrow> wf_type (f_type f)"
  by (cases f) simp

lemma match_typ_decided:
  assumes "match_typ old new = Decided (Some (Some m))"
  shows "m = NoOp \<and> (old = new \<or> (\<exists>f s s'. old = Map f s \<and> new = Map f s')) \<or>
    old = Null \<and> (\<exists>fs. new = Struct fs \<and> list_all f_nullable fs \<and>
      m = MStruct (map (\<lambda>f. AddFieldNullableAtEnd (f_name f) (f_type f)) fs))"
  using assms by (auto simp: match_typ_def then_some_def split: DataType.splits if_splits)

lemma size_field_type: "f \<in> set fs \<Longrightarrow> size (f_type f) < size (Struct fs)"
proof -
  assume "f \<in> set fs"
  then have "size f \<le> size_list size fs" by (rule size_list_estimation') simp
  moreover have "size (f_type f) < Suc (size f)" by (cases f) simp
  ultimately show ?thesis by simp
qed

lemma mig_ok_NoOp: "mig_ok A nulls masks NoOp t t"
  by (simp add: mig_ok_def)

lemma mig_ok_add_fields:
  assumes arrow: "arrow_ok A nulls masks" and nullable: "list_all f_nullable fs"
  shows "mig_ok A nulls masks (MStruct (map (\<lambda>f. AddFieldNullableAtEnd (f_name f) (f_type f)) fs)) Null (Struct fs)"
  unfolding mig_ok_def
proof (intro allI impI)
  fix a assume a: "ar_data_type A a = Null"
  let ?ms = "map (\<lambda>f. AddFieldNullableAtEnd (f_name f) (f_type f)) fs" and ?len = "ar_len A a"
  have loop: "\<exists>arrays'. migrate_fields A (map (\<lambda>f. AddFieldNullableAtEnd (f_name f) (f_type f)) gs) ?len (fs0, arrays) =
      Some (fs0 @ gs, arrays') \<and> list_all2 (col_ok A nulls masks None ?len) (fs0 @ gs) arrays'"
    if "list_all f_nullable gs" "list_all2 (col_ok A nulls masks None ?len) fs0 arrays" for gs fs0 arrays
    using that
  proof (induction gs arbitrary: fs0 arrays)
    case (Cons g gs)
    have g: "Field (f_name g) (f_type g) True = g" using Cons.prems(1) by (cases g) simp
    have "list_all2 (col_ok A nulls masks None ?len) (fs0 @ [g]) (arrays @ [ar_new_null_array A (f_type g) ?len])"
      using Cons.prems by (intro add_column [OF arrow]) simp_all
    from Cons.IH [OF _ this] Cons.prems(1) g show ?case by simp
  qed simp
  obtain arrays where m: "migrate_fields A ?ms ?len ([], []) = Some (fs, arrays)"
    and cols: "list_all2 (col_ok A nulls masks None ?len) fs arrays"
    using loop [of fs "[]" "[]"] nullable by auto
  obtain a' where a': "(if arrays = [] then ar_struct_new_empty_fields A ?len None else ar_struct_new A fs arrays None) = Some a'"
    "ar_data_type A a' = Struct fs" "ar_len A a' = ?len" "nulls a' = None"
    using arrow_struct_new [OF arrow cols] by blast
  have "list_all is_add_nullable ?ms" by (simp add: list_all_iff is_add_nullable_def)
  then have "migrate A (MStruct ?ms) a = Some a'"
    using a m a'(1) list_all2_lengthD [OF cols] by (simp add: struct_start_def struct_finish_def)
  with a' arrow_okD(1) [OF arrow] show "\<exists>a'. migrate A (MStruct ?ms) a = Some a' \<and> ar_data_type A a' = Struct fs \<and>
      ar_len A a' = ar_len A a \<and> (\<forall>n. masks n (nulls a) \<longrightarrow> masks n (nulls a'))"
    by auto
qed

lemma mig_ok_list:
  assumes arrow: "arrow_ok A nulls masks" and mig: "mig_ok A nulls masks m (f_type o') (f_type n)"
    and nullable: "\<not> (f_nullable o' \<and> \<not> f_nullable n)" and old: "old \<in> {List o', Map o' s}"
  shows "mig_ok A nulls masks (MList n m) old (List n)"
  unfolding mig_ok_def
proof (intro allI impI)
  fix a assume a: "ar_data_type A a = old"
  obtain offs entries where parts: "ar_list_parts A a = (o', offs, entries, nulls a)"
    and entries: "col_ok A nulls masks None (ar_len A entries) o' entries"
    and build: "\<And>field entries'. col_ok A nulls masks None (ar_len A entries) field entries' \<Longrightarrow>
      \<exists>a'. ar_list_new A field offs entries' (nulls a) = Some a' \<and> ar_data_type A a' = List field \<and>
         ar_len A a' = ar_len A a \<and> nulls a' = nulls a"
    using arrow_list [OF arrow, of a o' s] a old by blast
  obtain e' where e': "migrate A m entries = Some e'" "ar_data_type A e' = f_type n" "ar_len A e' = ar_len A entries"
    "masks None (nulls entries) \<longrightarrow> masks None (nulls e')"
    using mig entries unfolding mig_ok_def col_ok_def by blast
  have "col_ok A nulls masks None (ar_len A entries) n e'"
    using e' entries nullable by (auto simp: col_ok_def)
  from build [OF this] obtain a' where "ar_list_new A n offs e' (nulls a) = Some a'" "ar_data_type A a' = List n"
    "ar_len A a' = ar_len A a" "nulls a' = nulls a" by blast
  with a old parts e'(1) show "\<exists>a'. migrate A (MList n m) a = Some a' \<and> ar_data_type A a' = List n \<and>
      ar_len A a' = ar_len A a \<and> (\<forall>n. masks n (nulls a) \<longrightarrow> masks n (nulls a'))"
    by auto
qed

lemma mig_ok_struct:
  assumes arrow: "arrow_ok A nulls masks" and op: "backward_compatible_struct old new = Some (Some m)"
    and names: "distinct (map f_name old)" "distinct (map f_name new)"
    and mig: "\<And>n i o' m. n \<in> set new \<Longrightarrow> fields_find (f_name n) old = Some (i, o') \<Longrightarrow>
      backward_compatible_typ (f_type o') (f_type n) = Some (Some m) \<Longrightarrow> mig_ok A nulls masks m (f_type o') (f_type n)"
  shows "mig_ok A nulls masks m (Struct old) (Struct new)"
  unfolding mig_ok_def
proof (intro allI impI)
  fix a assume a: "ar_data_type A a = Struct old"
  let ?len = "ar_len A a" and ?ds = "filter (\<lambda>f. fields_find (f_name f) new = None) old" and ?put = "foldl (\<lambda>fs n. put_field n fs) old new"
  obtain ms where ms: "compatible_fields old False new = Some (Some ms)" and order: "same_order old new"
    and m: "m = (if ms @ dropped_fields old new = [] then NoOp else MStruct (ms @ dropped_fields old new))"
    using op by (auto simp: Let_def split: bind_splits option.splits if_splits)
  obtain arrays where parts: "ar_struct_parts A a = (old, arrays, nulls a)"
    and cols: "list_all2 (col_ok A nulls masks (nulls a) ?len) old arrays"
    using arrow_struct_parts [OF arrow a] by blast
  have "\<exists>arrays1. migrate_fields A ms ?len (old, arrays) = Some (?put, arrays1) \<and>
      list_all2 (col_ok A nulls masks (nulls a) ?len) ?put arrays1"
    by (rule fields_loop [OF arrow ms names(2,1) _ cols]) (auto intro: mig)
  then obtain arrays1 where loop: "migrate_fields A ms ?len (old, arrays) = Some (?put, arrays1)"
    "list_all2 (col_ok A nulls masks (nulls a) ?len) ?put arrays1" by blast
  have ds: "distinct (map f_name ?ds)" "f_name ` set ?ds \<subseteq> f_name ` set ?put" "distinct (map f_name ?put)"
    using names foldl_put_names [of old new] foldl_put_field(1) [OF names] by (auto simp: distinct_map_filter)
  have keep: "filter (\<lambda>f. f_name f \<notin> f_name ` set ?ds) ?put = new"
  proof -
    have "f_name f \<notin> f_name ` set ?ds \<longleftrightarrow> f_name f \<in> f_name ` set new" if "f \<in> set ?put" for f
    proof -
      have "f_name f \<in> f_name ` set old \<union> f_name ` set new" using that foldl_put_names [of old new] by blast
      moreover have "f_name ` set ?ds = f_name ` set old - f_name ` set new" by (auto simp: find_from_None)
      ultimately show ?thesis by blast
    qed
    then have "filter (\<lambda>f. f_name f \<notin> f_name ` set ?ds) ?put = filter (\<lambda>f. f_name f \<in> f_name ` set new) ?put"
      by (intro filter_cong) auto
    with put_fields_order [OF names order ms] show ?thesis by simp
  qed
  obtain arrays2 where drops: "migrate_fields A (dropped_fields old new) ?len (?put, arrays1) = Some (new, arrays2)"
    and cols2: "list_all2 (col_ok A nulls masks (nulls a) ?len) new arrays2"
    using drops_loop [OF ds loop(2), of A ?len] unfolding keep dropped_fields_def [symmetric] by blast
  have all: "migrate_fields A (ms @ dropped_fields old new) ?len (old, arrays) = Some (new, arrays2)"
    using loop(1) drops by (simp add: migrate_fields_append)
  obtain a' where a': "(if arrays2 = [] then ar_struct_new_empty_fields A ?len (nulls a) else ar_struct_new A new arrays2 (nulls a)) = Some a'"
    "ar_data_type A a' = Struct new" "ar_len A a' = ?len" "nulls a' = nulls a"
    using arrow_struct_new [OF arrow cols2] by blast
  show "\<exists>a'. migrate A m a = Some a' \<and> ar_data_type A a' = Struct new \<and>
      ar_len A a' = ar_len A a \<and> (\<forall>n. masks n (nulls a) \<longrightarrow> masks n (nulls a'))"
  proof (cases "ms @ dropped_fields old new = []")
    case True
    then have "old = new" using all by simp
    with True m a show ?thesis by simp
  next
    case False
    then have "m = MStruct (ms @ dropped_fields old new)" using m by (simp only: if_False)
    then have "migrate A m a = Some a'"
      using all a parts a'(1) list_all2_lengthD [OF cols2] by (simp add: struct_start_def struct_finish_def)
    with a' show ?thesis by auto
  qed
qed

lemma mig_ok_compatible_list:
  assumes arrow: "arrow_ok A nulls masks" and match: "match_typ old new = Match_list b o' n"
    and op: "backward_compatible_list b o' n = Some (Some m)"
    and sub: "\<And>m'. backward_compatible_typ (f_type o') (f_type n) = Some (Some m') \<Longrightarrow> mig_ok A nulls masks m' (f_type o') (f_type n)"
  shows "mig_ok A nulls masks m old new"
proof -
  have types: "new = List n" "\<exists>s. old \<in> {List o', Map o' s}" using match_typ_list [OF match] by (auto split: if_splits)
  obtain m' where nested: "backward_compatible_typ (f_type o') (f_type n) = Some (Some m')"
    and nullable: "\<not> (f_nullable o' \<and> \<not> f_nullable n)"
    and m: "m = (if b \<and> o' = n \<and> m' = NoOp then NoOp else MList n m')"
    using op by (auto split: bind_splits option.splits if_splits)
  show ?thesis
  proof (cases "b \<and> o' = n \<and> m' = NoOp")
    case True
    then have "old = new" using match_typ_list [OF match] by simp
    with True m show ?thesis by (simp add: mig_ok_NoOp)
  next
    case False
    with m types mig_ok_list [OF arrow sub [OF nested] nullable] show ?thesis by auto
  qed
qed

lemma backward_compatible_mig_ok:
  assumes "arrow_ok A nulls masks" and "wf_type old" and "wf_type new" and "backward_compatible_typ old new = Some (Some m)"
  shows "mig_ok A nulls masks m old new"
  using assms(2-4)
proof (induction "size new" arbitrary: old new m rule: less_induct)
  case less
  show ?case
  proof (cases "match_typ old new")
    case (Decided res)
    then have "match_typ old new = Decided (Some (Some m))" using less.prems(3) by (simp add: backward_compatible_typ.simps)
    from match_typ_decided [OF this] less.prems(1,2) show ?thesis
      using mig_ok_NoOp mig_ok_add_fields [OF assms(1)] by auto
  next
    case (Match_struct os ns)
    then have types: "old = Struct os" "new = Struct ns" by (simp_all add: match_typ_struct)
    have op: "backward_compatible_struct os ns = Some (Some m)"
      using less.prems(3) Match_struct by (simp add: backward_compatible_typ.simps)
    have "mig_ok A nulls masks m' (f_type o') (f_type n)"
      if "n \<in> set ns" "fields_find (f_name n) os = Some (i, o')" "backward_compatible (f_type o') (f_type n) = Some (Some m')" for n i o' m'
    proof (rule less.hyps)
      have "o' \<in> set os" using fields_find_Some [OF that(2)] by auto
      then show "wf_type (f_type o')" "wf_type (f_type n)"
        using less.prems(1,2) that(1) types by (auto simp: list_all_iff wf_field_type)
      show "size (f_type n) < size new" using size_field_type [OF that(1)] types by simp
    qed (rule that(3))
    then show ?thesis
      using mig_ok_struct [OF assms(1) op] less.prems(1,2) types by simp
  next
    case (Match_list b o' n)
    have "wf_type (f_type o')" "wf_type (f_type n)" "size (f_type n) < size new"
      using less.prems(1,2) match_typ_list [OF Match_list] by (cases n; auto simp: wf_field_type split: if_splits)+
    with less.hyps less.prems(3) Match_list show ?thesis
      by (intro mig_ok_compatible_list [OF assms(1) Match_list]) (auto simp: backward_compatible_typ.simps [of old new])
  qed
qed

text \<open>
  C18: Migrations are type correct. When \<open>backward_compatible\<close> accepts two types (with distinct
  field names and no sorted maps), the migration it returns applies to every array of the old
  type without a panic and returns an array of the new type with the same length.
\<close>

theorem migrate_type_correct:
  assumes "arrow_ok A nulls masks" and "wf_type old" and "wf_type new"
    and "backward_compatible old new = Some (Some m)" and "ar_data_type A array = old"
  shows "\<exists>array'. migrate A m array = Some array' \<and> ar_data_type A array' = new \<and> ar_len A array' = ar_len A array"
  using backward_compatible_mig_ok [OF assms(1-4)] assms(5) unfolding mig_ok_def by blast

subsection \<open>A concrete instance\<close>

text \<open>Arrays that are their type and length, all valid; the constructors check the types.\<close>

definition plain_arrow :: "(DataType \<times> nat, unit, unit) arrow_ops" where
  "plain_arrow =
     \<lparr>ar_len = snd, ar_data_type = fst,
      ar_struct_parts = (\<lambda>(t, n). case t of Struct fs \<Rightarrow> (fs, map (\<lambda>f. (f_type f, n)) fs, None) | _ \<Rightarrow> ([], [], None)),
      ar_struct_new = (\<lambda>fs arrays _. if map f_type fs = map fst arrays then Some (Struct fs, snd (hd arrays)) else None),
      ar_struct_new_empty_fields = (\<lambda>n _. Some (Struct [], n)),
      ar_list_parts = (\<lambda>(t, n). case t of List f \<Rightarrow> (f, (), (f_type f, n), None) | Map f _ \<Rightarrow> (f, (), (f_type f, n), None)
        | _ \<Rightarrow> (Field [] Null True, (), (Null, n), None)),
      ar_list_new = (\<lambda>f _ e _. if f_type f = fst e then Some (List f, snd e) else None),
      ar_new_null_array = Pair\<rparr>"

lemma plain_cols:
  assumes "list_all2 (col_ok plain_arrow (\<lambda>_. None) (\<lambda>_ _. True) n len) fs arrays"
  shows "map f_type fs = map fst arrays" and "arrays \<noteq> [] \<Longrightarrow> snd (hd arrays) = len"
  using assms by (induction rule: list_all2_induct) (auto simp: col_ok_def plain_arrow_def)

lemma plain_arrow_ok: "arrow_ok plain_arrow (\<lambda>_. None) (\<lambda>_ _. True)"
proof -
  have "list_all2 (col_ok plain_arrow (\<lambda>_. None) (\<lambda>_ _. True) None len) fs (map (\<lambda>f. (f_type f, len)) fs)" for len fs
    by (induction fs) (simp_all add: col_ok_def plain_arrow_def)
  then have parts: "\<exists>arrays. ar_struct_parts plain_arrow a = (fs, arrays, None) \<and>
      list_all2 (col_ok plain_arrow (\<lambda>_. None) (\<lambda>_ _. True) None (ar_len plain_arrow a)) fs arrays"
    if "ar_data_type plain_arrow a = Struct fs" for a fs
    using that by (cases a) (simp add: plain_arrow_def)
  have new: "\<exists>a. (if arrays = [] then ar_struct_new_empty_fields plain_arrow len n else ar_struct_new plain_arrow fs arrays n) = Some a \<and>
      ar_data_type plain_arrow a = Struct fs \<and> ar_len plain_arrow a = len \<and> None = n"
    if "list_all2 (col_ok plain_arrow (\<lambda>_. None) (\<lambda>_ _. True) n len) fs arrays" "n = None" for fs arrays n len
    using plain_cols [OF that(1)] that(2) by (auto simp: plain_arrow_def)
  show ?thesis unfolding arrow_ok_def
  proof (intro conjI allI impI, goal_cases)
    case (4 a fs)
    then show ?case using parts by simp
  next
    case (5 fs arrays n len)
    then have "list_all2 (col_ok plain_arrow (\<lambda>_. None) (\<lambda>_ _. True) n len) fs arrays" "n = None" by blast+
    then show ?case by (rule new)
  qed (auto simp: plain_arrow_def col_ok_def)
qed

text \<open>Witness: a struct whose field becomes nullable gains a field and loses one.\<close>

definition sample_old :: DataType where
  "sample_old = Struct [Field ''a'' Int64 False, Field ''b'' Utf8 True]"

definition sample_new :: DataType where
  "sample_new = Struct [Field ''a'' Int64 True, Field ''c'' (List (Field ''e'' Boolean True)) True]"

theorem migrate_type_correct_witness:
  "\<exists>m. backward_compatible sample_old sample_new = Some (Some m) \<and> migrate plain_arrow m (sample_old, 3) = Some (sample_new, 3)"
proof -
  have wf: "wf_type sample_old" "wf_type sample_new" by code_simp+
  have "map_option (map_option (\<lambda>_. ())) (backward_compatible sample_old sample_new) = Some (Some ())" by code_simp
  then obtain m where m: "backward_compatible sample_old sample_new = Some (Some m)" by auto
  have t: "ar_data_type plain_arrow (sample_old, 3) = sample_old" by (simp add: plain_arrow_def)
  from migrate_type_correct [OF plain_arrow_ok wf m t] m show ?thesis by (auto simp: plain_arrow_def)
qed

subsection \<open>Sorted maps\<close>

text \<open>
  C32: The hypothesis on sorted maps is needed. Two map types that differ in the sorted flag count
  as the same type; the migration of a list of such maps then rebuilds the list with the new
  element type, and the arrow constructor, which compares the types, panics.
\<close>

theorem sorted_map_migration_panics:
  assumes "arrow_ok A nulls masks" and "\<And>f offs e n. ar_data_type A e \<noteq> f_type f \<Longrightarrow> ar_list_new A f offs e n = None"
    and "ar_data_type A array = List (Field name (Map f True) b)"
  shows "\<exists>m. backward_compatible (List (Field name (Map f True) b)) (List (Field name (Map f False) b)) = Some (Some m) \<and>
    migrate A m array = None"
proof -
  let ?n = "Field name (Map f False) b"
  have "backward_compatible (List (Field name (Map f True) b)) (List ?n) = Some (Some (MList ?n NoOp))"
    by (simp add: backward_compatible_typ.simps match_typ_def then_some_def)
  moreover obtain offs entries where "ar_list_parts A array = (Field name (Map f True) b, offs, entries, nulls array)"
    "ar_data_type A entries = Map f True"
    using arrow_list [OF assms(1), of array "Field name (Map f True) b"] assms(3) by (auto simp: col_ok_def)
  ultimately show ?thesis using assms(2,3) by simp
qed

theorem sorted_map_migration_panics_witness:
  "\<exists>m. backward_compatible (List (Field ''e'' (Map (Field ''f'' Null True) True) True))
       (List (Field ''e'' (Map (Field ''f'' Null True) False) True)) = Some (Some m) \<and>
     migrate plain_arrow m (List (Field ''e'' (Map (Field ''f'' Null True) True) True), 3) = None"
  by (rule sorted_map_migration_panics [OF plain_arrow_ok]) (simp_all add: plain_arrow_def)

end
