(* ===== verification/Spine_Props.thy ===== *)
theory Spine_Props
  imports Spine_Safe
begin

section \<open>The fuel of an introduced batch\<close>

lemma saturating_mul:
  "(case Option.bind (checked_mul a b) isize_try_from of Some x \<Rightarrow> x | None \<Rightarrow> isize_max) = min (int (a * b)) isize_max"
proof -
  have "2 ^ 64 \<le> int (a * b)" if "\<not> a * b < 2 ^ 64"
    using that zle_int [of "2 ^ 64" "a * b"] by (simp only: not_less of_nat_power of_nat_numeral)
  then show ?thesis
    by (auto simp: checked_mul_def isize_try_from_def isize_max_def usize_bits_def min_def simp del: of_nat_mult)
qed

text \<open>
  C29: The fuel given for a batch at level \<open>i\<close> is \<open>8 * 2 ^ i\<close> times the effort, cut off at
  \<open>isize::MAX\<close>, for every level except 61, 62 and 63. There the shift loses all bits
  instead of failing, and the fuel is zero rather than saturated.
\<close>

theorem introduce_fuel_spec:
  assumes "0 < effort"
  shows "introduce_fuel effort i =
    (if i < 61 \<or> 64 \<le> i then min (int (8 * 2 ^ i * effort)) isize_max else 0)"
proof -
  consider "i < 61" | "i = 61 \<or> i = 62 \<or> i = 63" | "64 \<le> i" by linarith
  then show ?thesis
  proof cases
    case 1
    then have "(2 :: nat) ^ i \<le> 2 ^ 60" by (intro power_increasing) auto
    then have "checked_shl 8 i = Some (8 * 2 ^ i)" using 1 by (simp add: checked_shl_def usize_bits_def)
    with 1 have "introduce_fuel effort i =
      (case Option.bind (checked_mul (8 * 2 ^ i) effort) isize_try_from of Some fuel \<Rightarrow> fuel | None \<Rightarrow> isize_max)"
      by (simp add: introduce_fuel_def)
    also have "\<dots> = min (int (8 * 2 ^ i * effort)) isize_max"
      by (rule saturating_mul)
    finally show ?thesis using 1 by simp
  next
    case 2
    then show ?thesis
      by (auto simp: introduce_fuel_def checked_shl_def checked_mul_def isize_try_from_def isize_max_def usize_bits_def)
  next
    case 3
    then have "(2 :: nat) ^ 64 \<le> 2 ^ i" by (intro power_increasing) auto
    moreover have "2 ^ i * 1 \<le> 8 * 2 ^ i * effort" using assms by (intro mult_le_mono) auto
    ultimately have "2 ^ 64 \<le> 8 * 2 ^ i * effort" by linarith
    then have "isize_max \<le> int (8 * 2 ^ i * effort)"
      using zle_int [of "2 ^ 64" "8 * 2 ^ i * effort"] by (simp add: isize_max_def mult.commute)
    then show ?thesis using 3 by (simp add: introduce_fuel_def checked_shl_def usize_bits_def)
  qed
qed

theorem introduce_fuel_spec_witness:
  "introduce_fuel 1 60 = 2 ^ 63 - 1 \<and> introduce_fuel 1 61 = 0 \<and> introduce_fuel 1 64 = 2 ^ 63 - 1"
  using introduce_fuel_spec [of 1 60] introduce_fuel_spec [of 1 61] introduce_fuel_spec [of 1 64]
  by (simp add: isize_max_def)

end
