(* ===== verification/Append_Props.thy ===== *)
theory Append_Props
  imports Shard_Props
begin

section \<open>Properties of appends\<close>

text \<open>
  An append at the shard's upper commits and adds its batch; repeating it is recognised, and
  never adds the batch a second time, whatever happened in between.
\<close>

subsection \<open>Totality\<close>

lemma merge_reqs_before_total: "merge_reqs_before e ms None n bs \<noteq> None"
  by (induction bs arbitrary: n) (auto simp: Let_def)

lemma extra_merge_reqs_total: "extra_merge_reqs e tok ms lease pct None t \<noteq> None"
  using merge_reqs_before_total [of e _ _ "spine_batches (tr_spine t)"] unfolding extra_merge_reqs_def fueled_merge_reqs_before_ms_def Let_def by simp

lemma append_and_claim_total:
  assumes "trace_inv t" and "hb_fits (tr_spine t) batch"
  shows "\<exists>reqs t'. append_and_claim e batch ms lease tok pct None t = Some (reqs, t')"
proof -
  obtain reqs1 t1 where push: "Trace_push_batch batch t = Some (reqs1, t1)"
    using assms by (rule Trace_push_batch_ok)
  have "d_upper (hb_desc batch) \<noteq> d_lower (hb_desc batch)"
    using assms(2) by (auto simp: hb_fits_def)
  moreover obtain extra where
    "(if all_empty_reqs reqs1 \<and> \<not> HollowBatch_is_empty batch then extra_merge_reqs e tok ms lease pct None t1 else Some []) = Some extra"
    using extra_merge_reqs_total [of e tok ms lease pct t1] by (cases "all_empty_reqs reqs1 \<and> \<not> HollowBatch_is_empty batch") auto
  moreover obtain t2 where "claim_all ms (reqs1 @ extra) t1 = Some t2"
    using claim_all_total by blast
  ultimately show ?thesis using push by (simp add: append_and_claim_def Let_def)
qed

lemma caa_commits:
  assumes inv: "sc_inv c" and fits: "caa_fits batch c" and "\<not> is_tombstone c"
    and lower: "d_lower (hb_desc batch) = Trace_upper (sc_trace c)" and less: "d_lower (hb_desc batch) < d_upper (hb_desc batch)"
    and tok: "tok \<noteq> ws_most_recent_write_token (caa_writer wid ms lease dbg c)"
    and inline: "HollowBatch_inline_bytes batch = 0"
  shows "\<exists>reqs c'. collections_compare_and_append e batch wid ms lease tok dbg maxb pct None c = Some (Continue reqs, c')"
proof -
  have "trace_inv (sc_trace c)" "hb_fits (tr_spine (sc_trace c)) batch"
    using inv fits lower less by (auto simp: sc_inv_def hb_fits_def caa_fits_def Trace_upper_def Trace_since_def)
  then obtain reqs t where app: "append_and_claim e batch ms lease tok pct None (sc_trace c) = Some (reqs, t)"
    using append_and_claim_total by blast
  have "ws_most_recent_write_upper (caa_writer wid ms lease dbg c) \<le> d_upper (hb_desc batch)"
    using inv lower less
    by (auto simp: caa_writer_def sc_inv_def split: option.splits dest: btree_all_get intro: order_trans less_imp_le)
  with assms app show ?thesis
    unfolding collections_compare_and_append_def caa_writer_def [symmetric] Let_def
    by (auto simp: less_le_not_le)
qed

subsection \<open>Appending and retrying\<close>

abbreviation lease_ms :: "cmd_cfg \<Rightarrow> u64" where
  "lease_ms cfg \<equiv> of_nat (cf_writer_lease_duration cfg)"

lemma caa_work:
  assumes "cf_writer_lease_duration cfg < 2 ^ 64"
  shows "cmd_work E cfg now (Cmd_compare_and_append batch wid tok dbg) seqno c =
    map_option (map_flow R_append_break R_merge_reqs)
      (collections_compare_and_append (en_ext E) batch wid now (lease_ms cfg) tok dbg (cf_inline_writes_total_max_bytes cfg)
        (if cf_claim_unclaimed_compactions cfg then cf_claim_compaction_percent cfg else 0)
        (cf_claim_compaction_min_version cfg) c)"
  using assms by simp

lemma caa_retry:
  assumes "btree_get (sc_writers c) wid = Some w" and "ws_most_recent_write_token w = tok"
    and "ws_most_recent_write_upper w = d_upper (hb_desc batch)" and "d_upper (hb_desc batch) \<le> Trace_upper (sc_trace c)"
    and "d_lower (hb_desc batch) < d_upper (hb_desc batch)"
  shows "\<exists>c'. collections_compare_and_append e batch wid ms lease tok dbg maxb pct minv c = Some (Break AlreadyCommitted, c')"
proof -
  have "\<not> is_tombstone c" using assms(1) by (auto simp: is_tombstone_def)
  with assms show ?thesis by (auto simp: collections_compare_and_append_def Let_def less_le_not_le)
qed

text \<open>The call of the transition that an append makes.\<close>

abbreviation run_caa where
  "run_caa E cfg now batch wid tok dbg c \<equiv>
     collections_compare_and_append (en_ext E) batch wid now (lease_ms cfg) tok dbg (cf_inline_writes_total_max_bytes cfg)
       (if cf_claim_unclaimed_compactions cfg then cf_claim_compaction_percent cfg else 0)
       (cf_claim_compaction_min_version cfg) c"

lemma map_flow_Continue: "map_flow f g x = (Continue r, c) \<Longrightarrow> \<exists>r'. x = (Continue r', c) \<and> r = g r'"
  by (cases "(f, g, x)" rule: map_flow.cases) auto

lemma append_Inr:
  assumes run: "run_cmd E cfg ck (Cmd_compare_and_append batch wid tok dbg) s = Some (Inr ns)"
    and lease: "cf_writer_lease_duration cfg < 2 ^ 64"
  obtains reqs c' where "run_caa E cfg (ck_work ck) batch wid tok dbg (st_collections s) = Some (Continue reqs, c')"
    and "committed (ck_expire ck) c' (st_collections (ns_state ns))"
proof -
  obtain c' where work: "cmd_work E cfg (ck_work ck) (Cmd_compare_and_append batch wid tok dbg) (st_seqno s + 1) (st_collections s)
      = Some (Continue (ns_work_ret ns), c')" and com: "committed (ck_expire ck) c' (st_collections (ns_state ns))"
    using compute_next_state_Inr [OF run [unfolded run_cmd_def]] by blast
  from work have "\<exists>reqs. run_caa E cfg (ck_work ck) batch wid tok dbg (st_collections s) = Some (Continue reqs, c')"
    unfolding caa_work [OF lease] by (auto dest!: map_flow_Continue)
  with com show ?thesis by (blast intro: that)
qed

lemma append_Break:
  assumes "run_caa E cfg (ck_work ck) batch wid tok dbg (st_collections s) = Some (Break b, c')"
    and lease: "cf_writer_lease_duration cfg < 2 ^ 64"
  shows "run_cmd E cfg ck (Cmd_compare_and_append batch wid tok dbg) s = Some (Inl (st_seqno s, R_append_break b))"
proof -
  have "cmd_work E cfg (ck_work ck) (Cmd_compare_and_append batch wid tok dbg) (SeqNo_next (st_seqno s)) (st_collections s)
      = Some (Break (R_append_break b), c')"
    using assms(1) unfolding caa_work [OF lease] by simp
  then show ?thesis by (simp add: run_cmd_def compute_next_state_def clone_apply_def Let_def)
qed

lemma append_Inr_trace:
  fixes E :: "('d :: monoid_add, 'k, 'v) env"
  assumes run: "run_cmd E cfg ck (Cmd_compare_and_append batch wid tok dbg) s = Some (Inr ns)" and inv: "sc_inv (st_collections s)"
    and pre: "cmd_pre cfg (Cmd_compare_and_append batch wid tok dbg :: ('k, 'v, 'f :: bounded_lattice) Cmd) (st_collections s)"
  shows "Trace_upper (st_trace s) = d_lower (hb_desc batch)"
    and "Trace_upper (st_trace (ns_state ns)) = d_upper (hb_desc batch)"
    and "Trace_since (st_trace (ns_state ns)) = Trace_since (st_trace s)"
    and "filter (\<lambda>b. hb_len b \<noteq> 0) (Trace_batches (st_trace (ns_state ns))) =
      filter (\<lambda>b. hb_len b \<noteq> 0) (Trace_batches (st_trace s) @ [batch])"
    and "btree_get (sc_writers (st_collections (ns_state ns))) wid = Some w \<Longrightarrow>
      ws_most_recent_write_token w = tok \<and> ws_most_recent_write_upper w = d_upper (hb_desc batch)"
proof -
  let ?c = "st_collections s" and ?pct = "if cf_claim_unclaimed_compactions cfg then cf_claim_compaction_percent cfg else 0"
  let ?w = "caa_writer wid (ck_work ck) (lease_ms cfg) dbg ?c"
  have fits: "caa_fits batch ?c" using pre by simp
  obtain reqs c' where caa: "run_caa E cfg (ck_work ck) batch wid tok dbg ?c = Some (Continue reqs, c')"
    and com: "committed (ck_expire ck) c' (st_collections (ns_state ns))"
    using append_Inr [OF run] pre by auto
  obtain t where nless: "\<not> d_upper (hb_desc batch) < d_lower (hb_desc batch)"
    and empty: "d_upper (hb_desc batch) = d_lower (hb_desc batch) \<longrightarrow> HollowBatch_is_empty batch"
    and lower: "d_lower (hb_desc batch) = Trace_upper (st_trace s)"
    and app: "append_and_claim (en_ext E) batch (ck_work ck) (lease_ms cfg) tok ?pct (cf_claim_compaction_min_version cfg) (st_trace s) = Some (reqs, t)"
    and c': "c' = ?c\<lparr>sc_writers := btree_insert wid (?w\<lparr>ws_most_recent_write_token := tok,
        ws_most_recent_write_upper := d_upper (hb_desc batch),
        ws_last_heartbeat_timestamp_ms := max (ck_work ck) (ws_last_heartbeat_timestamp_ms ?w)\<rparr>)
        (sc_writers ?c), sc_trace := t\<rparr>"
    by (rule caa_Continue [OF caa]) blast
  have le: "d_lower (hb_desc batch) \<le> d_upper (hb_desc batch)" using fits nless by (auto simp: caa_fits_def)
  have t: "Trace_since t = Trace_since (st_trace s)" "Trace_upper t = d_upper (hb_desc batch)"
    "filter (\<lambda>b. hb_len b \<noteq> 0) (Trace_batches t) = filter (\<lambda>b. hb_len b \<noteq> 0) (Trace_batches (st_trace s) @ [batch])"
    using append_and_claim_ok [OF _ lower le _ _ _ _ app] inv fits empty by (auto simp: sc_inv_def caa_fits_def)
  then show "Trace_upper (st_trace s) = d_lower (hb_desc batch)"
    and "Trace_upper (st_trace (ns_state ns)) = d_upper (hb_desc batch)"
    and "Trace_since (st_trace (ns_state ns)) = Trace_since (st_trace s)"
    and "filter (\<lambda>b. hb_len b \<noteq> 0) (Trace_batches (st_trace (ns_state ns))) =
      filter (\<lambda>b. hb_len b \<noteq> 0) (Trace_batches (st_trace s) @ [batch])"
    using com lower by (auto simp: committed_def c')
  show "ws_most_recent_write_token w = tok \<and> ws_most_recent_write_upper w = d_upper (hb_desc batch)"
    if "btree_get (sc_writers (st_collections (ns_state ns))) wid = Some w"
    using com that inv by (auto simp: committed_def c' sc_inv_def btree_get_filter btree_wf_insert split: if_splits)
qed



text \<open>The first append to the sample shard.\<close>

definition sample_append_step :: "((bool, bool, ts_frontier) Reply, ts_frontier) NextState" where
  "sample_append_step =
     projr (the (run_cmd sample_env sample_cfg sample_clock (sample_append (At 0) (At 5) 1) sample_s2))"

lemma sample_append_facts:
  "run_cmd sample_env sample_cfg sample_clock (sample_append (At 0) (At 5) 1) sample_s2 = Some (Inr sample_append_step) \<and>
   st_seqno sample_s2 < - 1 \<and> \<not> is_tombstone (st_collections sample_s2) \<and>
   cmd_pre sample_cfg (sample_append (At 0) (At 5) 1) (st_collections sample_s2) \<and>
   Trace_upper (st_trace sample_s2) = At 0 \<and> sc_writers (st_collections sample_s2) = []"
  by code_simp

lemma sample_batch_facts:
  "d_lower (hb_desc (sample_batch (At 0) (At 5) 1)) = At 0 \<and> d_upper (hb_desc (sample_batch (At 0) (At 5) 1)) = At 5 \<and>
   HollowBatch_inline_bytes (sample_batch (At 0) (At 5) 1) = 0 \<and> At 0 < At 5 \<and> replicate 16 1 \<noteq> SENTINEL \<and>
   cf_claim_compaction_min_version sample_cfg = None \<and> cf_use_active_rollup sample_cfg"
  by code_simp



end
