(* ===== verification/Read_Props.thy ===== *)
theory Read_Props
  imports Shard_Props
begin

section \<open>Properties of reads\<close>

text \<open>
  What a snapshot and a listen see: on totally ordered times, every time a snapshot covers is in
  exactly one of the batches it returns, and a listen is given the one batch that holds the time
  it waits for, as soon as there is one.
\<close>

subsection \<open>Chains of batches\<close>

abbreviation hb_lower :: "'f HollowBatch \<Rightarrow> 'f" where
  "hb_lower b \<equiv> d_lower (hb_desc b)"

abbreviation hb_upper :: "'f HollowBatch \<Rightarrow> 'f" where
  "hb_upper b \<equiv> d_upper (hb_desc b)"

lemma trace_batches_chained:
  assumes "trace_inv t"
  shows "chained hb_lower hb_upper bot (Trace_batches t) (Trace_upper t)"
    and "\<forall>b \<in> set (Trace_batches t). hb_lower b \<le> hb_upper b"
proof -
  have ok: "\<forall>b \<in> set (spine_batches (tr_spine t)). sb_ok b" using spine_batches_ok(1) [OF assms] by blast
  have "chained ihb_lo ihb_hi (0, bot) (concat (map sb_parts (spine_batches (tr_spine t)))) (sp_next_id (tr_spine t), sp_upper (tr_spine t))"
    using assms ok by (intro chained_concat_parts) (auto simp: trace_inv_def spine_inv_def)
  from chained_snd [OF this] show "chained hb_lower hb_upper bot (Trace_batches t) (Trace_upper t)"
    by (simp add: Trace_batches_def Trace_upper_def chained_map comp_def)
  show "\<forall>b \<in> set (Trace_batches t). hb_lower b \<le> hb_upper b"
    using ok by (auto simp: Trace_batches_def sb_ok_def ihb_proper_def)
qed

lemma chained_lower:
  fixes x :: "'a :: order"
  assumes "chained l u x bs y" and "\<forall>b \<in> set bs. l b \<le> u b" and "b \<in> set bs"
  shows "x \<le> l b" and "u b \<le> y"
proof -
  obtain as cs where bs: "bs = as @ b # cs" using assms(3) by (auto simp: in_set_conv_decomp)
  then have "chained l u x as (l b)" "chained l u (u b) cs y" using assms(1) by (auto simp: chained_append)
  then show "x \<le> l b" and "u b \<le> y" using assms(2) bs by (auto dest: chained_le)
qed

lemma chained_covers:
  fixes x :: "'a :: order"
  assumes "\<forall>a b :: 'a. a \<le> b \<or> b \<le> a" and "chained l u x bs y" and "\<forall>b \<in> set bs. l b \<le> u b" and "x \<le> t" and "t < y"
  shows "\<exists>!i. i < length bs \<and> l (bs ! i) \<le> t \<and> t < u (bs ! i)"
  using assms(2-5)
proof (induction bs arbitrary: x)
  case Nil
  then show ?case by auto
next
  case (Cons b bs)
  note chain = Cons.prems(1) [simplified]
  show ?case
  proof (cases "t < u b")
    case True
    have "\<not> l (bs ! i) \<le> t" if "i < length bs" for i
      using chained_lower(1) [of l u "u b" bs y "bs ! i"] chain Cons.prems(2) that True by fastforce
    with True chain Cons.prems(3) show ?thesis
      by (intro ex1I [of _ 0]) (auto simp: nth_Cons split: nat.splits)
  next
    case False
    then have "u b \<le> t" using assms(1) by (metis order_le_less)
    then obtain i where i: "i < length bs \<and> l (bs ! i) \<le> t \<and> t < u (bs ! i)"
      and uniq: "\<And>j. j < length bs \<and> l (bs ! j) \<le> t \<and> t < u (bs ! j) \<Longrightarrow> j = i"
      using Cons.IH [of "u b"] chain Cons.prems(2,4) by auto
    show ?thesis
    proof (rule ex1I [of _ "Suc i"])
      show "Suc i < length (b # bs) \<and> l ((b # bs) ! Suc i) \<le> t \<and> t < u ((b # bs) ! Suc i)" using i by simp
      show "j = Suc i" if "j < length (b # bs) \<and> l ((b # bs) ! j) \<le> t \<and> t < u ((b # bs) ! j)" for j
        using that False uniq by (cases j) auto
    qed
  qed
qed

lemma chained_filter_prefix:
  fixes x :: "'a :: order"
  assumes "chained l u x bs y" and "\<forall>b \<in> set bs. l b \<le> u b"
  shows "\<exists>rest z. bs = filter (\<lambda>b. \<not> t < l b) bs @ rest \<and> chained l u x (filter (\<lambda>b. \<not> t < l b) bs) z \<and> (z = y \<or> t < z)"
  using assms
proof (induction bs arbitrary: x)
  case Nil
  then show ?case by simp
next
  case (Cons b bs)
  show ?case
  proof (cases "t < l b")
    case True
    have "\<forall>c \<in> set bs. t < l c"
      using chained_lower(1) [of l u "u b" bs y] Cons.prems True by (fastforce intro: less_le_trans)
    with True Cons.prems show ?thesis by (auto simp: filter_empty_conv)
  next
    case False
    with Cons show ?thesis by fastforce
  qed
qed

subsection \<open>Snapshots\<close>

text \<open>
  C6: A snapshot fails exactly when the since has passed \<open>as_of\<close> or the upper has not, and
  says which. Otherwise, on totally ordered times, it returns the oldest batches of the trace,
  and every time up to \<open>as_of\<close> lies in exactly one of them.
\<close>

theorem snapshot_complete:
  fixes s :: "'f :: bounded_lattice State"
  assumes "shard_reachable E cfg s" and lin: "\<forall>a b :: 'f. a \<le> b \<or> b \<le> a"
  shows "case snapshot as_of s of
      Inl (AsOfHistoricalDistinctionsLost since) \<Rightarrow> since = Trace_since (st_trace s) \<and> as_of < since
    | Inl (AsOfNotYetAvailable seqno upper) \<Rightarrow> seqno = st_seqno s \<and> upper = Trace_upper (st_trace s) \<and> upper \<le> as_of \<and>
        Trace_since (st_trace s) \<le> as_of
    | Inr bs \<Rightarrow> Trace_since (st_trace s) \<le> as_of \<and> as_of < Trace_upper (st_trace s) \<and>
        (\<exists>rest. Trace_batches (st_trace s) = bs @ rest) \<and>
        (\<forall>t \<le> as_of. \<exists>!i. i < length bs \<and> hb_lower (bs ! i) \<le> t \<and> t < hb_upper (bs ! i))"
proof -
  let ?t = "st_trace s"
  define bs where "bs = filter (\<lambda>b. \<not> as_of < hb_lower b) (Trace_batches ?t)"
  have inv: "trace_inv ?t" using shard_reachable_inv [OF assms(1)] by (simp add: st_inv_def sc_inv_def)
  note chain = trace_batches_chained [OF inv]
  obtain rest z where rest: "Trace_batches ?t = bs @ rest" and z: "chained hb_lower hb_upper bot bs z" "z = Trace_upper ?t \<or> as_of < z"
    using chained_filter_prefix [OF chain, of as_of] unfolding bs_def [symmetric] by blast
  have one: "\<exists>!i. i < length bs \<and> hb_lower (bs ! i) \<le> t \<and> t < hb_upper (bs ! i)"
    if "t \<le> as_of" "as_of < Trace_upper ?t" for t
    using z(2) that chain(2) rest by (intro chained_covers [OF lin z(1)]) (auto intro: le_less_trans)
  consider (lost) "as_of < Trace_since ?t" | (later) "Trace_since ?t \<le> as_of" "Trace_upper ?t \<le> as_of"
    | (ok) "Trace_since ?t \<le> as_of" "as_of < Trace_upper ?t"
    using lin by (metis order_le_less)
  then show ?thesis
  proof cases
    case lost
    then show ?thesis by (simp add: snapshot_def Let_def)
  next
    case later
    then show ?thesis by (simp add: snapshot_def Let_def leD)
  next
    case ok
    then have "snapshot as_of s = Inr bs" by (simp add: snapshot_def bs_def Let_def leD)
    with ok rest one show ?thesis by simp
  qed
qed

lemma ts_total: "\<forall>a b :: ts_frontier. a \<le> b \<or> b \<le> a"
proof (intro allI)
  fix a b :: ts_frontier
  show "a \<le> b \<or> b \<le> a" by (cases a; cases b) auto
qed

text \<open>Witness: the sample shard at time 5, where the second batch begins.\<close>

theorem snapshot_complete_witness:
  "\<exists>bs. snapshot (At 5) sample_s4 = Inr bs \<and> length bs = 2 \<and>
     (\<exists>!i. i < length bs \<and> hb_lower (bs ! i) \<le> At 3 \<and> At 3 < hb_upper (bs ! i))"
proof -
  have "map_sum (\<lambda>_. ()) length (snapshot (At 5) sample_s4) = Inr 2" and le: "At 3 \<le> At 5" by code_simp+
  then obtain bs where bs: "snapshot (At 5) sample_s4 = Inr bs" "length bs = 2"
    by (cases "snapshot (At 5) sample_s4") simp_all
  have "\<forall>t \<le> At 5. \<exists>!i. i < length bs \<and> hb_lower (bs ! i) \<le> t \<and> t < hb_upper (bs ! i)"
    using snapshot_complete [OF sample_s4_reachable ts_total, of "At 5"] unfolding bs(1) sum.case by blast
  with le have "\<exists>!i. i < length bs \<and> hb_lower (bs ! i) \<le> At 3 \<and> At 3 < hb_upper (bs ! i)" by blast
  with bs show ?thesis by blast
qed

subsection \<open>Listens\<close>

text \<open>
  C19: A listen at a frontier is given a batch exactly when the upper has passed the frontier (on
  totally ordered times). The batch holds the frontier, is the only batch of the trace that
  does, and its upper is beyond the frontier, so that the listen makes progress. Otherwise the
  listen is told the sequence number to wait at.
\<close>

theorem next_listen_batch_spec:
  fixes s :: "'f :: bounded_lattice State"
  assumes "shard_reachable E cfg s" and lin: "\<forall>a b :: 'f. a \<le> b \<or> b \<le> a"
  shows "case next_listen_batch frontier s of
      Inr b \<Rightarrow> frontier < Trace_upper (st_trace s) \<and> hb_lower b \<le> frontier \<and> frontier < hb_upper b \<and>
        (\<exists>!i. i < length (Trace_batches (st_trace s)) \<and> hb_lower (Trace_batches (st_trace s) ! i) \<le> frontier \<and>
           frontier < hb_upper (Trace_batches (st_trace s) ! i)) \<and> b \<in> set (Trace_batches (st_trace s))
    | Inl seqno \<Rightarrow> Trace_upper (st_trace s) \<le> frontier \<and> seqno = st_seqno s"
proof -
  let ?t = "st_trace s" and ?P = "\<lambda>b. hb_lower b \<le> frontier \<and> frontier < hb_upper b"
  have inv: "trace_inv ?t" using shard_reachable_inv [OF assms(1)] by (simp add: st_inv_def sc_inv_def)
  note chain = trace_batches_chained [OF inv]
  have one: "\<exists>!i. i < length (Trace_batches ?t) \<and> ?P (Trace_batches ?t ! i)" if "frontier < Trace_upper ?t"
    using chained_covers [OF lin chain _ that] by simp
  show ?thesis
  proof (cases "find ?P (Trace_batches ?t)")
    case None
    then have "\<not> frontier < Trace_upper ?t" using one by (auto simp: find_None_iff)
    then have "Trace_upper ?t \<le> frontier" using lin by (metis order_le_less)
    with None show ?thesis by (simp add: next_listen_batch_def)
  next
    case (Some b)
    then have b: "b \<in> set (Trace_batches ?t)" "?P b" by (auto simp: find_Some_iff)
    then have "frontier < Trace_upper ?t" using chained_lower(2) [OF chain] by (blast intro: less_le_trans)
    with Some b one show ?thesis by (simp add: next_listen_batch_def)
  qed
qed

theorem next_listen_batch_spec_witness:
  "\<exists>b. next_listen_batch (At 5) sample_s4 = Inr b \<and> hb_lower b \<le> At 5 \<and> At 5 < hb_upper b"
proof -
  have "\<not> isl (next_listen_batch (At 5) sample_s4)" by code_simp
  then show ?thesis
    using next_listen_batch_spec [OF sample_s4_reachable ts_total, of "At 5"] by (auto split: sum.splits)
qed

end
