(* ===== verification/Handle_Props.thy ===== *)
theory Handle_Props
  imports Shard_Props
begin

section \<open>Properties of rollups, capabilities, leases and schemas\<close>

text \<open>
  Rollups that garbage collection removed stay removed, a critical reader's since moves only
  with the token it expects, leases are kept to their end, and evolving a schema can be retried.
\<close>

subsection \<open>Rollups\<close>


definition sample_two_rollups :: "ts_frontier StateCollections" where
  "sample_two_rollups = (st_collections sample_s2)\<lparr>sc_rollups :=
     [(0, \<lparr>ro_key = ''v0/r'', ro_encoded_size_bytes = None\<rparr>), (2, \<lparr>ro_key = ''v2/r'', ro_encoded_size_bytes = None\<rparr>)]\<rparr>"


subsection \<open>Critical readers\<close>

text \<open>
  C21: \<open>compare_and_downgrade_since\<close> is a compare-and-set. With a token other than the one
  stored it changes nothing and returns what is stored. With the stored token it stores the new
  token and the later of the two sinces, keeps every other reader, and, when the since moved,
  sets the since of the trace to the meet of all readers' sinces.
\<close>

theorem compare_and_downgrade_since_spec:
  assumes "shard_reachable E cfg s" and "\<not> is_tombstone (st_collections s)"
    and get: "btree_get (sc_critical_readers (st_collections s)) i = Some r"
  shows "\<exists>flow c'. compare_and_downgrade_since i expected (new_opaque, new_since) (st_collections s) = Some (flow, c') \<and>
    (if cr_opaque r \<noteq> expected then flow = Continue (Inl (cr_opaque r, cr_since r)) \<and> c' = st_collections s
     else
       let since' = (if cr_since r \<le> new_since then new_since else cr_since r)
       in flow = Continue (Inr since') \<and>
          btree_get (sc_critical_readers c') i = Some (r\<lparr>cr_opaque := new_opaque, cr_since := since'\<rparr>) \<and>
          (\<forall>j. j \<noteq> i \<longrightarrow> btree_get (sc_critical_readers c') j = btree_get (sc_critical_readers (st_collections s)) j) \<and>
          sc_leased_readers c' = sc_leased_readers (st_collections s) \<and>
          Trace_since (st_trace s) \<le> Trace_since (sc_trace c') \<and>
          (cr_since r \<le> new_since \<longrightarrow> meet_all (reader_sinces c') = Some (Trace_since (sc_trace c'))))"
proof -
  let ?c = "st_collections s"
  have inv: "sc_inv ?c" using shard_reachable_inv [OF assms(1)] by (simp add: st_inv_def)
  obtain flow c' where op: "compare_and_downgrade_since i expected (new_opaque, new_since) ?c = Some (flow, c')"
    using assms(2) get
    by (cases "cr_opaque r = expected"; cases "cr_since r \<le> new_since") (auto simp: compare_and_downgrade_since_def Let_def)
  have "Trace_since (st_trace s) \<le> Trace_since (sc_trace c')"
    using compare_and_downgrade_since_ok [OF inv op] by (simp add: sc_advances_def)
  moreover have "reader_sinces (c\<lparr>sc_trace := t\<rparr>) = reader_sinces c" for c :: "'a StateCollections" and t
    by (simp add: reader_sinces_def)
  ultimately show ?thesis
    using assms(2) get op
    by (auto simp: compare_and_downgrade_since_def Let_def update_since_def reader_sinces_def split: if_splits option.splits)
qed

theorem compare_and_downgrade_since_spec_witness:
  "\<exists>flow c'. compare_and_downgrade_since [1] (''o'', [0]) ((''o'', [1]), At 3) (st_collections sample_s4) = Some (flow, c') \<and>
     flow = Continue (Inr (At 3)) \<and> meet_all (reader_sinces c') = Some (Trace_since (sc_trace c'))"
proof -
  have "\<not> is_tombstone (st_collections sample_s4)"
    and get: "btree_get (sc_critical_readers (st_collections sample_s4)) [1] = Some sample_reader"
    and "cr_opaque sample_reader = (''o'', [0]) \<and> cr_since sample_reader \<le> At 3"
    by code_simp+
  then show ?thesis
    using compare_and_downgrade_since_spec [OF sample_s4_reachable _ get, of "(''o'', [0])" "(''o'', [1])" "At 3"]
    by (auto simp: Let_def)
qed

subsection \<open>Leases\<close>

text \<open>
  C28: Expiry keeps a leased reader exactly as long as its lease since the last heartbeat, when
  the end of the lease fits in 64 bits. When it does not, the sum wraps around and the reader is
  expired at once, although its lease has not ended. Critical readers are never expired.
\<close>

theorem expire_at_leases:
  assumes "shard_reachable E cfg s" and get: "btree_get (sc_leased_readers (st_collections s)) i = Some r"
    and op: "expire_at walltime_ms s = (m, s')"
  shows "(unat (lr_last_heartbeat_timestamp_ms r) + unat (lr_lease_duration_ms r) < 2 ^ 64 \<longrightarrow>
      (btree_get (sc_leased_readers (st_collections s')) i = Some r \<longleftrightarrow>
         unat walltime_ms \<le> unat (lr_last_heartbeat_timestamp_ms r) + unat (lr_lease_duration_ms r))) \<and>
    (2 ^ 64 \<le> unat (lr_last_heartbeat_timestamp_ms r) + unat (lr_lease_duration_ms r) \<and>
      lr_last_heartbeat_timestamp_ms r \<le> walltime_ms \<longrightarrow>
      btree_get (sc_leased_readers (st_collections s')) i = None) \<and>
    sc_critical_readers (st_collections s') = sc_critical_readers (st_collections s)"
proof -
  have "btree_wf (sc_leased_readers (st_collections s))"
    using shard_reachable_inv [OF assms(1)] by (simp add: st_inv_def sc_inv_def)
  then have kept: "btree_get (sc_leased_readers (st_collections s')) i = (if reader_retained walltime_ms r then Some r else None)"
    using op get by (auto simp: expire_at_def Let_def btree_get_filter)
  have "unat x < 2 ^ 64" for x :: u64 using unsigned_less [where 'a = nat, of x] by simp
  then have "unat walltime_ms < 2 ^ 64" "unat (lr_lease_duration_ms r) < 2 ^ 64" by blast+
  then show ?thesis
    using kept op
    by (auto simp: reader_retained_def word_le_nat_alt unat_plus_if' expire_at_def Let_def)
qed

text \<open>Witness: a reader registered at time 10 with a lease of 8, at times 15 and 20.\<close>

lemma sample_leased_facts:
  "btree_get (sc_leased_readers (st_collections sample_leased)) [9] =
     Some \<lparr>lr_seqno = 2, lr_since = At 0, lr_last_heartbeat_timestamp_ms = 10, lr_lease_duration_ms = 8, lr_debug = sample_debug\<rparr>"
  by code_simp

theorem expire_at_leases_witness:
  "btree_get (sc_leased_readers (st_collections (snd (expire_at 15 sample_leased)))) [9] \<noteq> None \<and>
   btree_get (sc_leased_readers (st_collections (snd (expire_at 20 sample_leased)))) [9] \<noteq> btree_get (sc_leased_readers (st_collections sample_leased)) [9]"
proof -
  note e = expire_at_leases [OF sample_leased_reachable sample_leased_facts surjective_pairing]
  show ?thesis using e [of 15] e [of 20] sample_leased_facts by auto
qed

subsection \<open>Schemas\<close>

text \<open>
  What is asked of the codecs: decoding a schema or an arrow type inverts encoding it.
\<close>

definition codec_ok :: "dt_ops \<Rightarrow> 's schema_ops \<Rightarrow> bool" where
  "codec_ok D K \<longleftrightarrow> (\<forall>x. so_decode K (so_encode K x) = x) \<and>
     (\<forall>x t. so_data_type K x = Some t \<longrightarrow> dt_decode D (dt_encode D t) = Some t)"

lemma evolve_Continue:
  assumes "compare_and_evolve_schema K V D expected ks vs c = Some (Continue res, c')"
  obtains kt vt where "so_data_type K ks = Some kt" and "so_data_type V vs = Some vt" and "res = CaES_Ok (length (sc_schemas c))"
    and "c' = c\<lparr>sc_schemas := btree_insert (length (sc_schemas c)) (encoded_schemas K V D ks vs kt vt) (sc_schemas c)\<rparr>"
  using assms unfolding compare_and_evolve_schema_def Let_def
  by (auto split: bind_splits if_splits option.splits prod.splits)

text \<open>
  C22: Evolving the schema can be retried. After an evolution committed with a new id, evolving
  to the same schemas again, whatever the id expected, returns that id without committing, and
  so does registering them; all earlier schemas keep their ids.
\<close>

theorem evolve_retry:
  assumes "shard_reachable E cfg s" and "codec_ok D K" and "codec_ok D V"
    and op: "compare_and_evolve_schema K V D expected ks vs (st_collections s) = Some (Continue res, c')"
  shows "\<exists>i. res = CaES_Ok i \<and> i = length (sc_schemas (st_collections s)) \<and>
    compare_and_evolve_schema K V D expected' ks vs c' = Some (Break (CaES_Ok i), c') \<and>
    register_schema K V D ks vs c' = Some (Break (Some i), c') \<and>
    (\<forall>j < i. btree_get (sc_schemas c') j = btree_get (sc_schemas (st_collections s)) j)"
proof -
  let ?c = "st_collections s" and ?i = "length (sc_schemas (st_collections s))"
  have keys: "btree_keys (sc_schemas ?c) = [0..<?i]"
    using shard_reachable_inv [OF assms(1)] by (simp add: st_inv_def sc_inv_def)
  obtain kt vt where types: "so_data_type K ks = Some kt" "so_data_type V vs = Some vt" and res: "res = CaES_Ok ?i"
    and c': "c' = ?c\<lparr>sc_schemas := btree_insert ?i (encoded_schemas K V D ks vs kt vt) (sc_schemas ?c)\<rparr>"
    using op by (rule evolve_Continue)
  have ins: "btree_insert ?i (encoded_schemas K V D ks vs kt vt) (sc_schemas ?c) = sc_schemas ?c @ [(?i, encoded_schemas K V D ks vs kt vt)]"
    by (rule btree_insert_last [OF keys])
  note c' = c' [unfolded ins]
  have "compare_and_evolve_schema K V D expected' ks vs c' = Some (Break (CaES_Ok ?i), c')"
    using types assms(2,3) by (simp add: c' compare_and_evolve_schema_def Let_def encoded_schemas_def codec_ok_def)
  moreover have "register_schema K V D ks vs c' = Some (Break (Some ?i), c')"
    using assms(2,3) by (simp add: c' register_schema_def find_registered_def encoded_schemas_def codec_ok_def)
  moreover have "\<forall>j < ?i. btree_get (sc_schemas c') j = btree_get (sc_schemas ?c) j"
    using keys by (auto simp: c' map_add_def split: option.splits)
  ultimately show ?thesis using res by blast
qed

lemma sample_codec_ok: "codec_ok sample_dt_ops sample_schema_ops"
  by (auto simp: codec_ok_def sample_dt_ops_def sample_schema_ops_def sample_struct_def)

theorem evolve_retry_witness:
  "\<exists>c'. compare_and_evolve_schema sample_schema_ops sample_schema_ops sample_dt_ops 0 True True (st_collections sample_s2)
       = Some (Continue (CaES_Ok 1), c') \<and>
     compare_and_evolve_schema sample_schema_ops sample_schema_ops sample_dt_ops 7 True True c' = Some (Break (CaES_Ok 1), c')"
proof -
  have "map_option fst (compare_and_evolve_schema sample_schema_ops sample_schema_ops sample_dt_ops 0 True True (st_collections sample_s2))
     = Some (Continue (CaES_Ok 1))" by code_simp
  then obtain c' where op: "compare_and_evolve_schema sample_schema_ops sample_schema_ops sample_dt_ops 0 True True (st_collections sample_s2)
       = Some (Continue (CaES_Ok 1), c')" by auto
  show ?thesis
    using evolve_retry [OF sample_s2_reachable sample_codec_ok sample_codec_ok op, of 7] op by auto
qed

end
