(* ===== verification/Spec2Isabelle.thy ===== *)
theory Spec2Isabelle
  imports Replay Field_Diffs_Props Schema_Props Spine_Props Append_Props Read_Props Tombstone_Props Handle_Props
begin

text \<open>
  A verification development for the durable storage core of Materialize: the state machine of a
  persist shard (\<open>src/src/persist-client/src/internal\<close>), the spine it keeps its batches in, and
  the diffs that write its versions down.

  \<^bold>\<open>The program.\<close> A shard is a durable, time-varying collection. Its data are batches in blob
  storage; its state is a sequence of versions, each made from the one before by a command, and
  each stored in consensus as the diff to the one before. A version holds the readers and writers
  of the shard with their leases, the rollups (snapshots of the state), the schemas, and the
  trace: the batches of the shard, arranged in a spine whose levels are merged with fuel that
  appends provide. Compaction replaces batches of the trace by fewer ones with the same contents.
  Readers follow the shard by applying the diffs. When nothing can be read or written any more,
  the shard is turned into a tombstone.

  \<^bold>\<open>Theories and sources.\<close> The model is the top level of these theories, in the order of the code:

  \<^item> \<open>Prelude\<close>: machine integers, \<open>BTreeMap\<close> as sorted lists, panics, the frontiers.
  \<^item> \<open>Paths\<close>: \<open>paths.rs\<close>, the names of blobs, and parsing them.
  \<^item> \<open>Batch\<close>: the hollow batches, runs and parts of \<open>state.rs\<close>.
  \<^item> \<open>Spine\<close>, \<open>Merge_Res\<close>, \<open>Trace\<close>: \<open>trace.rs\<close>, the spine with its merges in progress, applying
    compaction results, and the trace around it. \<open>Flat\<close>: \<open>flatten\<close> and \<open>unflatten\<close>.
  \<^item> \<open>Schema\<close>: \<open>persist-types/src/schema.rs\<close>, backward compatibility and migrations.
  \<^item> \<open>State\<close>: every transition of \<open>StateCollections\<close>, and what is read from a version.
  \<^item> \<open>Apply\<close>: \<open>apply.rs\<close> and the closures of \<open>machine.rs\<close>: one command computes the next version.
  \<^item> \<open>State_Diff\<close>, \<open>Field_Diffs\<close>: \<open>state_diff.rs\<close> and the encoding of diffs in \<open>encoding.rs\<close>.

  State is passed explicitly: a struct is a record, an operation returns the updated record. A
  panic (a failed \<open>assert\<close>, an \<open>expect\<close>, an index out of range) is \<open>None\<close>; an error value is \<open>Inl\<close>;
  \<open>ControlFlow\<close> is the datatype of that name. Integers whose width matters are words: a \<open>u64\<close> wraps
  as in a release build. Debug and soft assertions do nothing there and are left out. A frontier
  is an element of a bounded lattice: the class laws are the contract of \<open>Antichain\<close>, and
  the type \<open>ts_frontier\<close> of \<open>u64\<close> times is an instance, on which the witnesses run.

  Code outside the repository is an argument: the uuid crate (\<open>uuid_ops\<close>), the sums of updates
  in parts and their writers' versions (\<open>ext\<close>), encoding of schemas (\<open>schema_ops\<close>, \<open>dt_ops\<close>), arrow
  arrays (\<open>arrow_ops\<close>), protobuf messages (\<open>codecs\<close>, \<open>diff_ops\<close>), version numbers as text
  (\<open>version_ops\<close>), and the order on the elements of two frontiers (\<open>el\<close>). What is relied on is a
  definition (\<open>uuid_ok\<close>, \<open>codec_ok\<close>, \<open>arrow_ok\<close>, \<open>elements_ok\<close>, \<open>diff_encodable\<close>) and a hypothesis of
  the theorems that need it; each has a witness with concrete functions.

  \<^bold>\<open>What is shown.\<close>

  \<^item> Spine (\<open>Spine_Inv\<close>, \<open>Spine_Safe\<close>, \<open>Spine_Props\<close>). The levels tile the ids and the times of the
    shard, every merge has fuel enough to finish before its level is needed again, and so inserting
    never panics and keeps every non-empty batch; the locale \<open>batch_store\<close> states this contract
    and is interpreted on the spine. The fuel of an insertion is computed at the width of the code.
  \<^item> Trace (\<open>Trace_Inv\<close>, \<open>Compaction\<close>, \<open>Trace_Props\<close>). All operations keep the spine's invariant, and
    applying a compaction result replaces adjacent parts by one over the same ids and times,
    keeping any additive weight of the contents that the result keeps.
  \<^item> Flat form (\<open>Flat_Props\<close>). Unflattening what flattening made gives the trace back.
  \<^item> Schemas (\<open>Schema_Props\<close>). Migrations are type correct.
  \<^item> Shard (\<open>State_Inv\<close>, \<open>Apply\<close>, \<open>Tombstone\<close>, \<open>Commit\<close>, \<open>Shard_Props\<close>, \<open>Append_Props\<close>, \<open>Read_Props\<close>,
    \<open>Handle_Props\<close>, \<open>Tombstone_Props\<close>). The locale \<open>transition\<close> is what committing asks of a command;
    it is interpreted on all of them, and \<open>tombstone_aware\<close> on those that leave tombstones alone. From it
    follow the invariants of all versions, that appends take effect once, that snapshots and listens
    are complete, that garbage collection respects readers, and that becoming a tombstone ends.
  \<^item> Diffs (\<open>State_Diff_Props\<close>, \<open>Diff_Roundtrip\<close>, \<open>Replay\<close>, \<open>Field_Diffs_Props\<close> and the end of this
    theory). The walk over two sorted maps and the application of its result are inverse for every
    order of keys (locale \<open>key_order\<close>); so a reader that applies the log of a shard follows its
    versions. Encoded diffs decode to themselves, and decoding is safe on any bytes.

  \<^bold>\<open>Bounds.\<close> Sequence numbers stay below the largest \<open>u64\<close>, sizes of batches below what the fuel
  computations can hold (\<open>hb_fits\<close>, \<open>2 ^ 60\<close> for \<open>exert\<close>): beyond that the source's own arithmetic wraps.
  The loop of \<open>become_tombstone\<close> has fuel, and the theorem says how much suffices. The other loops are
  structurally recursive or have a termination proof; the loop over the fields of an encoded diff is
  a partial function, shown to return on every input.

  \<^bold>\<open>Not modelled.\<close> What performs input and output: fetching, writing and compacting blobs, the consensus
  and blob services and their retries, carrying out a garbage collection, watches, metrics, caches and
  the RPC between processes. Commands are modelled as running one after the other on the latest
  version, which is what a successful compare-and-set in consensus ensures; the retry after a lost race is
  the replay of the log. The parquet and columnar encoding of data is arrow's. The protobuf messages of
  single values are generated code. The rest of Materialize (SQL, the optimizer, compute, storage,
  the coordinator) uses persist through its handles and is outside this development.
\<close>

subsection \<open>The log as consensus holds it\<close>

text \<open>The bytes written for the diffs of successive versions, each under its sequence number.\<close>

fun encode_log ::
  "diff_ops \<Rightarrow> version_ops \<Rightarrow> ('p, 'f) codecs \<Rightarrow> 'f StateDiff list \<Rightarrow> (SeqNo \<times> bytes) list option" where
  "encode_log D V C [] = Some []"
| "encode_log D V C (d # ds) = do {
     data \<leftarrow> diff_encode D V C d;
     rest \<leftarrow> encode_log D V C ds;
     Some ((sd_seqno_to d, data) # rest)
   }"

text \<open>
  What is asked of the libraries that encode a diff, for that diff: the messages of its keys and
  values, its version and the message of the whole decode to what was encoded, and the version of
  the reading code is not older than the diff's.
\<close>

definition diff_encodable ::
  "diff_ops \<Rightarrow> version_ops \<Rightarrow> ('p, 'f) codecs \<Rightarrow> semver \<Rightarrow> 'f StateDiff \<Rightarrow> bool" where
  "diff_encodable D V C build_version d \<longleftrightarrow>
     diff_codes C d \<and> sum_list (map length (all_slices (diff_entries C d))) < 2 ^ 64 \<and>
     vo_to_string V (sd_applier_version d) \<noteq> [] \<and>
     vo_parse V (vo_to_string V (sd_applier_version d)) = Some (sd_applier_version d) \<and>
     code_can_read_data build_version (sd_applier_version d) \<and>
     (case diff_into_proto V C d of None \<Rightarrow> True | Some proto \<Rightarrow> do_decode D (do_encode D proto) = Some proto)"

lemma diff_encode_decode:
  assumes "diff_encodable D V C build_version d"
  shows "\<exists>data. diff_encode D V C d = Some data \<and> diff_decode D V C build_version data = Some d"
  using assms proto_roundtrip [of C d V] by (auto simp: diff_encodable_def diff_encode_def diff_decode_def)

lemma encode_log_diffs:
  assumes "list_all (diff_encodable D V C build_version) ds"
  shows "encode_log D V C ds = Some (encode_diffs (the \<circ> diff_encode D V C) ds)"
  using assms by (induction ds) (auto dest!: diff_encode_decode)

text \<open>
  C2: From the bytes in consensus a reader recovers the latest version. The diffs of successive
  versions encode without a panic, and a reader that holds any of the versions and is given all
  the bytes decodes and applies those it lacks, without a panic, and then holds the latest
  version.
\<close>

theorem encoded_log_replay:
  assumes vs: "versions E cfg (vs @ v # ws)" and el: "elements_ok el" and r: "reader_at r v"
    and enc: "\<And>ds. shard_diffs el (vs @ v # ws) = Some ds \<Longrightarrow> list_all (diff_encodable D V C build_version) ds"
  shows "\<exists>ds log r'. shard_diffs el (vs @ v # ws) = Some ds \<and> encode_log D V C ds = Some log \<and>
    apply_encoded_diffs el (diff_decode D V C build_version) log r = Some r' \<and> reader_at r' (last (v # ws))"
proof -
  let ?decode = "diff_decode D V C build_version" and ?encode = "the \<circ> diff_encode D V C"
  obtain ds where ds: "shard_diffs el (vs @ v # ws) = Some ds"
    and replay: "(\<forall>d \<in> set ds. ?decode (?encode d) = Some d) \<Longrightarrow>
      \<exists>r'. apply_encoded_diffs el ?decode (encode_diffs ?encode ds) r = Some r' \<and> reader_at r' (last (v # ws))"
    using replay_log [OF vs el r, of ?decode ?encode] by blast
  have "\<forall>d \<in> set ds. ?decode (?encode d) = Some d"
    using enc [OF ds] by (force simp: list_all_iff dest!: diff_encode_decode)
  with ds replay encode_log_diffs [OF enc [OF ds]] show ?thesis by blast
qed

text \<open>Witness: the log of the sample shard, with values encoded by their position in a table.\<close>

definition table_codec :: "'v list \<Rightarrow> (bytes, 'v) codec" where
  "table_codec vals = raw_codec (\<lambda>v. [of_nat (length (takeWhile (\<lambda>w. w \<noteq> v) vals))]) (\<lambda>bs. Inr (vals ! unat (hd bs)))"

fun diff_values :: "'v StateFieldValDiff \<Rightarrow> 'v list" where
  "diff_values (Insert a) = [a]"
| "diff_values (Update a b) = [a, b]"
| "diff_values (Delete a) = [a]"

definition field_keys :: "('k, 'v) StateFieldDiff list list \<Rightarrow> 'k list" where
  "field_keys dss = map sfd_key (concat dss)"

definition field_values :: "('k, 'v) StateFieldDiff list list \<Rightarrow> 'v list" where
  "field_values dss = concat (map (diff_values \<circ> sfd_val) (concat dss))"

definition table_codecs :: "ts_frontier StateDiff list \<Rightarrow> (bytes, ts_frontier) codecs" where
  "table_codecs ds = sample_codecs
     \<lparr>co_writer_id := table_codec (field_keys (map sd_writers ds)), co_writer := table_codec (field_values (map sd_writers ds)),
      co_batch := table_codec (field_keys (map sd_legacy_batches ds)),
      co_spine_id := table_codec (field_keys (map sd_spine_batches ds) @ field_keys (map sd_merges ds)),
      co_spine_batch := table_codec (field_values (map sd_spine_batches ds)),
      co_merge := table_codec (field_values (map sd_merges ds))\<rparr>"

definition sample_log_diffs :: "ts_frontier StateDiff list" where
  "sample_log_diffs = the (shard_diffs ts_elements_cmp [sample_s2, sample_s3, sample_s4])"

definition sample_protos :: "ProtoStateDiff list" where
  "sample_protos = map (the \<circ> diff_into_proto sample_versions (table_codecs sample_log_diffs)) sample_log_diffs"

definition sample_diff_ops :: diff_ops where
  "sample_diff_ops = \<lparr>do_encode = (\<lambda>p. [ucast (psd_seqno_to p)]),
     do_decode = (\<lambda>b. List.find (\<lambda>p. [ucast (psd_seqno_to p)] = b) sample_protos)\<rparr>"

theorem encoded_log_replay_witness:
  "\<exists>ds log r'. shard_diffs ts_elements_cmp [sample_s2, sample_s3, sample_s4] = Some ds \<and> length ds = 2 \<and>
     encode_log sample_diff_ops sample_versions (table_codecs sample_log_diffs) ds = Some log \<and>
     apply_encoded_diffs ts_elements_cmp
       (diff_decode sample_diff_ops sample_versions (table_codecs sample_log_diffs) \<lparr>major = 0, minor = 1, patch = 0\<rparr>)
       log sample_s3 = Some r' \<and> reader_at r' sample_s4"
proof -
  have vs: "versions sample_env sample_cfg ([sample_s2] @ sample_s3 # [sample_s4])"
    using sample_s2_reachable sample_step_3 sample_step_4 sample_diffable_3 sample_diffable_4 by (simp add: versions_def)
  have ds: "shard_diffs ts_elements_cmp [sample_s2, sample_s3, sample_s4] = Some sample_log_diffs" by code_simp
  have "length sample_log_diffs = 2" by code_simp
  moreover have "list_all (diff_encodable sample_diff_ops sample_versions (table_codecs sample_log_diffs)
      \<lparr>major = 0, minor = 1, patch = 0\<rparr>) sample_log_diffs" by code_simp
  ultimately show ?thesis
    using encoded_log_replay [OF vs sample_elements sample_reader, of sample_diff_ops sample_versions
        "table_codecs sample_log_diffs" "\<lparr>major = 0, minor = 1, patch = 0\<rparr>"] ds by auto
qed

end
